(* ===== verification/BIR_Prelude.thy ===== *)
theory BIR_Prelude
  imports Main "HOL-Library.Word" "HOL-Library.While_Combinator"
begin

text \<open>
  Shared vocabulary of the development: the types the intermediate representation is written
  over, Rust's text formatting as far as the compiler uses it (decimal and lowercase hexadecimal
  numbers), and the generic lemmas on lists, options and finite iteration that the components
  share.

  A Rust \<open>String\<close> or \<open>str\<close> is a list of Unicode scalar values, since the code iterates over
  \<open>chars()\<close>; a literal of the source is \<open>lit ''...''\<close>. A \<open>usize\<close> is a \<open>nat\<close>: it is only ever
  an index into, or a length of, a vector that is in memory. The \<open>i64\<close> and \<open>u32\<close> operands of an
  operation are words of their width.
\<close>

section \<open>Names of the model's types\<close>

type_synonym ustr = "nat list"
type_synonym i64 = "64 word"
type_synonym u32 = "32 word"
type_synonym register_id = nat
type_synonym block_id = nat

named_theorems bir_access "laws of the operand and destination accessors"
named_theorems bir_render "how the text of a symbol decomposes"

definition lit :: "string \<Rightarrow> ustr" where
  "lit s = map of_char s"

lemma lit_Nil [simp]: "lit [] = []"
  by (simp add: lit_def)

lemma lit_Cons [simp]: "lit (c # cs) = of_char c # lit cs"
  by (simp add: lit_def)

lemma length_lit [simp]: "length (lit s) = length s"
  by (simp add: lit_def)

section \<open>Reading a vector by index\<close>

text \<open>Rust's \<open>slice::get\<close>: \<open>None\<close> out of range.\<close>

definition get :: "'a list \<Rightarrow> nat \<Rightarrow> 'a option" where
  "get xs i = (if i < length xs then Some (xs ! i) else None)"

lemma get_None_iff: "get xs i = None \<longleftrightarrow> length xs \<le> i"
  by (auto simp: get_def)

lemma get_Some_iff: "get xs i = Some x \<longleftrightarrow> i < length xs \<and> xs ! i = x"
  by (auto simp: get_def)

lemma get_SomeD: "get xs i = Some x \<Longrightarrow> i < length xs \<and> xs ! i = x \<and> x \<in> set xs"
  by (auto simp: get_Some_iff)

lemma get_map [simp]: "get (map f xs) i = map_option f (get xs i)"
  by (simp add: get_def)

lemma get_Nil [simp]: "get [] i = None"
  by (simp add: get_def)

lemma get_Cons_0 [simp]: "get (x # xs) 0 = Some x"
  by (simp add: get_def)

lemma get_Cons_Suc [simp]: "get (x # xs) (Suc i) = get xs i"
  by (simp add: get_def)

lemma get_Cons_numeral [simp]: "get (x # xs) (numeral n) = get xs (numeral n - 1)"
  by (simp add: get_def nth_Cons')

section \<open>Collecting optional results\<close>

text \<open>\<open>filter_map\<close> of an iterator, and \<open>Option\<close> as an iterator of at most one item.\<close>

fun filter_map :: "('a \<Rightarrow> 'b option) \<Rightarrow> 'a list \<Rightarrow> 'b list" where
  "filter_map f [] = []"
| "filter_map f (x # xs) = (case f x of None \<Rightarrow> filter_map f xs | Some y \<Rightarrow> y # filter_map f xs)"

definition option_list :: "'a option \<Rightarrow> 'a list" where
  "option_list x = (case x of None \<Rightarrow> [] | Some y \<Rightarrow> [y])"

lemma option_list_simps [simp]: "option_list None = []" "option_list (Some x) = [x]"
  by (simp_all add: option_list_def)

lemma set_option_list [simp]: "set (option_list x) = set_option x"
  by (cases x) auto

lemma map_option_list [simp]: "map f (option_list x) = option_list (map_option f x)"
  by (cases x) auto

lemma set_filter_map: "set (filter_map f xs) = {y. \<exists>x \<in> set xs. f x = Some y}"
  by (induction xs) (auto split: option.splits)

lemma filter_map_append [simp]: "filter_map f (xs @ ys) = filter_map f xs @ filter_map f ys"
  by (induction xs) (auto split: option.splits)

lemma filter_map_map: "filter_map f (map g xs) = filter_map (f \<circ> g) xs"
  by (induction xs) (auto split: option.splits)

lemma map_filter_map: "map h (filter_map f xs) = filter_map (\<lambda>x. map_option h (f x)) xs"
  by (induction xs) (auto split: option.splits)

lemma concat_eq_Nil_iff: "concat (map f xs) = [] \<longleftrightarrow> (\<forall>x \<in> set xs. f x = [])"
  by auto

section \<open>Sequencing computations that may not return\<close>

text \<open>
  A verifier pass appends what each part reports; \<open>None\<close> is a part that never returns, and then
  neither does the whole.
\<close>

fun sequence_errors :: "'e list option list \<Rightarrow> 'e list option" where
  "sequence_errors [] = Some []"
| "sequence_errors (x # xs) =
     (case x of None \<Rightarrow> None | Some es \<Rightarrow> map_option (\<lambda>rest. es @ rest) (sequence_errors xs))"

lemma sequence_errors_Nil_iff:
  "sequence_errors xs = Some [] \<longleftrightarrow> (\<forall>x \<in> set xs. x = Some [])"
  by (induction xs) (auto split: option.splits)

lemma sequence_errors_map_Some [simp]:
  "sequence_errors (map (\<lambda>x. Some (f x)) xs) = Some (concat (map f xs))"
  by (induction xs) auto

section \<open>Numbers as text\<close>

text \<open>The digits of \<open>n\<close> in base \<open>b\<close>, most significant first, as the formatter writes them.\<close>

function radix_digits :: "nat \<Rightarrow> nat \<Rightarrow> nat list" where
  "radix_digits b n =
     (if n < b \<or> b < 2 then [n] else radix_digits b (n div b) @ [n mod b])"
  by pat_completeness auto
termination
  by (relation "measure snd") auto

declare radix_digits.simps [simp del]

definition digit_char :: "nat \<Rightarrow> nat" where
  "digit_char d = (if d < 10 then 48 + d else 87 + d)"

definition decimal :: "nat \<Rightarrow> ustr" where
  "decimal n = map digit_char (radix_digits 10 n)"

definition lower_hex :: "nat \<Rightarrow> ustr" where
  "lower_hex n = map digit_char (radix_digits 16 n)"

definition radix_value :: "nat \<Rightarrow> nat list \<Rightarrow> nat" where
  "radix_value b ds = foldl (\<lambda>acc d. acc * b + d) 0 ds"

lemma radix_digits_nonempty [simp]: "radix_digits b n \<noteq> []"
  by (subst radix_digits.simps) simp

lemma radix_digits_bound: "2 \<le> b \<Longrightarrow> d \<in> set (radix_digits b n) \<Longrightarrow> d < b"
proof (induction b n rule: radix_digits.induct)
  case (1 b n)
  then show ?case
    by (cases "n < b") (auto simp: radix_digits.simps [of b n])
qed

lemma radix_value_digits: "2 \<le> b \<Longrightarrow> radix_value b (radix_digits b n) = n"
proof (induction b n rule: radix_digits.induct)
  case (1 b n)
  then show ?case
    by (cases "n < b") (auto simp: radix_digits.simps [of b n] radix_value_def)
qed

lemma radix_digits_inj: "2 \<le> b \<Longrightarrow> radix_digits b m = radix_digits b n \<Longrightarrow> m = n"
  by (metis radix_value_digits)

lemma radix_digits_leading_zero: "2 \<le> b \<Longrightarrow> hd (radix_digits b n) = 0 \<longleftrightarrow> n = 0"
proof (induction b n rule: radix_digits.induct)
  case (1 b n)
  show ?case
  proof (cases "n < b")
    case True
    then show ?thesis by (simp add: radix_digits.simps [of b n])
  next
    case False
    with 1 have "hd (radix_digits b (n div b)) = 0 \<longleftrightarrow> n div b = 0" by simp
    moreover have "n div b \<noteq> 0" using False 1(2) by (simp add: div_eq_0_iff)
    ultimately show ?thesis using False 1(2) by (simp add: radix_digits.simps [of b n])
  qed
qed

lemma digit_char_inj: "inj_on digit_char {..<16}"
  by (auto simp: inj_on_def digit_char_def split: if_splits)

lemma map_digit_char_inj:
  assumes "set xs \<subseteq> {..<16}" "set ys \<subseteq> {..<16}" "map digit_char xs = map digit_char ys"
  shows "xs = ys"
proof (rule map_inj_on [of digit_char])
  show "inj_on digit_char (set xs \<union> set ys)"
    using assms(1,2) by (intro inj_on_subset [OF digit_char_inj]) simp
qed (fact assms(3))

lemma radix_digits_small:
  assumes "2 \<le> b" "b \<le> 16"
  shows "set (radix_digits b n) \<subseteq> {..<16}"
proof
  fix d assume "d \<in> set (radix_digits b n)"
  with assms(1) have "d < b" by (rule radix_digits_bound)
  with assms(2) show "d \<in> {..<16}" by simp
qed

lemma map_digit_char_radix_inj:
  assumes "2 \<le> b" "b \<le> 16" "map digit_char (radix_digits b m) = map digit_char (radix_digits b n)"
  shows "m = n"
  using map_digit_char_inj [OF radix_digits_small radix_digits_small assms(3)] assms(1,2)
  by (simp add: radix_digits_inj)

lemma decimal_inj [dest]: "decimal m = decimal n \<Longrightarrow> m = n"
  unfolding decimal_def by (rule map_digit_char_radix_inj [of 10]) simp_all

lemma lower_hex_inj [dest]: "lower_hex m = lower_hex n \<Longrightarrow> m = n"
  unfolding lower_hex_def by (rule map_digit_char_radix_inj [of 16]) simp_all

lemma decimal_nonempty [simp]: "decimal n \<noteq> []"
  by (simp add: decimal_def)

end
