(* ===== verification/BIR_Mangle.thy ===== *)
theory BIR_Mangle
  imports BIR_Prelude
begin

text \<open>
  \<^verbatim>\<open>by_ir/src/mangle.rs\<close>: how a Python name becomes part of a C identifier. The first layer,
  \<open>spell\<close>, writes a name in the characters of a C identifier; the second, \<open>mangle\<close>, puts the
  spelling's length in front. What the emitter needs of it is stated as the locale \<open>name_code\<close>:
  a code word ends where it says, so whatever follows it cannot be read as part of it.
\<close>

section \<open>The two layers\<close>

definition ESCAPE :: nat where
  "ESCAPE = 90"

definition is_ascii_alphabetic :: "nat \<Rightarrow> bool" where
  "is_ascii_alphabetic c \<longleftrightarrow> 65 \<le> c \<and> c \<le> 90 \<or> 97 \<le> c \<and> c \<le> 122"

definition is_ascii_digit :: "nat \<Rightarrow> bool" where
  "is_ascii_digit c \<longleftrightarrow> 48 \<le> c \<and> c \<le> 57"

definition underscore :: nat where
  "underscore = 95"

definition spell_char :: "nat \<Rightarrow> nat \<Rightarrow> ustr" where
  "spell_char at c =
     (let plain = (c \<noteq> ESCAPE \<and>
                   (is_ascii_alphabetic c \<or> c = underscore \<or> (is_ascii_digit c \<and> 0 < at)))
      in if plain then [c]
         else if c = ESCAPE then [ESCAPE, ESCAPE]
         else ESCAPE # lower_hex c @ [underscore])"

fun spell_from :: "nat \<Rightarrow> ustr \<Rightarrow> ustr" where
  "spell_from at [] = []"
| "spell_from at (c # cs) = spell_char at c @ spell_from (Suc at) cs"

definition spell :: "ustr \<Rightarrow> ustr" where
  "spell name = spell_from 0 name"

definition mangle :: "ustr \<Rightarrow> ustr" where
  "mangle name = (let spelled = spell name in decimal (length spelled) @ spelled)"

text \<open>The inverse the module's own tests read a mangled name back with.\<close>

fun parse_hex :: "ustr \<Rightarrow> nat \<Rightarrow> nat option" where
  "parse_hex [] acc = Some acc"
| "parse_hex (c # cs) acc =
     (if is_ascii_digit c then parse_hex cs (acc * 16 + (c - 48))
      else if 97 \<le> c \<and> c \<le> 102 then parse_hex cs (acc * 16 + (c - 87))
      else if 65 \<le> c \<and> c \<le> 70 then parse_hex cs (acc * 16 + (c - 55))
      else None)"

text \<open>\<open>u32::from_str_radix(_, 16)\<close>, which takes a leading \<open>+\<close> and refuses what overflows.\<close>

definition parse_u32_hex :: "ustr \<Rightarrow> nat option" where
  "parse_u32_hex digits =
     (case parse_hex (if 1 < length digits \<and> hd digits = 43 then tl digits else digits) 0 of
        Some n \<Rightarrow> if n < 2 ^ 32 then Some n else None
      | None \<Rightarrow> None)"

fun parse_decimal :: "ustr \<Rightarrow> nat \<Rightarrow> nat option" where
  "parse_decimal [] acc = Some acc"
| "parse_decimal (c # cs) acc =
     (if is_ascii_digit c then parse_decimal cs (acc * 10 + (c - 48)) else None)"

text \<open>The characters up to the closing \<open>_\<close>, and what follows it; \<open>None\<close> if the text ends first.\<close>

fun take_hex :: "ustr \<Rightarrow> (ustr \<times> ustr) option" where
  "take_hex [] = None"
| "take_hex (c # cs) =
     (if c = underscore then Some ([], cs)
      else map_option (\<lambda>(hex, rest). (c # hex, rest)) (take_hex cs))"

lemma take_hex_length: "take_hex cs = Some (hex, rest) \<Longrightarrow> length rest < length cs"
  by (induction cs arbitrary: hex rest) (fastforce split: if_splits)+

definition scalar_value :: "nat \<Rightarrow> bool" where
  "scalar_value c \<longleftrightarrow> c < 0x110000 \<and> \<not> (0xD800 \<le> c \<and> c \<le> 0xDFFF)"

function unspell :: "ustr \<Rightarrow> ustr option" where
  "unspell [] = Some []"
| "unspell (c # cs) =
     (if c \<noteq> ESCAPE then map_option ((#) c) (unspell cs)
      else (case cs of
              [] \<Rightarrow> None
            | first # more \<Rightarrow>
                if first = ESCAPE then map_option ((#) ESCAPE) (unspell more)
                else (case take_hex more of
                        None \<Rightarrow> None
                      | Some (hex, rest) \<Rightarrow>
                          (case parse_u32_hex (first # hex) of
                             None \<Rightarrow> None
                           | Some n \<Rightarrow>
                               if scalar_value n
                               then map_option ((#) n) (unspell rest) else None))))"
  by pat_completeness auto
termination
  by (relation "measure length") (auto dest: take_hex_length)

text \<open>
  The length a mangled name carries counts bytes. \<open>take_bytes n\<close> is the pair of slices a text has
  up to and from byte \<open>n\<close>, \<open>None\<close> where that is past its end or inside a character.
\<close>

definition utf8_length :: "nat \<Rightarrow> nat" where
  "utf8_length c = (if c < 0x80 then 1 else if c < 0x800 then 2 else if c < 0x10000 then 3 else 4)"

fun take_bytes :: "nat \<Rightarrow> ustr \<Rightarrow> (ustr \<times> ustr) option" where
  "take_bytes 0 cs = Some ([], cs)"
| "take_bytes n [] = None"
| "take_bytes n (c # cs) =
     (if utf8_length c \<le> n
      then map_option (\<lambda>(taken, rest). (c # taken, rest)) (take_bytes (n - utf8_length c) cs)
      else None)"

definition unmangle :: "ustr \<Rightarrow> (ustr \<times> ustr) option" where
  "unmangle text =
     (let digits = takeWhile is_ascii_digit text
      in case (if digits = [] then None else parse_decimal digits 0) of
           None \<Rightarrow> None
         | Some len \<Rightarrow>
             if 2 ^ 64 \<le> len then None
             else (case take_bytes len (drop (length digits) text) of
                     None \<Rightarrow> None
                   | Some (spelled, rest) \<Rightarrow>
                       map_option (\<lambda>name. (name, rest)) (unspell spelled)))"

section \<open>Codes that end where they say\<close>

text \<open>
  The contract the emitter relies on when it splices names and literal text into one symbol.
  \<open>code\<close> need not be decodable by anything the compiler runs; that no two splices agree is enough.
\<close>

locale name_code =
  fixes code :: "ustr \<Rightarrow> ustr"
  assumes delimits: "code a @ x = code b @ y \<Longrightarrow> a = b \<and> x = y"
begin

lemma code_inj: "code a = code b \<Longrightarrow> a = b"
  using delimits [of a "[]" b "[]"] by simp

lemma code_eq_iff [simp]: "code a = code b \<longleftrightarrow> a = b"
  using code_inj by auto

lemma code_append_eq_iff [simp]: "code a @ x = code b @ y \<longleftrightarrow> a = b \<and> x = y"
  by (auto dest: delimits)

lemma code_append_eq_code [simp]: "code a @ x = code b \<longleftrightarrow> a = b \<and> x = []"
  using delimits [of a x b "[]"] by auto

lemma code_eq_code_append [simp]: "code a = code b @ y \<longleftrightarrow> a = b \<and> y = []"
  using delimits [of a "[]" b y] by auto

text \<open>Sequences of names joined by literal text are read back one way only.\<close>

lemma join_inj:
  assumes "length as = length bs"
    and "concat (map (\<lambda>a. code a @ sep) as) = concat (map (\<lambda>a. code a @ sep) bs)"
  shows "as = bs"
  using assms by (induction as bs rule: list_induct2) auto

end

section \<open>The spelling\<close>

lemma spell_char_nonempty [simp]: "spell_char at c \<noteq> []"
  by (simp add: spell_char_def Let_def)

lemma digit_char_class:
  assumes "d < 16"
  shows "is_ascii_alphabetic (digit_char d) \<or> is_ascii_digit (digit_char d)"
    "digit_char d \<noteq> ESCAPE" "digit_char d \<noteq> underscore"
  using assms by (auto simp: digit_char_def is_ascii_alphabetic_def is_ascii_digit_def
      ESCAPE_def underscore_def)

lemma lower_hex_class:
  assumes "c \<in> set (lower_hex n)"
  shows "is_ascii_alphabetic c \<or> is_ascii_digit c" "c \<noteq> ESCAPE" "c \<noteq> underscore"
proof -
  from assms obtain d where "d \<in> set (radix_digits 16 n)" and c: "c = digit_char d"
    by (auto simp: lower_hex_def)
  then have "d < 16" by (intro radix_digits_bound) auto
  then show "is_ascii_alphabetic c \<or> is_ascii_digit c" "c \<noteq> ESCAPE" "c \<noteq> underscore"
    unfolding c by (rule digit_char_class)+
qed

lemma lower_hex_nonempty [simp]: "lower_hex n \<noteq> []"
  by (simp add: lower_hex_def)

lemma split_at_first:
  assumes "u \<notin> set xs" "u \<notin> set ys" "xs @ u # x = ys @ u # y"
  shows "xs = ys \<and> x = y"
  using assms
proof (induction xs arbitrary: ys)
  case Nil
  then show ?case by (cases ys) auto
next
  case (Cons a xs)
  then show ?case by (cases ys) auto
qed

lemma lower_hex_delimited:
  "lower_hex m @ underscore # x = lower_hex n @ underscore # y \<Longrightarrow> m = n \<and> x = y"
  using split_at_first [of underscore "lower_hex m" "lower_hex n" x y] lower_hex_class(3)
  by blast

lemma lower_hex_not_ESCAPE: "lower_hex n @ x \<noteq> ESCAPE # y"
  using lower_hex_class(2) [of "hd (lower_hex n)" n]
  by (cases "lower_hex n") auto

lemma spell_char_cases:
  obtains (plain) "spell_char at c = [c]" "c \<noteq> ESCAPE"
  | (escape) "spell_char at c = [ESCAPE, ESCAPE]" "c = ESCAPE"
  | (hex) "spell_char at c = ESCAPE # lower_hex c @ [underscore]"
  by (cases "c = ESCAPE";
      cases "is_ascii_alphabetic c \<or> c = underscore \<or> (is_ascii_digit c \<and> 0 < at)")
    (simp_all add: spell_char_def)

lemma spell_char_delimits:
  assumes "spell_char at c @ x = spell_char at d @ y"
  shows "c = d \<and> x = y"
proof (cases at c rule: spell_char_cases)
  case plain
  with assms show ?thesis by (cases at d rule: spell_char_cases) auto
next
  case escape
  with assms lower_hex_not_ESCAPE [of d "underscore # y" x] show ?thesis
    by (cases at d rule: spell_char_cases) auto
next
  case hex
  with assms lower_hex_not_ESCAPE [of c "underscore # x" y]
    lower_hex_delimited [of c x d y] show ?thesis
    by (cases at d rule: spell_char_cases) auto
qed

lemma spell_from_inj: "spell_from at a = spell_from at b \<Longrightarrow> a = b"
proof (induction a arbitrary: b at)
  case Nil
  then show ?case by (cases b) auto
next
  case (Cons c cs)
  then show ?case by (cases b) (auto dest: spell_char_delimits)
qed

lemma spell_inj: "spell a = spell b \<Longrightarrow> a = b"
  by (auto simp: spell_def dest: spell_from_inj)

definition c_identifier_char :: "nat \<Rightarrow> bool" where
  "c_identifier_char c \<longleftrightarrow> is_ascii_alphabetic c \<or> is_ascii_digit c \<or> c = underscore"

lemma ESCAPE_alphabetic [simp]: "is_ascii_alphabetic ESCAPE"
  by (simp add: ESCAPE_def is_ascii_alphabetic_def)

lemma spell_char_identifier: "c \<in> set (spell_char at d) \<Longrightarrow> c_identifier_char c"
  using lower_hex_class(1)
  by (auto simp: spell_char_def Let_def c_identifier_char_def split: if_splits)

lemma spell_from_identifier: "c \<in> set (spell_from at name) \<Longrightarrow> c_identifier_char c"
  by (induction name arbitrary: at) (auto dest: spell_char_identifier)

lemma spell_no_leading_digit:
  assumes "spell name = c # cs"
  shows "\<not> is_ascii_digit c"
proof -
  have "\<not> is_ascii_digit (hd (spell_char 0 d))" for d
    by (auto simp: spell_char_def Let_def ESCAPE_def is_ascii_digit_def is_ascii_alphabetic_def
        underscore_def)
  moreover from assms obtain d ds where "name = d # ds" by (cases name) (auto simp: spell_def)
  with assms have "c = hd (spell_char 0 d)"
    by (cases "spell_char 0 d") (auto simp: spell_def)
  ultimately show ?thesis by simp
qed

section \<open>The length prefix\<close>

lemma decimal_digits: "c \<in> set (decimal n) \<Longrightarrow> is_ascii_digit c"
proof -
  assume "c \<in> set (decimal n)"
  then obtain d where "d \<in> set (radix_digits 10 n)" and c: "c = digit_char d"
    by (auto simp: decimal_def)
  then have "d < 10" by (intro radix_digits_bound) auto
  then show ?thesis by (simp add: c digit_char_def is_ascii_digit_def)
qed

lemma decimal_leading_zero: "hd (decimal n) = 48 \<longleftrightarrow> n = 0"
proof -
  have "hd (decimal n) = digit_char (hd (radix_digits 10 n))"
    by (simp add: decimal_def hd_map)
  moreover have "digit_char d = 48 \<longleftrightarrow> d = 0" for d
    by (simp add: digit_char_def)
  ultimately show ?thesis by (simp add: radix_digits_leading_zero)
qed

lemma decimal_0 [simp]: "decimal 0 = [48]"
  by (simp add: decimal_def radix_digits.simps digit_char_def)

lemma takeWhile_decimal:
  assumes "s \<noteq> []" "\<not> is_ascii_digit (hd s)"
  shows "takeWhile is_ascii_digit (decimal n @ s @ x) = decimal n"
  using assms decimal_digits by (cases s) (auto simp: takeWhile_append)

lemma spell_hd: "spell name \<noteq> [] \<Longrightarrow> \<not> is_ascii_digit (hd (spell name))"
  by (cases "spell name") (auto dest: spell_no_leading_digit)

lemma mangle_delimits:
  assumes "mangle a @ x = mangle b @ y"
  shows "a = b \<and> x = y"
proof (cases "spell a = [] \<or> spell b = []")
  case True
  have hd_eq: "hd (decimal (length (spell a))) = hd (decimal (length (spell b)))"
    using arg_cong [OF assms, of hd] by (simp add: mangle_def Let_def hd_append)
  with True have "spell a = [] \<and> spell b = []"
    using decimal_leading_zero by (metis length_0_conv)
  with assms show ?thesis using spell_inj [of a b] by (simp add: mangle_def)
next
  case False
  then have "takeWhile is_ascii_digit (mangle a @ x) = decimal (length (spell a))"
    "takeWhile is_ascii_digit (mangle b @ y) = decimal (length (spell b))"
    by (simp_all add: mangle_def Let_def takeWhile_decimal spell_hd)
  with assms have len: "length (spell a) = length (spell b)"
    by (auto dest: decimal_inj)
  with assms have "spell a = spell b \<and> x = y"
    by (simp add: mangle_def Let_def)
  then show ?thesis using spell_inj by blast
qed

interpretation mangled: name_code mangle
  by unfold_locales (rule mangle_delimits)

declare mangled.code_eq_iff [bir_render] mangled.code_append_eq_iff [bir_render]
  mangled.code_append_eq_code [bir_render] mangled.code_eq_code_append [bir_render]

lemma mangle_identifier: "c \<in> set (mangle name) \<Longrightarrow> c_identifier_char c"
  by (auto simp: mangle_def Let_def spell_def c_identifier_char_def
      dest: decimal_digits spell_from_identifier)

section \<open>Reading a mangled name back\<close>

lemma parse_hex_digits:
  "set ds \<subseteq> {..<16} \<Longrightarrow>
     parse_hex (map digit_char ds) acc = Some (foldl (\<lambda>a d. a * 16 + d) acc ds)"
  by (induction ds arbitrary: acc) (auto simp: digit_char_def is_ascii_digit_def)

lemma parse_hex_lower_hex: "parse_hex (lower_hex n) 0 = Some n"
proof -
  have "parse_hex (lower_hex n) 0 = Some (radix_value 16 (radix_digits 16 n))"
    unfolding lower_hex_def radix_value_def
    by (rule parse_hex_digits, rule radix_digits_small) simp_all
  then show ?thesis by (simp add: radix_value_digits)
qed

lemma parse_decimal_digits:
  "set ds \<subseteq> {..<10} \<Longrightarrow>
     parse_decimal (map digit_char ds) acc = Some (foldl (\<lambda>a d. a * 10 + d) acc ds)"
  by (induction ds arbitrary: acc) (auto simp: digit_char_def is_ascii_digit_def)

lemma parse_decimal_decimal: "parse_decimal (decimal n) 0 = Some n"
proof -
  have "set (radix_digits 10 n) \<subseteq> {..<10}"
    by (auto intro: radix_digits_bound)
  then have "parse_decimal (decimal n) 0 = Some (radix_value 10 (radix_digits 10 n))"
    by (simp add: decimal_def radix_value_def parse_decimal_digits)
  then show ?thesis by (simp add: radix_value_digits)
qed

lemma take_hex_append:
  "underscore \<notin> set hex \<Longrightarrow> take_hex (hex @ underscore # rest) = Some (hex, rest)"
  by (induction hex) auto

lemma unspell_spell_char:
  assumes "scalar_value c"
  shows "unspell (spell_char at c @ rest) = map_option ((#) c) (unspell rest)"
proof (cases "spell_char at c = ESCAPE # lower_hex c @ [underscore]")
  case True
  obtain first hex where split: "lower_hex c = first # hex"
    by (cases "lower_hex c") auto
  then have "first \<noteq> ESCAPE" and "underscore \<notin> set hex"
    using lower_hex_class [of _ c] by auto
  moreover have "c < 2 ^ 32" using assms by (simp add: scalar_value_def)
  moreover have "parse_u32_hex (first # hex) = Some c"
    using parse_hex_lower_hex [of c] split lower_hex_class(1) [of first c] \<open>c < 2 ^ 32\<close>
    by (auto simp: parse_u32_hex_def is_ascii_alphabetic_def is_ascii_digit_def)
  ultimately show ?thesis
    using True split assms by (simp add: take_hex_append)
next
  case False
  then show ?thesis by (auto simp: spell_char_def Let_def split: if_splits)
qed

lemma unspell_spell_from:
  "\<forall>c \<in> set name. scalar_value c \<Longrightarrow> unspell (spell_from at name) = Some name"
  by (induction name arbitrary: at) (auto simp: unspell_spell_char)

lemma take_bytes_ascii:
  "\<forall>c \<in> set cs. c_identifier_char c \<Longrightarrow> take_bytes (length cs) (cs @ rest) = Some (cs, rest)"
  by (induction cs) (auto simp: utf8_length_def c_identifier_char_def is_ascii_alphabetic_def
      is_ascii_digit_def underscore_def)

lemma take_bytes_spell: "take_bytes (length (spell name)) (spell name @ rest) = Some (spell name, rest)"
  by (rule take_bytes_ascii) (auto simp: spell_def dest: spell_from_identifier)

lemma takeWhile_mangle:
  "spell name \<noteq> [] \<or> rest = [] \<or> \<not> is_ascii_digit (hd rest) \<Longrightarrow>
     takeWhile is_ascii_digit (mangle name @ rest) = decimal (length (spell name))"
  using decimal_digits spell_hd [of name]
  by (cases "spell name"; cases rest)
    (auto simp: mangle_def takeWhile_append is_ascii_digit_def [of 48])

section \<open>Properties\<close>

text \<open>
  A mangled name ends where it says: whatever text follows two mangled names, the two
  splices are equal only if the names and the remaining texts are. In particular no two names
  mangle alike.
\<close>

theorem mangle_self_delimiting: "mangle a @ x = mangle b @ y \<longleftrightarrow> a = b \<and> x = y"
  by (rule mangled.code_append_eq_iff)

text \<open>
  The reader of the module's tests recovers a mangled name, and exactly the text after it,
  from any name of Unicode scalar values, provided the text after an empty name does not begin
  with a digit and the spelling's length fits the machine word the reader parses it into.
\<close>

theorem unmangle_mangle:
  assumes "\<forall>c \<in> set name. scalar_value c" "length (spell name) < 2 ^ 64"
    and "name \<noteq> [] \<or> rest = [] \<or> \<not> is_ascii_digit (hd rest)"
  shows "unmangle (mangle name @ rest) = Some (name, rest)"
proof -
  have "spell name = [] \<longleftrightarrow> name = []" by (cases name) (simp_all add: spell_def)
  with assms(3) have digits:
    "takeWhile is_ascii_digit (mangle name @ rest) = decimal (length (spell name))"
    by (intro takeWhile_mangle) auto
  have symbol: "mangle name @ rest = decimal (length (spell name)) @ spell name @ rest"
    by (simp add: mangle_def Let_def)
  have "unspell (spell name) = Some name"
    using unspell_spell_from [OF assms(1)] by (simp add: spell_def)
  then show ?thesis
    using assms(2) unfolding unmangle_def digits Let_def unfolding symbol
    by (simp add: parse_decimal_decimal take_bytes_spell)
qed

theorem unmangle_mangle_witness:
  "unmangle (mangle [0xE9, 49] @ lit ''_Type'') = Some ([0xE9, 49], lit ''_Type'')"
proof -
  have "length (spell [0xE9, 49 :: nat]) = 5" by code_simp
  then show ?thesis
    by (intro unmangle_mangle) (simp_all add: scalar_value_def)
qed

end
