(* ===== verification/BIR_RType.thy ===== *)
theory BIR_RType
  imports BIR_Mangle
begin

text \<open>
  \<^verbatim>\<open>by_ir/src/rtype.rs\<close>: the runtime representations, which of them own references, the value
  an empty place of each holds, where an error can be read back off a value, and the name of the
  C struct a fixed-length tuple is emitted as.
\<close>

section \<open>Representations\<close>

datatype int_width = I8 | I16 | I32 | I64 | U8 | U16 | U32 | U64

datatype primitive =
    PObject | PInt | PFixed int_width | PFloat | PBool | PBit | PNone
  | PStr | PBytes | PList | PDict | PTuple

datatype rtype =
    Primitive primitive
  | Tuple "rtype list"
  | Array rtype
  | Instance ustr bool  \<comment> \<open>class, exact\<close>

fun is_instance :: "rtype \<Rightarrow> bool" where
  "is_instance (Instance _ _) = True"
| "is_instance _ = False"

fun ctype :: "int_width \<Rightarrow> string" where
  "ctype I8 = ''int8_t''"
| "ctype I16 = ''int16_t''"
| "ctype I32 = ''int32_t''"
| "ctype I64 = ''int64_t''"
| "ctype U8 = ''uint8_t''"
| "ctype U16 = ''uint16_t''"
| "ctype U32 = ''uint32_t''"
| "ctype U64 = ''uint64_t''"

fun is_signed :: "int_width \<Rightarrow> bool" where
  "is_signed I8 = True"
| "is_signed I16 = True"
| "is_signed I32 = True"
| "is_signed I64 = True"
| "is_signed _ = False"

fun width_range :: "int_width \<Rightarrow> int \<times> int" where
  "width_range I8 = (-128, 127)"
| "width_range I16 = (-32768, 32767)"
| "width_range I32 = (-2147483648, 2147483647)"
| "width_range I64 = (- (2 ^ 63), 2 ^ 63 - 1)"
| "width_range U8 = (0, 255)"
| "width_range U16 = (0, 65535)"
| "width_range U32 = (0, 4294967295)"
| "width_range U64 = (0, 2 ^ 64 - 1)"

definition fitting :: "int \<Rightarrow> int \<Rightarrow> int_width option" where
  "fitting lo hi =
     List.find (\<lambda>width. case width_range width of (least, greatest) \<Rightarrow> least \<le> lo \<and> hi \<le> greatest)
       [U8, I8, U16, I16, U32, I32, U64, I64]"

fun width_display :: "int_width \<Rightarrow> string" where
  "width_display I8 = ''i8''"
| "width_display I16 = ''i16''"
| "width_display I32 = ''i32''"
| "width_display I64 = ''i64''"
| "width_display U8 = ''u8''"
| "width_display U16 = ''u16''"
| "width_display U32 = ''u32''"
| "width_display U64 = ''u64''"

text \<open>The associated constants \<open>RType::OBJECT\<close>, \<open>RType::INT\<close> and so on, and \<open>RType::fixed\<close>.\<close>

abbreviation TObject :: rtype where "TObject \<equiv> Primitive PObject"
abbreviation TInt :: rtype where "TInt \<equiv> Primitive PInt"
abbreviation TFloat :: rtype where "TFloat \<equiv> Primitive PFloat"
abbreviation TBool :: rtype where "TBool \<equiv> Primitive PBool"
abbreviation TBit :: rtype where "TBit \<equiv> Primitive PBit"
abbreviation TNone :: rtype where "TNone \<equiv> Primitive PNone"
abbreviation TStr :: rtype where "TStr \<equiv> Primitive PStr"
abbreviation TList :: rtype where "TList \<equiv> Primitive PList"
abbreviation TFixed :: "int_width \<Rightarrow> rtype" where "TFixed w \<equiv> Primitive (PFixed w)"

fun instance_classes :: "rtype \<Rightarrow> ustr list" where
  "instance_classes (Instance cls _) = [cls]"
| "instance_classes (Tuple items) = concat (map instance_classes items)"
| "instance_classes (Array element) = instance_classes element"
| "instance_classes (Primitive _) = []"

section \<open>Ownership of a representation\<close>

fun is_unboxed :: "rtype \<Rightarrow> bool" where
  "is_unboxed (Primitive p) = (p \<notin> {PObject, PStr, PBytes, PList, PDict, PTuple})"
| "is_unboxed (Tuple _) = True"
| "is_unboxed (Array _) = True"
| "is_unboxed (Instance _ _) = False"

fun is_refcounted :: "rtype \<Rightarrow> bool" where
  "is_refcounted (Primitive p) =
     (case p of PFixed _ \<Rightarrow> False | PFloat \<Rightarrow> False | PBool \<Rightarrow> False | PBit \<Rightarrow> False
      | PNone \<Rightarrow> False | _ \<Rightarrow> True)"
| "is_refcounted (Tuple items) = list_ex is_refcounted items"
| "is_refcounted (Array _) = True"
| "is_refcounted (Instance _ _) = True"

fun error_overlaps :: "rtype \<Rightarrow> bool" where
  "error_overlaps (Primitive p) =
     (case p of PFixed _ \<Rightarrow> True | PFloat \<Rightarrow> True | PBool \<Rightarrow> True | _ \<Rightarrow> False)"
| "error_overlaps _ = False"

fun is_object_reference :: "rtype \<Rightarrow> bool" where
  "is_object_reference (Primitive p) = (p \<in> {PObject, PStr, PBytes, PList, PDict, PTuple})"
| "is_object_reference (Instance _ _) = True"
| "is_object_reference _ = False"

definition owns_one_reference :: "rtype \<Rightarrow> bool" where
  "owns_one_reference ty \<longleftrightarrow> is_object_reference ty \<or> ty = TInt"

fun holds_object_reference :: "rtype \<Rightarrow> bool" where
  "holds_object_reference (Tuple items) = list_ex holds_object_reference items"
| "holds_object_reference (Array element) = holds_object_reference element"
| "holds_object_reference ty = owns_one_reference ty"

fun element :: "rtype \<Rightarrow> nat list \<Rightarrow> rtype option" where
  "element ty [] = Some ty"
| "element (Tuple items) (index # rest) =
     (case get items index of None \<Rightarrow> None | Some item \<Rightarrow> element item rest)"
| "element _ (_ # _) = None"

lemma owns_one_reference_refcounted: "owns_one_reference ty \<Longrightarrow> is_refcounted ty"
  by (cases ty rule: is_refcounted.cases) (auto simp: owns_one_reference_def)

lemma holds_object_reference_refcounted: "holds_object_reference ty \<Longrightarrow> is_refcounted ty"
  by (induction ty rule: holds_object_reference.induct)
    (auto simp: list_ex_iff dest: owns_one_reference_refcounted)

lemma object_reference_boxed: "is_object_reference ty \<longleftrightarrow> \<not> is_unboxed ty"
  by (cases ty rule: is_object_reference.cases) auto

lemma element_append:
  "element ty (p @ q) = (case element ty p of None \<Rightarrow> None | Some sub \<Rightarrow> element sub q)"
  by (induction ty p rule: element.induct) (auto split: option.splits)

lemma element_owned_refcounted:
  "element ty path = Some sub \<Longrightarrow> is_refcounted sub \<Longrightarrow> is_refcounted ty"
  by (induction ty path rule: element.induct)
    (auto simp: list_ex_iff split: option.splits dest!: get_SomeD)

section \<open>Choosing a width\<close>

lemma find_SomeD: "List.find P xs = Some x \<Longrightarrow> P x"
  by (induction xs) (auto split: if_splits)

text \<open>The width the table lookup picks holds the range; none is picked where none holds it.\<close>

lemma fitting_sound:
  "(case fitting lo hi of
      Some w \<Rightarrow> fst (width_range w) \<le> lo \<and> hi \<le> snd (width_range w)
    | None \<Rightarrow> \<forall>w. \<not> (fst (width_range w) \<le> lo \<and> hi \<le> snd (width_range w)))"
proof (cases "fitting lo hi")
  case None
  have "w \<in> set [U8, I8, U16, I16, U32, I32, U64, I64]" for w by (cases w) simp_all
  with None show ?thesis
    unfolding fitting_def find_None_iff by (auto split: prod.splits)
next
  case (Some w)
  with find_SomeD [OF Some [unfolded fitting_def]] show ?thesis by (simp add: case_prod_beta)
qed

section \<open>The empty value and the error sentinel\<close>

definition join_with :: "ustr \<Rightarrow> ustr list \<Rightarrow> ustr" where
  "join_with sep parts = (case parts of [] \<Rightarrow> [] | p # ps \<Rightarrow> p @ concat (map (\<lambda>q. sep @ q) ps))"

fun undefined_value :: "rtype \<Rightarrow> ustr" where
  "undefined_value (Array _) = lit ''NULL''"
| "undefined_value (Primitive p) =
     (case p of PInt \<Rightarrow> lit ''BY_INT_ERROR'' | PFixed _ \<Rightarrow> lit ''-113''
      | PFloat \<Rightarrow> lit ''BY_FLOAT_ERROR'' | PBool \<Rightarrow> lit ''2'' | PBit \<Rightarrow> lit ''2''
      | PNone \<Rightarrow> lit ''2'' | _ \<Rightarrow> lit ''NULL'')"
| "undefined_value (Tuple items) =
     (if items = [] then lit ''{0}''
      else lit ''{ '' @ join_with (lit '', '') (map undefined_value items) @ lit '' }'')"
| "undefined_value (Instance _ _) = lit ''NULL''"

fun find_map_index :: "nat \<Rightarrow> ('a \<Rightarrow> 'b option) \<Rightarrow> 'a list \<Rightarrow> (nat \<times> 'b) option" where
  "find_map_index n f [] = None"
| "find_map_index n f (x # xs) =
     (case f x of Some y \<Rightarrow> Some (n, y) | None \<Rightarrow> find_map_index (Suc n) f xs)"

lemma find_map_index_cong [fundef_cong]:
  "n = m \<Longrightarrow> xs = ys \<Longrightarrow> (\<And>x. x \<in> set ys \<Longrightarrow> f x = g x) \<Longrightarrow>
     find_map_index n f xs = find_map_index m g ys"
  by (induction ys arbitrary: n m xs) (auto split: option.splits)

fun error_sentinel :: "rtype \<Rightarrow> (ustr \<times> ustr) option" where
  "error_sentinel (Tuple items) =
     map_option (\<lambda>(index, path, pattern). (lit ''.f'' @ decimal index @ path, pattern))
       (find_map_index 0 error_sentinel items)"
| "error_sentinel ty =
     (if error_overlaps ty then None else Some ([], undefined_value ty))"

text \<open>The C member access that follows a path of tuple elements.\<close>

definition member_path :: "nat list \<Rightarrow> ustr" where
  "member_path path = concat (map (\<lambda>index. lit ''.f'' @ decimal index) path)"

lemma find_map_index_Some:
  "find_map_index n f xs = Some (i, y) \<Longrightarrow>
     n \<le> i \<and> i < n + length xs \<and> f (xs ! (i - n)) = Some y \<and> (\<forall>j < i - n. f (xs ! j) = None)"
proof (induction xs arbitrary: n)
  case (Cons x xs)
  show ?case
  proof (cases "f x")
    case None
    with Cons.prems have "find_map_index (Suc n) f xs = Some (i, y)" by simp
    note IH = Cons.IH [OF this]
    then have "i - n = Suc (i - Suc n)" by linarith
    with IH None show ?thesis by (auto simp: less_Suc_eq_0_disj)
  qed (use Cons.prems in auto)
qed simp

lemma find_map_index_None: "find_map_index n f xs = None \<longleftrightarrow> (\<forall>x \<in> set xs. f x = None)"
  by (induction xs arbitrary: n) (auto split: option.splits)

text \<open>An element that is not itself a struct, and has a bit pattern no valid value shares.\<close>

definition reserves :: "rtype \<Rightarrow> nat list \<Rightarrow> rtype \<Rightarrow> bool" where
  "reserves ty path sub \<longleftrightarrow>
     element ty path = Some sub \<and> (\<forall>items. sub \<noteq> Tuple items) \<and> \<not> error_overlaps sub"

lemma element_scalar: "(\<forall>items. ty \<noteq> Tuple items) \<Longrightarrow> element ty path = Some sub \<longleftrightarrow> path = [] \<and> ty = sub"
  by (cases ty; cases path) auto

lemma reserves_Tuple:
  "reserves (Tuple items) path sub \<longleftrightarrow>
     (\<exists>index rest. path = index # rest \<and> index < length items \<and> reserves (items ! index) rest sub)"
  by (cases path) (auto simp: reserves_def get_def)

lemma reserves_scalar:
  "(\<forall>items. ty \<noteq> Tuple items) \<Longrightarrow> reserves ty path sub \<longleftrightarrow> path = [] \<and> ty = sub \<and> \<not> error_overlaps ty"
  by (auto simp: reserves_def element_scalar)

lemma error_sentinel_element:
  "error_sentinel ty = Some (p, pattern) \<Longrightarrow>
     \<exists>path sub. p = member_path path \<and> reserves ty path sub \<and> pattern = undefined_value sub"
proof (induction ty arbitrary: p rule: error_sentinel.induct)
  case (1 items)
  then obtain index q where found: "find_map_index 0 error_sentinel items = Some (index, q, pattern)"
    and p: "p = lit ''.f'' @ decimal index @ q" by auto
  from find_map_index_Some [OF found] have index: "index < length items"
    and item: "error_sentinel (items ! index) = Some (q, pattern)" by auto
  from 1(1) [OF nth_mem [OF index] item] obtain path sub where
    "q = member_path path" "reserves (items ! index) path sub" "pattern = undefined_value sub" by blast
  with p index show ?case
    by (intro exI [of _ "index # path"] exI [of _ sub])
      (simp add: member_path_def reserves_Tuple)
qed (auto simp: member_path_def reserves_scalar intro!: exI [of _ "[]"] split: if_splits)

lemma error_sentinel_None: "error_sentinel ty = None \<longleftrightarrow> (\<nexists>path sub. reserves ty path sub)"
proof (induction ty rule: error_sentinel.induct)
  case (1 items)
  then have "error_sentinel (Tuple items) = None \<longleftrightarrow>
      (\<forall>item \<in> set items. \<nexists>path sub. reserves item path sub)"
    by (simp add: find_map_index_None)
  then show ?case by (auto simp: reserves_Tuple all_set_conv_all_nth)
qed (auto simp: reserves_scalar)

section \<open>The name of a tuple's struct\<close>

fun mangle_component :: "rtype \<Rightarrow> ustr" where
  "mangle_component (Array elem) = lit ''arr'' @ mangle_component elem"
| "mangle_component (Primitive p) =
     (case p of PObject \<Rightarrow> lit ''obj'' | PInt \<Rightarrow> lit ''int'' | PFixed w \<Rightarrow> lit (width_display w)
      | PFloat \<Rightarrow> lit ''float'' | PBool \<Rightarrow> lit ''bool'' | PBit \<Rightarrow> lit ''bit'' | PNone \<Rightarrow> lit ''none''
      | PStr \<Rightarrow> lit ''str'' | PBytes \<Rightarrow> lit ''bytes'' | PList \<Rightarrow> lit ''list'' | PDict \<Rightarrow> lit ''dict''
      | PTuple \<Rightarrow> lit ''tuple'')"
| "mangle_component (Tuple items) =
     lit ''t'' @ concat (map (\<lambda>item. lit ''_'' @ mangle_component item) items)"
| "mangle_component (Instance cls _) = lit ''i'' @ mangle cls"

definition tuple_mangle :: "rtype list \<Rightarrow> ustr" where
  "tuple_mangle items = concat (map (\<lambda>item. lit ''_'' @ mangle_component item) items)"

fun rtype_display :: "rtype \<Rightarrow> ustr" where
  "rtype_display (Array elem) = lit ''['' @ rtype_display elem @ lit '']''"
| "rtype_display (Primitive p) =
     (case p of PObject \<Rightarrow> lit ''object'' | PInt \<Rightarrow> lit ''int'' | PFixed w \<Rightarrow> lit (width_display w)
      | PFloat \<Rightarrow> lit ''float'' | PBool \<Rightarrow> lit ''bool'' | PBit \<Rightarrow> lit ''bit'' | PNone \<Rightarrow> lit ''None''
      | PStr \<Rightarrow> lit ''str'' | PBytes \<Rightarrow> lit ''bytes'' | PList \<Rightarrow> lit ''list'' | PDict \<Rightarrow> lit ''dict''
      | PTuple \<Rightarrow> lit ''tuple'')"
| "rtype_display (Instance cls exact) = (if exact then lit ''final '' else []) @ cls"
| "rtype_display (Tuple items) =
     lit ''('' @ join_with (lit '', '') (map rtype_display items) @ lit '')''"

text \<open>
  The layouts on which struct names are told apart: slots that are primitives or unboxed arrays
  of them. A nested tuple has no closing mark in the name, and a class name of the right length
  can spell the slots that follow a fixed-width integer.
\<close>

fun scalar_slot :: "rtype \<Rightarrow> bool" where
  "scalar_slot (Primitive _) = True"
| "scalar_slot (Array elem) = scalar_slot elem"
| "scalar_slot (Tuple _) = False"
| "scalar_slot (Instance _ _) = False"

lemma scalar_component_no_underscore:
  "scalar_slot ty \<Longrightarrow> underscore \<notin> set (mangle_component ty)"
proof (induction ty rule: mangle_component.induct)
  case (2 p)
  then show ?case
  proof (cases p)
    case (PFixed w)
    then show ?thesis by (cases w) (simp_all add: underscore_def)
  qed (simp_all add: underscore_def)
qed (simp_all add: underscore_def)

lemma width_display_inj: "lit (width_display v) = lit (width_display w) \<Longrightarrow> v = w"
  by (cases v; cases w) simp_all

lemma width_display_not_named:
  "lit (width_display w) \<notin> {lit ''obj'', lit ''int'', lit ''float'', lit ''bool'', lit ''bit'',
     lit ''none'', lit ''str'', lit ''bytes'', lit ''list'', lit ''dict'', lit ''tuple''}"
  by (cases w) simp_all

lemma primitive_component_inj:
  "mangle_component (Primitive p) = mangle_component (Primitive q) \<Longrightarrow> p = q"
  using width_display_not_named width_display_inj
  by (cases p; cases q) (simp_all, (metis insertI1 insertI2)+)

lemma primitive_component_not_array:
  "mangle_component (Primitive p) \<noteq> lit ''arr'' @ x"
proof (cases p)
  case (PFixed w)
  then show ?thesis by (cases w) simp_all
qed simp_all

lemma scalar_component_inj:
  "scalar_slot a \<Longrightarrow> scalar_slot b \<Longrightarrow> mangle_component a = mangle_component b \<Longrightarrow> a = b"
proof (induction a arbitrary: b rule: scalar_slot.induct)
  case (1 p)
  with primitive_component_not_array [of p] show ?case
    by (cases b) (auto dest: primitive_component_inj simp del: lit_Cons mangle_component.simps(2))
next
  case (2 elem)
  with primitive_component_not_array show ?case
    by (cases b) (auto simp del: lit_Cons mangle_component.simps(2) dest: sym)
qed simp_all

lemma takeWhile_component:
  assumes "scalar_slot item"
  shows "takeWhile (\<lambda>c. c \<noteq> underscore) (mangle_component item @ tuple_mangle items)
    = mangle_component item"
proof -
  have "\<forall>c \<in> set (mangle_component item). c \<noteq> underscore"
    using scalar_component_no_underscore [OF assms] by metis
  then show ?thesis
    by (cases items) (simp_all add: tuple_mangle_def takeWhile_append underscore_def)
qed

section \<open>Properties\<close>

text \<open>
  Where the emitter reads an error back off a value, it reads a member that is really there:
  the sentinel's path is the C access of a scalar element of the type, that element reserves a bit
  pattern of its own, and the pattern is the element's empty value. There is no sentinel exactly
  when no scalar element at any depth has such a pattern.
\<close>

theorem error_sentinel_sound:
  "(\<forall>p pattern. error_sentinel ty = Some (p, pattern) \<longrightarrow>
      (\<exists>path sub. p = member_path path \<and> reserves ty path sub \<and> pattern = undefined_value sub))
   \<and> (error_sentinel ty = None \<longleftrightarrow> (\<nexists>path sub. reserves ty path sub))"
  using error_sentinel_element error_sentinel_None by blast

theorem error_sentinel_sound_witness:
  "\<exists>path sub. lit ''.f1'' = member_path path \<and> reserves (Tuple [TFloat, TStr]) path sub
     \<and> lit ''NULL'' = undefined_value sub"
  using error_sentinel_sound [of "Tuple [TFloat, TStr]"]
  by (simp add: decimal_def radix_digits.simps digit_char_def)

text \<open>
  Two tuples of primitive slots, or of unboxed arrays of them, are emitted as one C struct
  only if they are the same layout.
\<close>

theorem tuple_mangle_scalar_inj:
  assumes "list_all scalar_slot items" "list_all scalar_slot items'"
    and "tuple_mangle items = tuple_mangle items'"
  shows "items = items'"
  using assms
proof (induction items arbitrary: items')
  case Nil
  then show ?case by (cases items') (simp_all add: tuple_mangle_def)
next
  case (Cons item rest)
  from Cons.prems obtain item' rest' where items': "items' = item' # rest'"
    by (cases items') (simp_all add: tuple_mangle_def)
  with Cons.prems have slots: "scalar_slot item" "scalar_slot item'"
    and same: "mangle_component item @ tuple_mangle rest
      = mangle_component item' @ tuple_mangle rest'"
    by (simp_all add: tuple_mangle_def)
  from arg_cong [OF same, of "takeWhile (\<lambda>c. c \<noteq> underscore)"]
  have "mangle_component item = mangle_component item'"
    by (simp add: takeWhile_component slots)
  with same slots Cons items' show ?case by (auto dest: scalar_component_inj)
qed

theorem tuple_mangle_scalar_inj_witness:
  "tuple_mangle [TInt, Array TFloat] \<noteq> tuple_mangle [TInt, Array (TFixed I64)]"
proof
  assume same: "tuple_mangle [TInt, Array TFloat] = tuple_mangle [TInt, Array (TFixed I64)]"
  have "[TInt, Array TFloat] = [TInt, Array (TFixed I64)]"
    by (rule tuple_mangle_scalar_inj [OF _ _ same]) simp_all
  then show False by simp
qed

text \<open>
  Outside those layouts the struct's name does not determine the layout: a pair whose first
  slot is itself a one-element tuple and a single slot holding a pair are emitted under one name,
  and so are an instance of a class called \<open>_int_obj\<close> and the triple of an 8-bit integer, an
  \<open>int\<close> and an \<open>object\<close>. Neither pair has the same slots.
\<close>

theorem tuple_mangle_collides:
  "tuple_mangle [Tuple [TInt], TInt] = tuple_mangle [Tuple [TInt, TInt]]
   \<and> tuple_mangle [Instance (lit ''_int_obj'') False] = tuple_mangle [TFixed I8, TInt, TObject]"
proof
  show "tuple_mangle [Tuple [TInt], TInt] = tuple_mangle [Tuple [TInt, TInt]]"
    by (simp add: tuple_mangle_def)
  show "tuple_mangle [Instance (lit ''_int_obj'') False] = tuple_mangle [TFixed I8, TInt, TObject]"
    by code_simp
qed

end
