(* ===== verification/BIR_Ops.thy ===== *)
theory BIR_Ops
  imports BIR_RType
begin

text \<open>
  \<^verbatim>\<open>by_ir/src/ops.rs\<close>: the operations of the intermediate representation and how a block ends.

  Every variant of the source's enum \<open>Op\<close> is a constructor of the same name here, with the
  variant's fields in the source's order (the comment beside each constructor names them). The
  hundred and twenty-one variants are split over eleven datatypes by what they work on, and \<open>op\<close>
  is their sum: one flat datatype of that many constructors is out of the datatype package's
  reach. Registers are the type parameter \<open>'r\<close>, so that the package's own \<open>set_op\<close> and \<open>map_op\<close>
  are \<open>every register an operation mentions\<close> and \<open>rename every register\<close>: they are derived
  from the declaration and cannot forget a field, which is the yardstick the source's hand-written
  accessors are held against.

  A \<open>BTreeSet<usize>\<close> is the ascending list its iterator yields. A float immediate is its bit
  pattern.
\<close>

section \<open>Operands\<close>

datatype 'r val =
    Register 'r
  | VInt i64
  | VFixed i64
  | VFloat "64 word"
  | VBool bool
  | VBit bool
  | VNone
  | VStr ustr
  | VBytes "8 word list"

fun immediate_type :: "'r val \<Rightarrow> rtype option" where
  "immediate_type (Register _) = None"
| "immediate_type (VInt _) = Some TInt"
| "immediate_type (VFixed _) = Some (TFixed I64)"
| "immediate_type (VFloat _) = Some TFloat"
| "immediate_type (VBool _) = Some TBool"
| "immediate_type (VBit _) = Some TBit"
| "immediate_type VNone = Some TNone"
| "immediate_type (VStr _) = Some TStr"
| "immediate_type (VBytes _) = Some TObject"

fun stands_as_itself_in :: "'r val \<Rightarrow> rtype \<Rightarrow> bool" where
  "stands_as_itself_in (Register _) ty = False"
| "stands_as_itself_in (VBool b) ty =
     (ty = TInt \<or> ty = TObject \<or> immediate_type (VBool b :: 'r val) = Some ty)"
| "stands_as_itself_in (VBit b) ty =
     (ty = TInt \<or> ty = TObject \<or> immediate_type (VBit b :: 'r val) = Some ty)"
| "stands_as_itself_in v ty = (ty = TObject \<or> immediate_type v = Some ty)"

text \<open>The register an operand names, if it names one: \<open>liveness::register\<close>.\<close>

fun register :: "'r val \<Rightarrow> 'r option" where
  "register (Register r) = Some r"
| "register _ = None"

lemma set_val_register: "set_val v = set_option (register v)"
  by (cases v) auto

lemma register_map_val [simp]: "register (map_val f v) = map_option f (register v)"
  by (cases v) auto

lemma register_eq_Some_iff: "register v = Some r \<longleftrightarrow> v = Register r"
  by (cases v) auto

lemma immediate_type_map_val [simp]: "immediate_type (map_val f v) = immediate_type v"
  by (cases v) auto

section \<open>Enumerations an operation carries\<close>

datatype mutation = Fresh | InPlace

datatype concatenation = Join | Operator mutation

datatype bin_op =
  Add | Sub | Mul | FloorDiv | Mod | TrueDiv | Pow | BitAnd | BitOr | BitXor | Shl | Shr

datatype cmp_op = CmpEq | CmpNe | CmpLt | CmpLe | CmpGt | CmpGe

datatype conversion = ConvNone | ConvStr | ConvRepr | ConvAscii

datatype unary_op = UnaryNeg | UnaryNot | UnaryInvert | UnaryPos | UnaryIndex

datatype licence_kind = LicenceMethod | LicenceAccessor | LicenceField

datatype standard_error =
    TypeError | ValueError | ZeroDivisionError | AssertionError | RuntimeError | IndexError
  | KeyError | NotImplementedError | StopIteration | OverflowError | AttributeError

fun bin_symbol :: "bin_op \<Rightarrow> string" where
  "bin_symbol Add = ''+''"
| "bin_symbol Sub = ''-''"
| "bin_symbol Mul = ''*''"
| "bin_symbol FloorDiv = ''//''"
| "bin_symbol Mod = ''%''"
| "bin_symbol TrueDiv = ''/''"
| "bin_symbol Pow = ''**''"
| "bin_symbol BitAnd = ''&''"
| "bin_symbol BitOr = ''|''"
| "bin_symbol BitXor = ''^''"
| "bin_symbol Shl = ''<<''"
| "bin_symbol Shr = ''>>''"

definition bin_can_fail :: "bin_op \<Rightarrow> bool" where
  "bin_can_fail b \<longleftrightarrow> b \<in> {FloorDiv, Mod, TrueDiv, Pow, Shl, Shr}"

fun cmp_symbol :: "cmp_op \<Rightarrow> string" where
  "cmp_symbol CmpEq = ''==''"
| "cmp_symbol CmpNe = ''!=''"
| "cmp_symbol CmpLt = ''<''"
| "cmp_symbol CmpLe = ''<=''"
| "cmp_symbol CmpGt = ''>''"
| "cmp_symbol CmpGe = ''>=''"

fun conversion_c_name :: "conversion \<Rightarrow> string" where
  "conversion_c_name ConvNone = ''BY_CONV_NONE''"
| "conversion_c_name ConvStr = ''BY_CONV_STR''"
| "conversion_c_name ConvRepr = ''BY_CONV_REPR''"
| "conversion_c_name ConvAscii = ''BY_CONV_ASCII''"

fun error_c_name :: "standard_error \<Rightarrow> string" where
  "error_c_name TypeError = ''PyExc_TypeError''"
| "error_c_name ValueError = ''PyExc_ValueError''"
| "error_c_name ZeroDivisionError = ''PyExc_ZeroDivisionError''"
| "error_c_name AssertionError = ''PyExc_AssertionError''"
| "error_c_name RuntimeError = ''PyExc_RuntimeError''"
| "error_c_name IndexError = ''PyExc_IndexError''"
| "error_c_name KeyError = ''PyExc_KeyError''"
| "error_c_name NotImplementedError = ''PyExc_NotImplementedError''"
| "error_c_name StopIteration = ''PyExc_StopIteration''"
| "error_c_name OverflowError = ''PyExc_OverflowError''"
| "error_c_name AttributeError = ''PyExc_AttributeError''"

definition error_from_name :: "string \<Rightarrow> standard_error option" where
  "error_from_name name = map_of
     [(''TypeError'', TypeError),
      (''ValueError'', ValueError),
      (''ZeroDivisionError'', ZeroDivisionError),
      (''AssertionError'', AssertionError),
      (''RuntimeError'', RuntimeError),
      (''IndexError'', IndexError),
      (''KeyError'', KeyError),
      (''NotImplementedError'', NotImplementedError),
      (''StopIteration'', StopIteration),
      (''OverflowError'', OverflowError),
      (''AttributeError'', AttributeError)] name"

text \<open>A standard error is found again under the name a user writes, and under no other.\<close>

lemma error_from_name_c_name: "error_from_name s = Some e \<longleftrightarrow> error_c_name e = ''PyExc_'' @ s"
  by (cases e) (auto simp: error_from_name_def)

record position =
  offset :: u32
  generator_expression :: bool

datatype 'r sound_target = SoundClass "'r val" | SoundNoneType | SoundAnyOf "'r sound_target list"

section \<open>Operations\<close>

text \<open>Arithmetic, comparison and representation changes of scalars.\<close>

datatype (plugins only: code size) 'r scalar_op =
    Assign "'r" "'r val"
      \<comment> \<open>dest, src\<close>
  | IntBinary "'r" bin_op "'r val" "'r val" mutation
      \<comment> \<open>dest, op, lhs, rhs, mutation\<close>
  | FloatBinary "'r" bin_op "'r val" "'r val"
      \<comment> \<open>dest, op, lhs, rhs\<close>
  | IntCompare "'r" cmp_op "'r val" "'r val"
      \<comment> \<open>dest, op, lhs, rhs\<close>
  | ObjectBinary "'r" bin_op "'r val" "'r val" mutation
      \<comment> \<open>dest, op, lhs, rhs, mutation\<close>
  | ObjectCompare "'r" cmp_op "'r val" "'r val"
      \<comment> \<open>dest, op, lhs, rhs\<close>
  | ObjectRichCompare "'r" cmp_op "'r val" "'r val"
      \<comment> \<open>dest, op, lhs, rhs\<close>
  | StrCompare "'r" cmp_op "'r val" "'r val"
      \<comment> \<open>dest, op, lhs, rhs\<close>
  | Truthy "'r" "'r val"
      \<comment> \<open>dest, src\<close>
  | FloatCompare "'r" cmp_op "'r val" "'r val"
      \<comment> \<open>dest, op, lhs, rhs\<close>
  | Unary "'r" unary_op "'r val"
      \<comment> \<open>dest, op, operand\<close>
  | FloatObjectBinary "'r" bin_op "'r val" "'r val"
      \<comment> \<open>dest, op, lhs, rhs\<close>
  | FloatObjectCompare "'r" cmp_op "'r val" "'r val"
      \<comment> \<open>dest, op, lhs, rhs\<close>
  | Identity "'r" "'r val" "'r val" bool
      \<comment> \<open>dest, lhs, rhs, negated\<close>
  | IntToFloat "'r" "'r val"
      \<comment> \<open>dest, src\<close>
  | TagShort "'r" "'r val"
      \<comment> \<open>dest, src\<close>

text \<open>Boxing, narrowing, moving and emptying a register.\<close>

datatype (plugins only: code size) 'r place_op =
    Box "'r" "'r val"
      \<comment> \<open>dest, src\<close>
  | Unbox "'r" "'r val" rtype bool
      \<comment> \<open>dest, src, to, proved\<close>
  | Release "'r val" "nat list"
      \<comment> \<open>value, path\<close>
  | Move "'r" "'r val" "nat list"
      \<comment> \<open>dest, src, path\<close>
  | DeleteLocal "'r"
      \<comment> \<open>dest\<close>
  | IsNull "'r" "'r val"
      \<comment> \<open>dest, src\<close>
  | Line position
      \<comment> \<open>position\<close>

text \<open>The tests and reads of a match statement, and the soundness check.\<close>

datatype (plugins only: code size) 'r pattern_op =
    IsInstance "'r" "'r val" "'r val"
      \<comment> \<open>dest, src, class\<close>
  | CheckSound "'r val" "'r sound_target"
      \<comment> \<open>src, target\<close>
  | MatchAttr "'r" "'r val" "ustr option" "'r val option" i64 i64
      \<comment> \<open>dest, subject, name, class, index, count\<close>
  | IsMissing "'r" "'r val"
      \<comment> \<open>dest, src\<close>
  | MatchSlice "'r" "'r val" i64 i64 bool
      \<comment> \<open>dest, sequence, start, after, rest\<close>
  | MatchKey "'r" "'r val" "'r val"
      \<comment> \<open>dest, map, key\<close>
  | MatchRest "'r" "'r val" "'r val"
      \<comment> \<open>dest, map, keys\<close>
  | IsMapping "'r" "'r val"
      \<comment> \<open>dest, src\<close>
  | HoldsLayout "'r" "'r val" ustr
      \<comment> \<open>dest, src, class\<close>
  | IsSequence "'r" "'r val"
      \<comment> \<open>dest, src\<close>
  | Contains "'r" "'r val" "'r val" bool
      \<comment> \<open>dest, value, container, negated\<close>

text \<open>Whether a compiled body still stands for what the program would reach.\<close>

datatype (plugins only: code size) 'r licence_op =
    MethodStands "'r" "'r val" ustr ustr
      \<comment> \<open>dest, src, class, method\<close>
  | BuiltinStands "'r" ustr
      \<comment> \<open>dest, name\<close>
  | LoopGuardsHold "'r" "ustr list" "ustr list" "'r val list"
      \<comment> \<open>dest, builtins, functions, exact\<close>
  | ResolveFunction "'r" ustr
      \<comment> \<open>dest, name\<close>
  | FunctionStood "'r" ustr
      \<comment> \<open>dest, name\<close>
  | FunctionStands "'r" "'r val" ustr
      \<comment> \<open>dest, src, name\<close>
  | FunctionCallee "'r" "'r val" ustr
      \<comment> \<open>dest, src, name\<close>
  | AccessorStands "'r" "'r val" ustr ustr
      \<comment> \<open>dest, src, class, name\<close>
  | FieldStands "'r" "'r val" ustr ustr
      \<comment> \<open>dest, src, class, field\<close>
  | LicenceHolds "'r val" ustr ustr licence_kind
      \<comment> \<open>src, class, member, kind\<close>
  | DictShadows "'r" "'r val" ustr ustr
      \<comment> \<open>dest, src, class, method\<close>

text \<open>Calls, and the allocation of an environment and of a closure over it.\<close>

datatype (plugins only: code size) 'r call_op =
    CallNative "'r option" "ustr option" ustr "'r val list"
      \<comment> \<open>dest, owner, callee, args\<close>
  | CallUnpacked "'r" "'r val" "'r val" "'r val option"
      \<comment> \<open>dest, callee, args, kwargs\<close>
  | MergeKeywords "'r" "'r val" "'r val" "'r val"
      \<comment> \<open>dest, container, source, callee\<close>
  | CallPython "'r" ustr "'r val list"
      \<comment> \<open>dest, callee, args\<close>
  | CallValue "'r" "'r val" "'r val list"
      \<comment> \<open>dest, callee, args\<close>
  | CallThrough "'r" "'r val" "'r val list" "ustr list"
      \<comment> \<open>dest, callee, args, keywords\<close>
  | CallMethod "'r" "'r val" ustr "'r val list"
      \<comment> \<open>dest, receiver, name, args\<close>
  | NewInstance "'r" ustr "'r val option list"
      \<comment> \<open>dest, class, fields\<close>
  | MakeClosure "'r" ustr ustr "'r val"
      \<comment> \<open>dest, class, method, env\<close>

text \<open>Fields, cells and attributes.\<close>

datatype (plugins only: code size) 'r attribute_op =
    GetCell "'r" "'r val" ustr ustr bool
      \<comment> \<open>dest, receiver, class, field, free\<close>
  | GetField "'r" "'r val" ustr ustr
      \<comment> \<open>dest, receiver, class, field\<close>
  | RequireField "'r val" ustr ustr
      \<comment> \<open>receiver, class, field\<close>
  | FieldIsSet "'r" "'r val" ustr ustr
      \<comment> \<open>dest, receiver, class, field\<close>
  | SetField "'r val" ustr ustr "'r val" bool bool
      \<comment> \<open>receiver, class, field, value, moves, present\<close>
  | GetAttr "'r" "'r val" ustr
      \<comment> \<open>dest, receiver, name\<close>
  | SetAttr "'r" "'r val" ustr "'r val"
      \<comment> \<open>dest, receiver, name, value\<close>
  | ReadAttribute "'r" "'r val" ustr
      \<comment> \<open>dest, receiver, name\<close>
  | WriteAttribute "'r" "'r val" ustr "'r val"
      \<comment> \<open>dest, receiver, name, value\<close>
  | DeleteAttr "'r" "'r val" ustr
      \<comment> \<open>dest, receiver, name\<close>

text \<open>The module namespace, imports, and constants reached without a name.\<close>

datatype (plugins only: code size) 'r namespace_op =
    LoadGlobal "'r" ustr
      \<comment> \<open>dest, name\<close>
  | StoreGlobal "'r" ustr "'r val"
      \<comment> \<open>dest, name, value\<close>
  | DeleteGlobal "'r" ustr
      \<comment> \<open>dest, name\<close>
  | LoadClass "'r" ustr
      \<comment> \<open>dest, class\<close>
  | ModuleDict "'r"
      \<comment> \<open>dest\<close>
  | LoadEllipsis "'r"
      \<comment> \<open>dest\<close>
  | MakeSlice "'r" "'r val" "'r val" "'r val"
      \<comment> \<open>dest, lower, upper, step\<close>
  | ImportModule "'r" ustr "ustr list" u32
      \<comment> \<open>dest, name, fromlist, level\<close>
  | ImportFrom "'r" "'r val" ustr
      \<comment> \<open>dest, module, name\<close>
  | Warn "'r" "'r val" "'r val option" u32 u32
      \<comment> \<open>dest, message, category, stacklevel, offset\<close>

text \<open>Displays, fixed-length tuples and subscripts.\<close>

datatype (plugins only: code size) 'r container_op =
    TupleBuild "'r" "'r val list" "nat list"
      \<comment> \<open>dest, items, moves\<close>
  | Unpack "'r" "'r val" "nat option"
      \<comment> \<open>dest, src, starred\<close>
  | Extend "'r" "'r val" "'r val" bool
      \<comment> \<open>dest, container, source, mapping\<close>
  | ToTuple "'r" "'r val"
      \<comment> \<open>dest, src\<close>
  | TupleGet "'r" "'r val" nat
      \<comment> \<open>dest, src, index\<close>
  | BuildList "'r" "'r val list" "nat list"
      \<comment> \<open>dest, items, moves\<close>
  | BuildSet "'r" "'r val list"
      \<comment> \<open>dest, items\<close>
  | BuildTuple "'r" "'r val list" "nat list"
      \<comment> \<open>dest, items, moves\<close>
  | BuildDict "'r" "'r val list"
      \<comment> \<open>dest, pairs\<close>
  | GetItem "'r" "'r val" "'r val"
      \<comment> \<open>dest, container, index\<close>
  | DictFind "'r" "'r val" "'r val"
      \<comment> \<open>dest, container, key\<close>
  | SetItem "'r" "'r val" "'r val" "'r val"
      \<comment> \<open>dest, container, index, value\<close>
  | DeleteItem "'r" "'r val" "'r val"
      \<comment> \<open>dest, container, index\<close>

text \<open>Buffers of unboxed elements.\<close>

datatype (plugins only: code size) 'r array_op =
    ArrayNew "'r" "'r val list"
      \<comment> \<open>dest, items\<close>
  | ArrayGet "'r" "'r val" "'r val"
      \<comment> \<open>dest, array, index\<close>
  | ArraySet "'r" "'r val" "'r val" "'r val"
      \<comment> \<open>dest, array, index, value\<close>
  | ArrayLen "'r" "'r val"
      \<comment> \<open>dest, array\<close>
  | ArrayRead "'r" "'r val" "'r val"
      \<comment> \<open>dest, array, index\<close>
  | ArrayPush "'r" "'r val" "'r val" "'r val option"
      \<comment> \<open>dest, array, value, length\<close>
  | ArrayStoreLength "'r val" "'r val"
      \<comment> \<open>array, length\<close>

text \<open>Strings.\<close>

datatype (plugins only: code size) 'r str_op =
    StrGetItem "'r" "'r val" "'r val"
      \<comment> \<open>dest, container, index\<close>
  | StrItemCompare "'r" cmp_op "'r val" "'r val" nat
      \<comment> \<open>dest, op, container, index, character\<close>
  | Format "'r" "'r val" "'r val option" conversion
      \<comment> \<open>dest, value, spec, conversion\<close>
  | Len "'r" "'r val"
      \<comment> \<open>dest, src\<close>
  | StrConcat "'r" "'r val" "'r val" bool concatenation
      \<comment> \<open>dest, lhs, rhs, consumes_lhs, concatenation\<close>
  | StrOfInt "'r" "'r val"
      \<comment> \<open>dest, value\<close>
  | StrConcatInt "'r" "'r val" "'r val" mutation
      \<comment> \<open>dest, lhs, value, mutation\<close>

text \<open>Iteration, context managers, delegation and exceptions.\<close>

datatype (plugins only: code size) 'r control_op =
    AsyncContext "'r" "'r val" "'r val option" "'r val option"
      \<comment> \<open>dest, manager, exit, exception\<close>
  | AsyncIter "'r" "'r val" bool
      \<comment> \<open>dest, src, next\<close>
  | Enter "'r" "'r val"
      \<comment> \<open>dest, manager\<close>
  | BindExit "'r" "'r val" bool
      \<comment> \<open>dest, manager, is_async\<close>
  | ExitContext "'r" "'r val" "'r val" "'r val"
      \<comment> \<open>dest, manager, exit, exception\<close>
  | DelegateIter "'r" "'r val" bool
      \<comment> \<open>dest, src, awaitable\<close>
  | DelegateStep "'r" "'r val" "'r val"
      \<comment> \<open>dest, inner, sent\<close>
  | RaiseWith standard_error "'r val"
      \<comment> \<open>error, value\<close>
  | FinishFrame "'r val"
      \<comment> \<open>value\<close>
  | FetchException "'r"
      \<comment> \<open>dest\<close>
  | ExceptionMatches "'r" "'r val" "'r val"
      \<comment> \<open>dest, value, class\<close>
  | PushHandled "'r" "'r val"
      \<comment> \<open>dest, value\<close>
  | PopHandled "'r val"
      \<comment> \<open>value\<close>
  | RaiseObject "'r val" "'r val option"
      \<comment> \<open>exception, cause\<close>
  | Reraise "'r val"
      \<comment> \<open>value\<close>
  | LeaveGenerator "'r val"
      \<comment> \<open>value\<close>
  | GetIter "'r" "'r val" "'r option"
      \<comment> \<open>dest, src, cursor\<close>
  | IterNext "'r" "'r val" "'r option"
      \<comment> \<open>dest, iter, cursor\<close>
  | StopIterationValue "'r" "'r val"
      \<comment> \<open>dest, src\<close>
  | RaiseStandard standard_error ustr
      \<comment> \<open>error, message\<close>

datatype (plugins only: code size) 'r op =
    ScalarOp "'r scalar_op"
  | PlaceOp "'r place_op"
  | PatternOp "'r pattern_op"
  | LicenceOp "'r licence_op"
  | CallOp "'r call_op"
  | AttributeOp "'r attribute_op"
  | NamespaceOp "'r namespace_op"
  | ContainerOp "'r container_op"
  | ArrayOp "'r array_op"
  | StrOp "'r str_op"
  | ControlOp "'r control_op"

section \<open>Terminators\<close>

datatype 'r terminator =
    Goto block_id
  | Branch "'r val" block_id block_id  \<comment> \<open>cond, then_block, else_block\<close>
  | Return "'r val"
  | NarrowShort 'r "'r val" block_id block_id  \<comment> \<open>dest, src, fits, otherwise\<close>
  | MachineStep 'r bin_op "'r val" "'r val" block_id block_id
      \<comment> \<open>dest, op, lhs, rhs, fits, overflows\<close>
  | Unreachable

end
