(* ===== verification/BIR_Access.thy ===== *)
theory BIR_Access
  imports BIR_Ops
begin

text \<open>
  The accessors of \<^verbatim>\<open>by_ir/src/ops.rs\<close>: which register an operation writes, which operands it
  reads, which register it walks a loop with, which it unbinds, and their mutable mirrors. A
  mutable accessor hands out references to places inside the operation; its model \<open>map_\<dots>\<close> applies
  a function at exactly those places, so a pass that assigns through the references is \<open>map_\<dots>\<close>
  of what it assigns.

  Every analysis of the compiler is built on these functions, so what the analyses rely on is the
  locale \<open>operation_access\<close>, interpreted here for \<open>op\<close>.
\<close>

section \<open>The classes of a soundness check\<close>

fun sound_classes :: "'r sound_target \<Rightarrow> 'r val list" where
  "sound_classes (SoundClass cls) = [cls]"
| "sound_classes SoundNoneType = []"
| "sound_classes (SoundAnyOf parts) = concat (map sound_classes parts)"

fun map_sound_classes :: "('r val \<Rightarrow> 'r val) \<Rightarrow> 'r sound_target \<Rightarrow> 'r sound_target" where
  "map_sound_classes f (SoundClass cls) = SoundClass (f cls)"
| "map_sound_classes f SoundNoneType = SoundNoneType"
| "map_sound_classes f (SoundAnyOf parts) = SoundAnyOf (map (map_sound_classes f) parts)"

lemma sound_classes_map [simp]: "sound_classes (map_sound_classes f t) = map f (sound_classes t)"
proof (induction t)
  case (SoundAnyOf parts)
  then show ?case by (induction parts) auto
qed auto

lemma set_sound_target_classes:
  "set_sound_target t = (\<Union>v \<in> set (sound_classes t). set_val v)"
  by (induction t) auto

lemma map_sound_target_classes: "map_sound_target g t = map_sound_classes (map_val g) t"
  by (induction t) auto

section \<open>The register an operation writes\<close>

primrec dest_scalar :: "'r scalar_op \<Rightarrow> 'r option" where
  "dest_scalar (Assign d src) = Some d"
| "dest_scalar (IntBinary d oper lhs rhs mut) = Some d"
| "dest_scalar (FloatBinary d oper lhs rhs) = Some d"
| "dest_scalar (IntCompare d oper lhs rhs) = Some d"
| "dest_scalar (ObjectBinary d oper lhs rhs mut) = Some d"
| "dest_scalar (ObjectCompare d oper lhs rhs) = Some d"
| "dest_scalar (ObjectRichCompare d oper lhs rhs) = Some d"
| "dest_scalar (StrCompare d oper lhs rhs) = Some d"
| "dest_scalar (Truthy d src) = Some d"
| "dest_scalar (FloatCompare d oper lhs rhs) = Some d"
| "dest_scalar (Unary d oper operand) = Some d"
| "dest_scalar (FloatObjectBinary d oper lhs rhs) = Some d"
| "dest_scalar (FloatObjectCompare d oper lhs rhs) = Some d"
| "dest_scalar (Identity d lhs rhs neg) = Some d"
| "dest_scalar (IntToFloat d src) = Some d"
| "dest_scalar (TagShort d src) = Some d"

primrec dest_place :: "'r place_op \<Rightarrow> 'r option" where
  "dest_place (Box d src) = Some d"
| "dest_place (Unbox d src ty prv) = Some d"
| "dest_place (Release val pth) = None"
| "dest_place (Move d src pth) = Some d"
| "dest_place (DeleteLocal d) = Some d"
| "dest_place (IsNull d src) = Some d"
| "dest_place (Line pos) = None"

primrec dest_pattern :: "'r pattern_op \<Rightarrow> 'r option" where
  "dest_pattern (IsInstance d src cls) = Some d"
| "dest_pattern (CheckSound src tgt) = None"
| "dest_pattern (MatchAttr d subject nm cls idx cnt) = Some d"
| "dest_pattern (IsMissing d src) = Some d"
| "dest_pattern (MatchSlice d sequence st aft rst) = Some d"
| "dest_pattern (MatchKey d mp key) = Some d"
| "dest_pattern (MatchRest d mp ks) = Some d"
| "dest_pattern (IsMapping d src) = Some d"
| "dest_pattern (HoldsLayout d src cls) = Some d"
| "dest_pattern (IsSequence d src) = Some d"
| "dest_pattern (Contains d val container neg) = Some d"

primrec dest_licence :: "'r licence_op \<Rightarrow> 'r option" where
  "dest_licence (MethodStands d src cls mth) = Some d"
| "dest_licence (BuiltinStands d nm) = Some d"
| "dest_licence (LoopGuardsHold d builtins functions ex) = Some d"
| "dest_licence (ResolveFunction d nm) = Some d"
| "dest_licence (FunctionStood d nm) = Some d"
| "dest_licence (FunctionStands d src nm) = Some d"
| "dest_licence (FunctionCallee d src nm) = Some d"
| "dest_licence (AccessorStands d src cls nm) = Some d"
| "dest_licence (FieldStands d src cls fld) = Some d"
| "dest_licence (LicenceHolds src cls mem knd) = None"
| "dest_licence (DictShadows d src cls mth) = Some d"

primrec dest_call :: "'r call_op \<Rightarrow> 'r option" where
  "dest_call (CallNative d own callee args) = d"
| "dest_call (CallUnpacked d callee args kwargs) = Some d"
| "dest_call (MergeKeywords d container source callee) = Some d"
| "dest_call (CallPython d callee args) = Some d"
| "dest_call (CallValue d callee args) = Some d"
| "dest_call (CallThrough d callee args keywords) = Some d"
| "dest_call (CallMethod d receiver nm args) = Some d"
| "dest_call (NewInstance d cls flds) = Some d"
| "dest_call (MakeClosure d cls mth env) = Some d"

primrec dest_attribute :: "'r attribute_op \<Rightarrow> 'r option" where
  "dest_attribute (GetCell d receiver cls fld fr) = Some d"
| "dest_attribute (GetField d receiver cls fld) = Some d"
| "dest_attribute (RequireField receiver cls fld) = None"
| "dest_attribute (FieldIsSet d receiver cls fld) = Some d"
| "dest_attribute (SetField receiver cls fld val mvs prs) = None"
| "dest_attribute (GetAttr d receiver nm) = Some d"
| "dest_attribute (SetAttr d receiver nm val) = Some d"
| "dest_attribute (ReadAttribute d receiver nm) = Some d"
| "dest_attribute (WriteAttribute d receiver nm val) = Some d"
| "dest_attribute (DeleteAttr d receiver nm) = Some d"

primrec dest_namespace :: "'r namespace_op \<Rightarrow> 'r option" where
  "dest_namespace (LoadGlobal d nm) = Some d"
| "dest_namespace (StoreGlobal d nm val) = Some d"
| "dest_namespace (DeleteGlobal d nm) = Some d"
| "dest_namespace (LoadClass d cls) = Some d"
| "dest_namespace (ModuleDict d) = Some d"
| "dest_namespace (LoadEllipsis d) = Some d"
| "dest_namespace (MakeSlice d lo up stp) = Some d"
| "dest_namespace (ImportModule d nm fromlist lvl) = Some d"
| "dest_namespace (ImportFrom d mdl nm) = Some d"
| "dest_namespace (Warn d msg category stacklevel off) = Some d"

primrec dest_container :: "'r container_op \<Rightarrow> 'r option" where
  "dest_container (TupleBuild d items mvs) = Some d"
| "dest_container (Unpack d src starred) = Some d"
| "dest_container (Extend d container source mapping) = Some d"
| "dest_container (ToTuple d src) = Some d"
| "dest_container (TupleGet d src idx) = Some d"
| "dest_container (BuildList d items mvs) = Some d"
| "dest_container (BuildSet d items) = Some d"
| "dest_container (BuildTuple d items mvs) = Some d"
| "dest_container (BuildDict d prs) = Some d"
| "dest_container (GetItem d container idx) = Some d"
| "dest_container (DictFind d container key) = Some d"
| "dest_container (SetItem d container idx val) = Some d"
| "dest_container (DeleteItem d container idx) = Some d"

primrec dest_array :: "'r array_op \<Rightarrow> 'r option" where
  "dest_array (ArrayNew d items) = Some d"
| "dest_array (ArrayGet d array idx) = Some d"
| "dest_array (ArraySet d array idx val) = Some d"
| "dest_array (ArrayLen d array) = Some d"
| "dest_array (ArrayRead d array idx) = Some d"
| "dest_array (ArrayPush d array val len) = Some d"
| "dest_array (ArrayStoreLength array len) = None"

primrec dest_str :: "'r str_op \<Rightarrow> 'r option" where
  "dest_str (StrGetItem d container idx) = Some d"
| "dest_str (StrItemCompare d oper container idx chr) = Some d"
| "dest_str (Format d val spec conv) = Some d"
| "dest_str (Len d src) = Some d"
| "dest_str (StrConcat d lhs rhs consumes_lhs cat) = Some d"
| "dest_str (StrOfInt d val) = Some d"
| "dest_str (StrConcatInt d lhs val mut) = Some d"

primrec dest_control :: "'r control_op \<Rightarrow> 'r option" where
  "dest_control (AsyncContext d manager ext exception) = Some d"
| "dest_control (AsyncIter d src nxt) = Some d"
| "dest_control (Enter d manager) = Some d"
| "dest_control (BindExit d manager is_async) = Some d"
| "dest_control (ExitContext d manager ext exception) = Some d"
| "dest_control (DelegateIter d src awaitable) = Some d"
| "dest_control (DelegateStep d inner sent) = Some d"
| "dest_control (RaiseWith err val) = None"
| "dest_control (FinishFrame val) = None"
| "dest_control (FetchException d) = Some d"
| "dest_control (ExceptionMatches d val cls) = Some d"
| "dest_control (PushHandled d val) = Some d"
| "dest_control (PopHandled val) = None"
| "dest_control (RaiseObject exception cause) = None"
| "dest_control (Reraise val) = None"
| "dest_control (LeaveGenerator val) = None"
| "dest_control (GetIter d src cursor) = Some d"
| "dest_control (IterNext d it cursor) = Some d"
| "dest_control (StopIterationValue d src) = Some d"
| "dest_control (RaiseStandard err msg) = None"

fun dest :: "'r op \<Rightarrow> 'r option" where
  "dest (ScalarOp x) = dest_scalar x"
| "dest (PlaceOp x) = dest_place x"
| "dest (PatternOp x) = dest_pattern x"
| "dest (LicenceOp x) = dest_licence x"
| "dest (CallOp x) = dest_call x"
| "dest (AttributeOp x) = dest_attribute x"
| "dest (NamespaceOp x) = dest_namespace x"
| "dest (ContainerOp x) = dest_container x"
| "dest (ArrayOp x) = dest_array x"
| "dest (StrOp x) = dest_str x"
| "dest (ControlOp x) = dest_control x"

text \<open>Assigning through \<open>dest_mut\<close>.\<close>

primrec map_dest_scalar :: "('r \<Rightarrow> 'r) \<Rightarrow> 'r scalar_op \<Rightarrow> 'r scalar_op" where
  "map_dest_scalar f (Assign d src) = Assign (f d) src"
| "map_dest_scalar f (IntBinary d oper lhs rhs mut) = IntBinary (f d) oper lhs rhs mut"
| "map_dest_scalar f (FloatBinary d oper lhs rhs) = FloatBinary (f d) oper lhs rhs"
| "map_dest_scalar f (IntCompare d oper lhs rhs) = IntCompare (f d) oper lhs rhs"
| "map_dest_scalar f (ObjectBinary d oper lhs rhs mut) = ObjectBinary (f d) oper lhs rhs mut"
| "map_dest_scalar f (ObjectCompare d oper lhs rhs) = ObjectCompare (f d) oper lhs rhs"
| "map_dest_scalar f (ObjectRichCompare d oper lhs rhs) = ObjectRichCompare (f d) oper lhs rhs"
| "map_dest_scalar f (StrCompare d oper lhs rhs) = StrCompare (f d) oper lhs rhs"
| "map_dest_scalar f (Truthy d src) = Truthy (f d) src"
| "map_dest_scalar f (FloatCompare d oper lhs rhs) = FloatCompare (f d) oper lhs rhs"
| "map_dest_scalar f (Unary d oper operand) = Unary (f d) oper operand"
| "map_dest_scalar f (FloatObjectBinary d oper lhs rhs) = FloatObjectBinary (f d) oper lhs rhs"
| "map_dest_scalar f (FloatObjectCompare d oper lhs rhs) = FloatObjectCompare (f d) oper lhs rhs"
| "map_dest_scalar f (Identity d lhs rhs neg) = Identity (f d) lhs rhs neg"
| "map_dest_scalar f (IntToFloat d src) = IntToFloat (f d) src"
| "map_dest_scalar f (TagShort d src) = TagShort (f d) src"

primrec map_dest_place :: "('r \<Rightarrow> 'r) \<Rightarrow> 'r place_op \<Rightarrow> 'r place_op" where
  "map_dest_place f (Box d src) = Box (f d) src"
| "map_dest_place f (Unbox d src ty prv) = Unbox (f d) src ty prv"
| "map_dest_place f (Release val pth) = Release val pth"
| "map_dest_place f (Move d src pth) = Move (f d) src pth"
| "map_dest_place f (DeleteLocal d) = DeleteLocal (f d)"
| "map_dest_place f (IsNull d src) = IsNull (f d) src"
| "map_dest_place f (Line pos) = Line pos"

primrec map_dest_pattern :: "('r \<Rightarrow> 'r) \<Rightarrow> 'r pattern_op \<Rightarrow> 'r pattern_op" where
  "map_dest_pattern f (IsInstance d src cls) = IsInstance (f d) src cls"
| "map_dest_pattern f (CheckSound src tgt) = CheckSound src tgt"
| "map_dest_pattern f (MatchAttr d subject nm cls idx cnt) = MatchAttr (f d) subject nm cls idx cnt"
| "map_dest_pattern f (IsMissing d src) = IsMissing (f d) src"
| "map_dest_pattern f (MatchSlice d sequence st aft rst) = MatchSlice (f d) sequence st aft rst"
| "map_dest_pattern f (MatchKey d mp key) = MatchKey (f d) mp key"
| "map_dest_pattern f (MatchRest d mp ks) = MatchRest (f d) mp ks"
| "map_dest_pattern f (IsMapping d src) = IsMapping (f d) src"
| "map_dest_pattern f (HoldsLayout d src cls) = HoldsLayout (f d) src cls"
| "map_dest_pattern f (IsSequence d src) = IsSequence (f d) src"
| "map_dest_pattern f (Contains d val container neg) = Contains (f d) val container neg"

primrec map_dest_licence :: "('r \<Rightarrow> 'r) \<Rightarrow> 'r licence_op \<Rightarrow> 'r licence_op" where
  "map_dest_licence f (MethodStands d src cls mth) = MethodStands (f d) src cls mth"
| "map_dest_licence f (BuiltinStands d nm) = BuiltinStands (f d) nm"
| "map_dest_licence f (LoopGuardsHold d builtins functions ex) = LoopGuardsHold (f d) builtins functions ex"
| "map_dest_licence f (ResolveFunction d nm) = ResolveFunction (f d) nm"
| "map_dest_licence f (FunctionStood d nm) = FunctionStood (f d) nm"
| "map_dest_licence f (FunctionStands d src nm) = FunctionStands (f d) src nm"
| "map_dest_licence f (FunctionCallee d src nm) = FunctionCallee (f d) src nm"
| "map_dest_licence f (AccessorStands d src cls nm) = AccessorStands (f d) src cls nm"
| "map_dest_licence f (FieldStands d src cls fld) = FieldStands (f d) src cls fld"
| "map_dest_licence f (LicenceHolds src cls mem knd) = LicenceHolds src cls mem knd"
| "map_dest_licence f (DictShadows d src cls mth) = DictShadows (f d) src cls mth"

primrec map_dest_call :: "('r \<Rightarrow> 'r) \<Rightarrow> 'r call_op \<Rightarrow> 'r call_op" where
  "map_dest_call f (CallNative d own callee args) = CallNative (map_option f d) own callee args"
| "map_dest_call f (CallUnpacked d callee args kwargs) = CallUnpacked (f d) callee args kwargs"
| "map_dest_call f (MergeKeywords d container source callee) = MergeKeywords (f d) container source callee"
| "map_dest_call f (CallPython d callee args) = CallPython (f d) callee args"
| "map_dest_call f (CallValue d callee args) = CallValue (f d) callee args"
| "map_dest_call f (CallThrough d callee args keywords) = CallThrough (f d) callee args keywords"
| "map_dest_call f (CallMethod d receiver nm args) = CallMethod (f d) receiver nm args"
| "map_dest_call f (NewInstance d cls flds) = NewInstance (f d) cls flds"
| "map_dest_call f (MakeClosure d cls mth env) = MakeClosure (f d) cls mth env"

primrec map_dest_attribute :: "('r \<Rightarrow> 'r) \<Rightarrow> 'r attribute_op \<Rightarrow> 'r attribute_op" where
  "map_dest_attribute f (GetCell d receiver cls fld fr) = GetCell (f d) receiver cls fld fr"
| "map_dest_attribute f (GetField d receiver cls fld) = GetField (f d) receiver cls fld"
| "map_dest_attribute f (RequireField receiver cls fld) = RequireField receiver cls fld"
| "map_dest_attribute f (FieldIsSet d receiver cls fld) = FieldIsSet (f d) receiver cls fld"
| "map_dest_attribute f (SetField receiver cls fld val mvs prs) = SetField receiver cls fld val mvs prs"
| "map_dest_attribute f (GetAttr d receiver nm) = GetAttr (f d) receiver nm"
| "map_dest_attribute f (SetAttr d receiver nm val) = SetAttr (f d) receiver nm val"
| "map_dest_attribute f (ReadAttribute d receiver nm) = ReadAttribute (f d) receiver nm"
| "map_dest_attribute f (WriteAttribute d receiver nm val) = WriteAttribute (f d) receiver nm val"
| "map_dest_attribute f (DeleteAttr d receiver nm) = DeleteAttr (f d) receiver nm"

primrec map_dest_namespace :: "('r \<Rightarrow> 'r) \<Rightarrow> 'r namespace_op \<Rightarrow> 'r namespace_op" where
  "map_dest_namespace f (LoadGlobal d nm) = LoadGlobal (f d) nm"
| "map_dest_namespace f (StoreGlobal d nm val) = StoreGlobal (f d) nm val"
| "map_dest_namespace f (DeleteGlobal d nm) = DeleteGlobal (f d) nm"
| "map_dest_namespace f (LoadClass d cls) = LoadClass (f d) cls"
| "map_dest_namespace f (ModuleDict d) = ModuleDict (f d)"
| "map_dest_namespace f (LoadEllipsis d) = LoadEllipsis (f d)"
| "map_dest_namespace f (MakeSlice d lo up stp) = MakeSlice (f d) lo up stp"
| "map_dest_namespace f (ImportModule d nm fromlist lvl) = ImportModule (f d) nm fromlist lvl"
| "map_dest_namespace f (ImportFrom d mdl nm) = ImportFrom (f d) mdl nm"
| "map_dest_namespace f (Warn d msg category stacklevel off) = Warn (f d) msg category stacklevel off"

primrec map_dest_container :: "('r \<Rightarrow> 'r) \<Rightarrow> 'r container_op \<Rightarrow> 'r container_op" where
  "map_dest_container f (TupleBuild d items mvs) = TupleBuild (f d) items mvs"
| "map_dest_container f (Unpack d src starred) = Unpack (f d) src starred"
| "map_dest_container f (Extend d container source mapping) = Extend (f d) container source mapping"
| "map_dest_container f (ToTuple d src) = ToTuple (f d) src"
| "map_dest_container f (TupleGet d src idx) = TupleGet (f d) src idx"
| "map_dest_container f (BuildList d items mvs) = BuildList (f d) items mvs"
| "map_dest_container f (BuildSet d items) = BuildSet (f d) items"
| "map_dest_container f (BuildTuple d items mvs) = BuildTuple (f d) items mvs"
| "map_dest_container f (BuildDict d prs) = BuildDict (f d) prs"
| "map_dest_container f (GetItem d container idx) = GetItem (f d) container idx"
| "map_dest_container f (DictFind d container key) = DictFind (f d) container key"
| "map_dest_container f (SetItem d container idx val) = SetItem (f d) container idx val"
| "map_dest_container f (DeleteItem d container idx) = DeleteItem (f d) container idx"

primrec map_dest_array :: "('r \<Rightarrow> 'r) \<Rightarrow> 'r array_op \<Rightarrow> 'r array_op" where
  "map_dest_array f (ArrayNew d items) = ArrayNew (f d) items"
| "map_dest_array f (ArrayGet d array idx) = ArrayGet (f d) array idx"
| "map_dest_array f (ArraySet d array idx val) = ArraySet (f d) array idx val"
| "map_dest_array f (ArrayLen d array) = ArrayLen (f d) array"
| "map_dest_array f (ArrayRead d array idx) = ArrayRead (f d) array idx"
| "map_dest_array f (ArrayPush d array val len) = ArrayPush (f d) array val len"
| "map_dest_array f (ArrayStoreLength array len) = ArrayStoreLength array len"

primrec map_dest_str :: "('r \<Rightarrow> 'r) \<Rightarrow> 'r str_op \<Rightarrow> 'r str_op" where
  "map_dest_str f (StrGetItem d container idx) = StrGetItem (f d) container idx"
| "map_dest_str f (StrItemCompare d oper container idx chr) = StrItemCompare (f d) oper container idx chr"
| "map_dest_str f (Format d val spec conv) = Format (f d) val spec conv"
| "map_dest_str f (Len d src) = Len (f d) src"
| "map_dest_str f (StrConcat d lhs rhs consumes_lhs cat) = StrConcat (f d) lhs rhs consumes_lhs cat"
| "map_dest_str f (StrOfInt d val) = StrOfInt (f d) val"
| "map_dest_str f (StrConcatInt d lhs val mut) = StrConcatInt (f d) lhs val mut"

primrec map_dest_control :: "('r \<Rightarrow> 'r) \<Rightarrow> 'r control_op \<Rightarrow> 'r control_op" where
  "map_dest_control f (AsyncContext d manager ext exception) = AsyncContext (f d) manager ext exception"
| "map_dest_control f (AsyncIter d src nxt) = AsyncIter (f d) src nxt"
| "map_dest_control f (Enter d manager) = Enter (f d) manager"
| "map_dest_control f (BindExit d manager is_async) = BindExit (f d) manager is_async"
| "map_dest_control f (ExitContext d manager ext exception) = ExitContext (f d) manager ext exception"
| "map_dest_control f (DelegateIter d src awaitable) = DelegateIter (f d) src awaitable"
| "map_dest_control f (DelegateStep d inner sent) = DelegateStep (f d) inner sent"
| "map_dest_control f (RaiseWith err val) = RaiseWith err val"
| "map_dest_control f (FinishFrame val) = FinishFrame val"
| "map_dest_control f (FetchException d) = FetchException (f d)"
| "map_dest_control f (ExceptionMatches d val cls) = ExceptionMatches (f d) val cls"
| "map_dest_control f (PushHandled d val) = PushHandled (f d) val"
| "map_dest_control f (PopHandled val) = PopHandled val"
| "map_dest_control f (RaiseObject exception cause) = RaiseObject exception cause"
| "map_dest_control f (Reraise val) = Reraise val"
| "map_dest_control f (LeaveGenerator val) = LeaveGenerator val"
| "map_dest_control f (GetIter d src cursor) = GetIter (f d) src cursor"
| "map_dest_control f (IterNext d it cursor) = IterNext (f d) it cursor"
| "map_dest_control f (StopIterationValue d src) = StopIterationValue (f d) src"
| "map_dest_control f (RaiseStandard err msg) = RaiseStandard err msg"

fun map_dest :: "('r \<Rightarrow> 'r) \<Rightarrow> 'r op \<Rightarrow> 'r op" where
  "map_dest f (ScalarOp x) = ScalarOp (map_dest_scalar f x)"
| "map_dest f (PlaceOp x) = PlaceOp (map_dest_place f x)"
| "map_dest f (PatternOp x) = PatternOp (map_dest_pattern f x)"
| "map_dest f (LicenceOp x) = LicenceOp (map_dest_licence f x)"
| "map_dest f (CallOp x) = CallOp (map_dest_call f x)"
| "map_dest f (AttributeOp x) = AttributeOp (map_dest_attribute f x)"
| "map_dest f (NamespaceOp x) = NamespaceOp (map_dest_namespace f x)"
| "map_dest f (ContainerOp x) = ContainerOp (map_dest_container f x)"
| "map_dest f (ArrayOp x) = ArrayOp (map_dest_array f x)"
| "map_dest f (StrOp x) = StrOp (map_dest_str f x)"
| "map_dest f (ControlOp x) = ControlOp (map_dest_control f x)"

section \<open>The operands an operation reads\<close>

primrec operands_scalar :: "'r scalar_op \<Rightarrow> 'r val list" where
  "operands_scalar (Assign d src) = [src]"
| "operands_scalar (IntBinary d oper lhs rhs mut) = [lhs, rhs]"
| "operands_scalar (FloatBinary d oper lhs rhs) = [lhs, rhs]"
| "operands_scalar (IntCompare d oper lhs rhs) = [lhs, rhs]"
| "operands_scalar (ObjectBinary d oper lhs rhs mut) = [lhs, rhs]"
| "operands_scalar (ObjectCompare d oper lhs rhs) = [lhs, rhs]"
| "operands_scalar (ObjectRichCompare d oper lhs rhs) = [lhs, rhs]"
| "operands_scalar (StrCompare d oper lhs rhs) = [lhs, rhs]"
| "operands_scalar (Truthy d src) = [src]"
| "operands_scalar (FloatCompare d oper lhs rhs) = [lhs, rhs]"
| "operands_scalar (Unary d oper operand) = [operand]"
| "operands_scalar (FloatObjectBinary d oper lhs rhs) = [lhs, rhs]"
| "operands_scalar (FloatObjectCompare d oper lhs rhs) = [lhs, rhs]"
| "operands_scalar (Identity d lhs rhs neg) = [lhs, rhs]"
| "operands_scalar (IntToFloat d src) = [src]"
| "operands_scalar (TagShort d src) = [src]"

primrec operands_place :: "'r place_op \<Rightarrow> 'r val list" where
  "operands_place (Box d src) = [src]"
| "operands_place (Unbox d src ty prv) = [src]"
| "operands_place (Release val pth) = [val]"
| "operands_place (Move d src pth) = [src]"
| "operands_place (DeleteLocal d) = []"
| "operands_place (IsNull d src) = [src]"
| "operands_place (Line pos) = []"

primrec operands_pattern :: "'r pattern_op \<Rightarrow> 'r val list" where
  "operands_pattern (IsInstance d src cls) = [src, cls]"
| "operands_pattern (CheckSound src tgt) = src # sound_classes tgt"
| "operands_pattern (MatchAttr d subject nm cls idx cnt) = subject # option_list cls"
| "operands_pattern (IsMissing d src) = [src]"
| "operands_pattern (MatchSlice d sequence st aft rst) = [sequence]"
| "operands_pattern (MatchKey d mp key) = [mp, key]"
| "operands_pattern (MatchRest d mp ks) = [mp, ks]"
| "operands_pattern (IsMapping d src) = [src]"
| "operands_pattern (HoldsLayout d src cls) = [src]"
| "operands_pattern (IsSequence d src) = [src]"
| "operands_pattern (Contains d val container neg) = [val, container]"

primrec operands_licence :: "'r licence_op \<Rightarrow> 'r val list" where
  "operands_licence (MethodStands d src cls mth) = [src]"
| "operands_licence (BuiltinStands d nm) = []"
| "operands_licence (LoopGuardsHold d builtins functions ex) = ex"
| "operands_licence (ResolveFunction d nm) = []"
| "operands_licence (FunctionStood d nm) = []"
| "operands_licence (FunctionStands d src nm) = [src]"
| "operands_licence (FunctionCallee d src nm) = [src]"
| "operands_licence (AccessorStands d src cls nm) = [src]"
| "operands_licence (FieldStands d src cls fld) = [src]"
| "operands_licence (LicenceHolds src cls mem knd) = [src]"
| "operands_licence (DictShadows d src cls mth) = [src]"

primrec operands_call :: "'r call_op \<Rightarrow> 'r val list" where
  "operands_call (CallNative d own callee args) = args"
| "operands_call (CallUnpacked d callee args kwargs) = [callee, args] @ option_list kwargs"
| "operands_call (MergeKeywords d container source callee) = [container, source, callee]"
| "operands_call (CallPython d callee args) = args"
| "operands_call (CallValue d callee args) = callee # args"
| "operands_call (CallThrough d callee args keywords) = callee # args"
| "operands_call (CallMethod d receiver nm args) = receiver # args"
| "operands_call (NewInstance d cls flds) = concat (map option_list flds)"
| "operands_call (MakeClosure d cls mth env) = [env]"

primrec operands_attribute :: "'r attribute_op \<Rightarrow> 'r val list" where
  "operands_attribute (GetCell d receiver cls fld fr) = [receiver]"
| "operands_attribute (GetField d receiver cls fld) = [receiver]"
| "operands_attribute (RequireField receiver cls fld) = [receiver]"
| "operands_attribute (FieldIsSet d receiver cls fld) = [receiver]"
| "operands_attribute (SetField receiver cls fld val mvs prs) = [receiver, val]"
| "operands_attribute (GetAttr d receiver nm) = [receiver]"
| "operands_attribute (SetAttr d receiver nm val) = [receiver, val]"
| "operands_attribute (ReadAttribute d receiver nm) = [receiver]"
| "operands_attribute (WriteAttribute d receiver nm val) = [receiver, val]"
| "operands_attribute (DeleteAttr d receiver nm) = [receiver]"

primrec operands_namespace :: "'r namespace_op \<Rightarrow> 'r val list" where
  "operands_namespace (LoadGlobal d nm) = []"
| "operands_namespace (StoreGlobal d nm val) = [val]"
| "operands_namespace (DeleteGlobal d nm) = []"
| "operands_namespace (LoadClass d cls) = []"
| "operands_namespace (ModuleDict d) = []"
| "operands_namespace (LoadEllipsis d) = []"
| "operands_namespace (MakeSlice d lo up stp) = [lo, up, stp]"
| "operands_namespace (ImportModule d nm fromlist lvl) = []"
| "operands_namespace (ImportFrom d mdl nm) = [mdl]"
| "operands_namespace (Warn d msg category stacklevel off) = msg # option_list category"

primrec operands_container :: "'r container_op \<Rightarrow> 'r val list" where
  "operands_container (TupleBuild d items mvs) = items"
| "operands_container (Unpack d src starred) = [src]"
| "operands_container (Extend d container source mapping) = [container, source]"
| "operands_container (ToTuple d src) = [src]"
| "operands_container (TupleGet d src idx) = [src]"
| "operands_container (BuildList d items mvs) = items"
| "operands_container (BuildSet d items) = items"
| "operands_container (BuildTuple d items mvs) = items"
| "operands_container (BuildDict d prs) = prs"
| "operands_container (GetItem d container idx) = [container, idx]"
| "operands_container (DictFind d container key) = [container, key]"
| "operands_container (SetItem d container idx val) = [container, idx, val]"
| "operands_container (DeleteItem d container idx) = [container, idx]"

primrec operands_array :: "'r array_op \<Rightarrow> 'r val list" where
  "operands_array (ArrayNew d items) = items"
| "operands_array (ArrayGet d array idx) = [array, idx]"
| "operands_array (ArraySet d array idx val) = [array, idx, val]"
| "operands_array (ArrayLen d array) = [array]"
| "operands_array (ArrayRead d array idx) = [array, idx]"
| "operands_array (ArrayPush d array val len) = [array, val] @ option_list len"
| "operands_array (ArrayStoreLength array len) = [array, len]"

primrec operands_str :: "'r str_op \<Rightarrow> 'r val list" where
  "operands_str (StrGetItem d container idx) = [container, idx]"
| "operands_str (StrItemCompare d oper container idx chr) = [container, idx]"
| "operands_str (Format d val spec conv) = val # option_list spec"
| "operands_str (Len d src) = [src]"
| "operands_str (StrConcat d lhs rhs consumes_lhs cat) = [lhs, rhs]"
| "operands_str (StrOfInt d val) = [val]"
| "operands_str (StrConcatInt d lhs val mut) = [lhs, val]"

primrec operands_control :: "'r control_op \<Rightarrow> 'r val list" where
  "operands_control (AsyncContext d manager ext exception) =
     (case (ext, exception) of (Some x, Some e) \<Rightarrow> [manager, x, e] | _ \<Rightarrow> [manager])"
| "operands_control (AsyncIter d src nxt) = [src]"
| "operands_control (Enter d manager) = [manager]"
| "operands_control (BindExit d manager is_async) = [manager]"
| "operands_control (ExitContext d manager ext exception) = [manager, ext, exception]"
| "operands_control (DelegateIter d src awaitable) = [src]"
| "operands_control (DelegateStep d inner sent) = [inner, sent]"
| "operands_control (RaiseWith err val) = [val]"
| "operands_control (FinishFrame val) = [val]"
| "operands_control (FetchException d) = []"
| "operands_control (ExceptionMatches d val cls) = [val, cls]"
| "operands_control (PushHandled d val) = [val]"
| "operands_control (PopHandled val) = [val]"
| "operands_control (RaiseObject exception cause) = exception # option_list cause"
| "operands_control (Reraise val) = [val]"
| "operands_control (LeaveGenerator val) = [val]"
| "operands_control (GetIter d src cursor) = [src]"
| "operands_control (IterNext d it cursor) = [it]"
| "operands_control (StopIterationValue d src) = [src]"
| "operands_control (RaiseStandard err msg) = []"

fun operands :: "'r op \<Rightarrow> 'r val list" where
  "operands (ScalarOp x) = operands_scalar x"
| "operands (PlaceOp x) = operands_place x"
| "operands (PatternOp x) = operands_pattern x"
| "operands (LicenceOp x) = operands_licence x"
| "operands (CallOp x) = operands_call x"
| "operands (AttributeOp x) = operands_attribute x"
| "operands (NamespaceOp x) = operands_namespace x"
| "operands (ContainerOp x) = operands_container x"
| "operands (ArrayOp x) = operands_array x"
| "operands (StrOp x) = operands_str x"
| "operands (ControlOp x) = operands_control x"

text \<open>Assigning through \<open>operands_mut\<close>.\<close>

primrec map_operands_scalar :: "('r val \<Rightarrow> 'r val) \<Rightarrow> 'r scalar_op \<Rightarrow> 'r scalar_op" where
  "map_operands_scalar f (Assign d src) = Assign d (f src)"
| "map_operands_scalar f (IntBinary d oper lhs rhs mut) = IntBinary d oper (f lhs) (f rhs) mut"
| "map_operands_scalar f (FloatBinary d oper lhs rhs) = FloatBinary d oper (f lhs) (f rhs)"
| "map_operands_scalar f (IntCompare d oper lhs rhs) = IntCompare d oper (f lhs) (f rhs)"
| "map_operands_scalar f (ObjectBinary d oper lhs rhs mut) = ObjectBinary d oper (f lhs) (f rhs) mut"
| "map_operands_scalar f (ObjectCompare d oper lhs rhs) = ObjectCompare d oper (f lhs) (f rhs)"
| "map_operands_scalar f (ObjectRichCompare d oper lhs rhs) = ObjectRichCompare d oper (f lhs) (f rhs)"
| "map_operands_scalar f (StrCompare d oper lhs rhs) = StrCompare d oper (f lhs) (f rhs)"
| "map_operands_scalar f (Truthy d src) = Truthy d (f src)"
| "map_operands_scalar f (FloatCompare d oper lhs rhs) = FloatCompare d oper (f lhs) (f rhs)"
| "map_operands_scalar f (Unary d oper operand) = Unary d oper (f operand)"
| "map_operands_scalar f (FloatObjectBinary d oper lhs rhs) = FloatObjectBinary d oper (f lhs) (f rhs)"
| "map_operands_scalar f (FloatObjectCompare d oper lhs rhs) = FloatObjectCompare d oper (f lhs) (f rhs)"
| "map_operands_scalar f (Identity d lhs rhs neg) = Identity d (f lhs) (f rhs) neg"
| "map_operands_scalar f (IntToFloat d src) = IntToFloat d (f src)"
| "map_operands_scalar f (TagShort d src) = TagShort d (f src)"

primrec map_operands_place :: "('r val \<Rightarrow> 'r val) \<Rightarrow> 'r place_op \<Rightarrow> 'r place_op" where
  "map_operands_place f (Box d src) = Box d (f src)"
| "map_operands_place f (Unbox d src ty prv) = Unbox d (f src) ty prv"
| "map_operands_place f (Release val pth) = Release (f val) pth"
| "map_operands_place f (Move d src pth) = Move d (f src) pth"
| "map_operands_place f (DeleteLocal d) = DeleteLocal d"
| "map_operands_place f (IsNull d src) = IsNull d (f src)"
| "map_operands_place f (Line pos) = Line pos"

primrec map_operands_pattern :: "('r val \<Rightarrow> 'r val) \<Rightarrow> 'r pattern_op \<Rightarrow> 'r pattern_op" where
  "map_operands_pattern f (IsInstance d src cls) = IsInstance d (f src) (f cls)"
| "map_operands_pattern f (CheckSound src tgt) = CheckSound (f src) (map_sound_classes f tgt)"
| "map_operands_pattern f (MatchAttr d subject nm cls idx cnt) = MatchAttr d (f subject) nm (map_option f cls) idx cnt"
| "map_operands_pattern f (IsMissing d src) = IsMissing d (f src)"
| "map_operands_pattern f (MatchSlice d sequence st aft rst) = MatchSlice d (f sequence) st aft rst"
| "map_operands_pattern f (MatchKey d mp key) = MatchKey d (f mp) (f key)"
| "map_operands_pattern f (MatchRest d mp ks) = MatchRest d (f mp) (f ks)"
| "map_operands_pattern f (IsMapping d src) = IsMapping d (f src)"
| "map_operands_pattern f (HoldsLayout d src cls) = HoldsLayout d (f src) cls"
| "map_operands_pattern f (IsSequence d src) = IsSequence d (f src)"
| "map_operands_pattern f (Contains d val container neg) = Contains d (f val) (f container) neg"

primrec map_operands_licence :: "('r val \<Rightarrow> 'r val) \<Rightarrow> 'r licence_op \<Rightarrow> 'r licence_op" where
  "map_operands_licence f (MethodStands d src cls mth) = MethodStands d (f src) cls mth"
| "map_operands_licence f (BuiltinStands d nm) = BuiltinStands d nm"
| "map_operands_licence f (LoopGuardsHold d builtins functions ex) = LoopGuardsHold d builtins functions (map f ex)"
| "map_operands_licence f (ResolveFunction d nm) = ResolveFunction d nm"
| "map_operands_licence f (FunctionStood d nm) = FunctionStood d nm"
| "map_operands_licence f (FunctionStands d src nm) = FunctionStands d (f src) nm"
| "map_operands_licence f (FunctionCallee d src nm) = FunctionCallee d (f src) nm"
| "map_operands_licence f (AccessorStands d src cls nm) = AccessorStands d (f src) cls nm"
| "map_operands_licence f (FieldStands d src cls fld) = FieldStands d (f src) cls fld"
| "map_operands_licence f (LicenceHolds src cls mem knd) = LicenceHolds (f src) cls mem knd"
| "map_operands_licence f (DictShadows d src cls mth) = DictShadows d (f src) cls mth"

primrec map_operands_call :: "('r val \<Rightarrow> 'r val) \<Rightarrow> 'r call_op \<Rightarrow> 'r call_op" where
  "map_operands_call f (CallNative d own callee args) = CallNative d own callee (map f args)"
| "map_operands_call f (CallUnpacked d callee args kwargs) = CallUnpacked d (f callee) (f args) (map_option f kwargs)"
| "map_operands_call f (MergeKeywords d container source callee) = MergeKeywords d (f container) (f source) (f callee)"
| "map_operands_call f (CallPython d callee args) = CallPython d callee (map f args)"
| "map_operands_call f (CallValue d callee args) = CallValue d (f callee) (map f args)"
| "map_operands_call f (CallThrough d callee args keywords) = CallThrough d (f callee) (map f args) keywords"
| "map_operands_call f (CallMethod d receiver nm args) = CallMethod d (f receiver) nm (map f args)"
| "map_operands_call f (NewInstance d cls flds) = NewInstance d cls (map (map_option f) flds)"
| "map_operands_call f (MakeClosure d cls mth env) = MakeClosure d cls mth (f env)"

primrec map_operands_attribute :: "('r val \<Rightarrow> 'r val) \<Rightarrow> 'r attribute_op \<Rightarrow> 'r attribute_op" where
  "map_operands_attribute f (GetCell d receiver cls fld fr) = GetCell d (f receiver) cls fld fr"
| "map_operands_attribute f (GetField d receiver cls fld) = GetField d (f receiver) cls fld"
| "map_operands_attribute f (RequireField receiver cls fld) = RequireField (f receiver) cls fld"
| "map_operands_attribute f (FieldIsSet d receiver cls fld) = FieldIsSet d (f receiver) cls fld"
| "map_operands_attribute f (SetField receiver cls fld val mvs prs) = SetField (f receiver) cls fld (f val) mvs prs"
| "map_operands_attribute f (GetAttr d receiver nm) = GetAttr d (f receiver) nm"
| "map_operands_attribute f (SetAttr d receiver nm val) = SetAttr d (f receiver) nm (f val)"
| "map_operands_attribute f (ReadAttribute d receiver nm) = ReadAttribute d (f receiver) nm"
| "map_operands_attribute f (WriteAttribute d receiver nm val) = WriteAttribute d (f receiver) nm (f val)"
| "map_operands_attribute f (DeleteAttr d receiver nm) = DeleteAttr d (f receiver) nm"

primrec map_operands_namespace :: "('r val \<Rightarrow> 'r val) \<Rightarrow> 'r namespace_op \<Rightarrow> 'r namespace_op" where
  "map_operands_namespace f (LoadGlobal d nm) = LoadGlobal d nm"
| "map_operands_namespace f (StoreGlobal d nm val) = StoreGlobal d nm (f val)"
| "map_operands_namespace f (DeleteGlobal d nm) = DeleteGlobal d nm"
| "map_operands_namespace f (LoadClass d cls) = LoadClass d cls"
| "map_operands_namespace f (ModuleDict d) = ModuleDict d"
| "map_operands_namespace f (LoadEllipsis d) = LoadEllipsis d"
| "map_operands_namespace f (MakeSlice d lo up stp) = MakeSlice d (f lo) (f up) (f stp)"
| "map_operands_namespace f (ImportModule d nm fromlist lvl) = ImportModule d nm fromlist lvl"
| "map_operands_namespace f (ImportFrom d mdl nm) = ImportFrom d (f mdl) nm"
| "map_operands_namespace f (Warn d msg category stacklevel off) = Warn d (f msg) (map_option f category) stacklevel off"

primrec map_operands_container :: "('r val \<Rightarrow> 'r val) \<Rightarrow> 'r container_op \<Rightarrow> 'r container_op" where
  "map_operands_container f (TupleBuild d items mvs) = TupleBuild d (map f items) mvs"
| "map_operands_container f (Unpack d src starred) = Unpack d (f src) starred"
| "map_operands_container f (Extend d container source mapping) = Extend d (f container) (f source) mapping"
| "map_operands_container f (ToTuple d src) = ToTuple d (f src)"
| "map_operands_container f (TupleGet d src idx) = TupleGet d (f src) idx"
| "map_operands_container f (BuildList d items mvs) = BuildList d (map f items) mvs"
| "map_operands_container f (BuildSet d items) = BuildSet d (map f items)"
| "map_operands_container f (BuildTuple d items mvs) = BuildTuple d (map f items) mvs"
| "map_operands_container f (BuildDict d prs) = BuildDict d (map f prs)"
| "map_operands_container f (GetItem d container idx) = GetItem d (f container) (f idx)"
| "map_operands_container f (DictFind d container key) = DictFind d (f container) (f key)"
| "map_operands_container f (SetItem d container idx val) = SetItem d (f container) (f idx) (f val)"
| "map_operands_container f (DeleteItem d container idx) = DeleteItem d (f container) (f idx)"

primrec map_operands_array :: "('r val \<Rightarrow> 'r val) \<Rightarrow> 'r array_op \<Rightarrow> 'r array_op" where
  "map_operands_array f (ArrayNew d items) = ArrayNew d (map f items)"
| "map_operands_array f (ArrayGet d array idx) = ArrayGet d (f array) (f idx)"
| "map_operands_array f (ArraySet d array idx val) = ArraySet d (f array) (f idx) (f val)"
| "map_operands_array f (ArrayLen d array) = ArrayLen d (f array)"
| "map_operands_array f (ArrayRead d array idx) = ArrayRead d (f array) (f idx)"
| "map_operands_array f (ArrayPush d array val len) = ArrayPush d (f array) (f val) (map_option f len)"
| "map_operands_array f (ArrayStoreLength array len) = ArrayStoreLength (f array) (f len)"

primrec map_operands_str :: "('r val \<Rightarrow> 'r val) \<Rightarrow> 'r str_op \<Rightarrow> 'r str_op" where
  "map_operands_str f (StrGetItem d container idx) = StrGetItem d (f container) (f idx)"
| "map_operands_str f (StrItemCompare d oper container idx chr) = StrItemCompare d oper (f container) (f idx) chr"
| "map_operands_str f (Format d val spec conv) = Format d (f val) (map_option f spec) conv"
| "map_operands_str f (Len d src) = Len d (f src)"
| "map_operands_str f (StrConcat d lhs rhs consumes_lhs cat) = StrConcat d (f lhs) (f rhs) consumes_lhs cat"
| "map_operands_str f (StrOfInt d val) = StrOfInt d (f val)"
| "map_operands_str f (StrConcatInt d lhs val mut) = StrConcatInt d (f lhs) (f val) mut"

primrec map_operands_control :: "('r val \<Rightarrow> 'r val) \<Rightarrow> 'r control_op \<Rightarrow> 'r control_op" where
  "map_operands_control f (AsyncContext d manager ext exception) =
     (case (ext, exception) of (Some x, Some e) \<Rightarrow> AsyncContext d (f manager) (Some (f x)) (Some (f e))
      | _ \<Rightarrow> AsyncContext d (f manager) ext exception)"
| "map_operands_control f (AsyncIter d src nxt) = AsyncIter d (f src) nxt"
| "map_operands_control f (Enter d manager) = Enter d (f manager)"
| "map_operands_control f (BindExit d manager is_async) = BindExit d (f manager) is_async"
| "map_operands_control f (ExitContext d manager ext exception) = ExitContext d (f manager) (f ext) (f exception)"
| "map_operands_control f (DelegateIter d src awaitable) = DelegateIter d (f src) awaitable"
| "map_operands_control f (DelegateStep d inner sent) = DelegateStep d (f inner) (f sent)"
| "map_operands_control f (RaiseWith err val) = RaiseWith err (f val)"
| "map_operands_control f (FinishFrame val) = FinishFrame (f val)"
| "map_operands_control f (FetchException d) = FetchException d"
| "map_operands_control f (ExceptionMatches d val cls) = ExceptionMatches d (f val) (f cls)"
| "map_operands_control f (PushHandled d val) = PushHandled d (f val)"
| "map_operands_control f (PopHandled val) = PopHandled (f val)"
| "map_operands_control f (RaiseObject exception cause) = RaiseObject (f exception) (map_option f cause)"
| "map_operands_control f (Reraise val) = Reraise (f val)"
| "map_operands_control f (LeaveGenerator val) = LeaveGenerator (f val)"
| "map_operands_control f (GetIter d src cursor) = GetIter d (f src) cursor"
| "map_operands_control f (IterNext d it cursor) = IterNext d (f it) cursor"
| "map_operands_control f (StopIterationValue d src) = StopIterationValue d (f src)"
| "map_operands_control f (RaiseStandard err msg) = RaiseStandard err msg"

fun map_operands :: "('r val \<Rightarrow> 'r val) \<Rightarrow> 'r op \<Rightarrow> 'r op" where
  "map_operands f (ScalarOp x) = ScalarOp (map_operands_scalar f x)"
| "map_operands f (PlaceOp x) = PlaceOp (map_operands_place f x)"
| "map_operands f (PatternOp x) = PatternOp (map_operands_pattern f x)"
| "map_operands f (LicenceOp x) = LicenceOp (map_operands_licence f x)"
| "map_operands f (CallOp x) = CallOp (map_operands_call f x)"
| "map_operands f (AttributeOp x) = AttributeOp (map_operands_attribute f x)"
| "map_operands f (NamespaceOp x) = NamespaceOp (map_operands_namespace f x)"
| "map_operands f (ContainerOp x) = ContainerOp (map_operands_container f x)"
| "map_operands f (ArrayOp x) = ArrayOp (map_operands_array f x)"
| "map_operands f (StrOp x) = StrOp (map_operands_str f x)"
| "map_operands f (ControlOp x) = ControlOp (map_operands_control f x)"

section \<open>Loop cursors and unbinding\<close>

fun loop_cursor :: "'r op \<Rightarrow> 'r option" where
  "loop_cursor (ControlOp (GetIter _ _ cursor)) = cursor"
| "loop_cursor (ControlOp (IterNext _ _ cursor)) = cursor"
| "loop_cursor _ = None"

text \<open>Assigning through \<open>loop_cursor_mut\<close>.\<close>

fun map_loop_cursor :: "('r \<Rightarrow> 'r) \<Rightarrow> 'r op \<Rightarrow> 'r op" where
  "map_loop_cursor f (ControlOp (GetIter d src cursor)) =
     ControlOp (GetIter d src (map_option f cursor))"
| "map_loop_cursor f (ControlOp (IterNext d it cursor)) =
     ControlOp (IterNext d it (map_option f cursor))"
| "map_loop_cursor f op = op"

fun unbinds :: "'r op \<Rightarrow> 'r option" where
  "unbinds (PlaceOp (DeleteLocal d)) = Some d"
| "unbinds _ = None"

section \<open>The classes of the module an operation reaches into\<close>

fun named_classes :: "'r op \<Rightarrow> ustr list" where
  "named_classes (PlaceOp (Unbox _ _ ty _)) = instance_classes ty"
| "named_classes (PatternOp (HoldsLayout _ _ cls)) = [cls]"
| "named_classes (LicenceOp (LicenceHolds _ cls _ _)) = [cls]"
| "named_classes (CallOp (CallNative _ own _ _)) = option_list own"
| "named_classes (CallOp (NewInstance _ cls _)) = [cls]"
| "named_classes (CallOp (MakeClosure _ cls _ _)) = [cls]"
| "named_classes (AttributeOp (GetCell _ _ cls _ _)) = [cls]"
| "named_classes (AttributeOp (GetField _ _ cls _)) = [cls]"
| "named_classes (AttributeOp (RequireField _ cls _)) = [cls]"
| "named_classes (AttributeOp (FieldIsSet _ _ cls _)) = [cls]"
| "named_classes (AttributeOp (SetField _ cls _ _ _ _)) = [cls]"
| "named_classes (NamespaceOp (LoadClass _ cls)) = [cls]"
| "named_classes _ = []"

section \<open>Terminators\<close>

fun term_successors :: "'r terminator \<Rightarrow> block_id list" where
  "term_successors (Goto target) = [target]"
| "term_successors (Branch _ then_block else_block) = [then_block, else_block]"
| "term_successors (NarrowShort _ _ fits otherwise) = [fits, otherwise]"
| "term_successors (MachineStep _ _ _ _ fits overflows) = [fits, overflows]"
| "term_successors (Return _) = []"
| "term_successors Unreachable = []"

fun written_on_edge :: "'r terminator \<Rightarrow> ('r \<times> block_id) option" where
  "written_on_edge (NarrowShort d _ fits _) = Some (d, fits)"
| "written_on_edge (MachineStep d _ _ _ fits _) = Some (d, fits)"
| "written_on_edge _ = None"

definition term_dest :: "'r terminator \<Rightarrow> 'r option" where
  "term_dest t = map_option fst (written_on_edge t)"

fun term_operands :: "'r terminator \<Rightarrow> 'r val list" where
  "term_operands (Branch cond _ _) = [cond]"
| "term_operands (Return v) = [v]"
| "term_operands (NarrowShort _ v _ _) = [v]"
| "term_operands (MachineStep _ _ lhs rhs _ _) = [lhs, rhs]"
| "term_operands (Goto _) = []"
| "term_operands Unreachable = []"

text \<open>Assigning through \<open>Terminator::operands_mut\<close> and through \<open>Terminator::successors_mut\<close>.\<close>

fun map_term_operands :: "('r val \<Rightarrow> 'r val) \<Rightarrow> 'r terminator \<Rightarrow> 'r terminator" where
  "map_term_operands f (Branch cond t e) = Branch (f cond) t e"
| "map_term_operands f (Return v) = Return (f v)"
| "map_term_operands f (NarrowShort d v fits otherwise) = NarrowShort d (f v) fits otherwise"
| "map_term_operands f (MachineStep d oper lhs rhs fits overflows) =
     MachineStep d oper (f lhs) (f rhs) fits overflows"
| "map_term_operands f t = t"

fun map_term_successors :: "(block_id \<Rightarrow> block_id) \<Rightarrow> 'r terminator \<Rightarrow> 'r terminator" where
  "map_term_successors g (Goto t) = Goto (g t)"
| "map_term_successors g (Branch cond t e) = Branch cond (g t) (g e)"
| "map_term_successors g (NarrowShort d v fits otherwise) = NarrowShort d v (g fits) (g otherwise)"
| "map_term_successors g (MachineStep d oper lhs rhs fits overflows) =
     MachineStep d oper lhs rhs (g fits) (g overflows)"
| "map_term_successors g t = t"

lemma term_operands_map [simp]: "term_operands (map_term_operands f t) = map f (term_operands t)"
  by (cases t) auto

lemma term_successors_map_operands [simp]:
  "term_successors (map_term_operands f t) = term_successors t"
  by (cases t) auto

lemma term_successors_map [simp]:
  "term_successors (map_term_successors g t) = map g (term_successors t)"
  by (cases t) auto

lemma written_on_edge_map_operands [simp]:
  "written_on_edge (map_term_operands f t) = written_on_edge t"
  by (cases t) auto

section \<open>The laws the analyses rely on\<close>

text \<open>
  \<open>reported\<close> is what the four accessors name between them. \<open>exits_paired\<close> is the one shape
  condition: an \<open>__aexit__\<close> call names its exit and its exception together or neither, which the
  verifier checks, and which the arms of \<open>operands\<close> for \<open>AsyncContext\<close> take for granted.
\<close>

definition reported :: "'r op \<Rightarrow> 'r set" where
  "reported op = set_option (dest op) \<union> (\<Union>v \<in> set (operands op). set_val v)
     \<union> set_option (loop_cursor op) \<union> set_option (unbinds op)"

fun exits_paired :: "'r op \<Rightarrow> bool" where
  "exits_paired (ControlOp (AsyncContext _ _ ext exception)) = ((ext = None) = (exception = None))"
| "exits_paired _ = True"


locale operation_access =
  fixes dest_of :: "'o \<Rightarrow> nat option"
    and operands_of :: "'o \<Rightarrow> nat val list"
    and cursor_of :: "'o \<Rightarrow> nat option"
    and unbinds_of :: "'o \<Rightarrow> nat option"
    and redirect :: "(nat \<Rightarrow> nat) \<Rightarrow> 'o \<Rightarrow> 'o"
    and substitute :: "(nat val \<Rightarrow> nat val) \<Rightarrow> 'o \<Rightarrow> 'o"
    and recurse :: "(nat \<Rightarrow> nat) \<Rightarrow> 'o \<Rightarrow> 'o"
  assumes dest_redirect: "dest_of (redirect f x) = map_option f (dest_of x)"
    and operands_redirect: "operands_of (redirect f x) = operands_of x"
    and cursor_redirect: "cursor_of (redirect f x) = cursor_of x"
    and dest_substitute: "dest_of (substitute g x) = dest_of x"
    and operands_substitute: "operands_of (substitute g x) = map g (operands_of x)"
    and cursor_substitute: "cursor_of (substitute g x) = cursor_of x"
    and dest_recurse: "dest_of (recurse f x) = dest_of x"
    and operands_recurse: "operands_of (recurse f x) = operands_of x"
    and cursor_recurse: "cursor_of (recurse f x) = map_option f (cursor_of x)"
    and unbinds_dest: "unbinds_of x = Some r \<Longrightarrow> dest_of x = Some r"
begin

text \<open>Renaming every register an operation's accessors hand out, in the order passes do it.\<close>

definition rename :: "(nat \<Rightarrow> nat) \<Rightarrow> 'o \<Rightarrow> 'o" where
  "rename f x = substitute (map_val f) (recurse f (redirect f x))"

lemma dest_rename [simp]: "dest_of (rename f x) = map_option f (dest_of x)"
  by (simp add: rename_def dest_redirect dest_substitute dest_recurse)

lemma operands_rename [simp]: "operands_of (rename f x) = map (map_val f) (operands_of x)"
  by (simp add: rename_def operands_redirect operands_substitute operands_recurse)

lemma cursor_rename [simp]: "cursor_of (rename f x) = map_option f (cursor_of x)"
  by (simp add: rename_def cursor_redirect cursor_substitute cursor_recurse)

definition reads :: "'o \<Rightarrow> nat list" where
  "reads x = filter_map register (operands_of x) @ option_list (unbinds_of x)"

lemma reads_reported:
  "set (reads x) \<subseteq> (\<Union>v \<in> set (operands_of x). set_val v) \<union> set_option (dest_of x)"
  by (auto simp: reads_def set_filter_map set_val_register dest: unbinds_dest)

end

section \<open>The laws hold of the operations\<close>

lemma dest_map_dest [bir_access]: "dest (map_dest f op) = map_option f (dest op)"
  by (cases op; rename_tac x; case_tac x; simp)

lemma operands_map_dest [bir_access]: "operands (map_dest f op) = operands op"
  by (cases op; rename_tac x; case_tac x; simp)

lemma dest_map_operands [bir_access]: "dest (map_operands g op) = dest op"
  by (cases op; rename_tac x; case_tac x; simp split: option.split)

lemma operands_map_operands [bir_access]: "operands (map_operands g op) = map g (operands op)"
  by (cases op; rename_tac x; case_tac x; simp add: map_concat o_def split: option.split)

lemma loop_cursor_cases:
  obtains (get) d src cursor where "op = ControlOp (GetIter d src cursor)"
  | (nxt) d it cursor where "op = ControlOp (IterNext d it cursor)"
  | (other) "\<And>f. map_loop_cursor f op = op" "loop_cursor op = None"
  by (cases op rule: loop_cursor.cases) auto

lemma loop_cursor_map_dest [bir_access]: "loop_cursor (map_dest f op) = loop_cursor op"
  by (cases op; rename_tac x; case_tac x; simp)

lemma loop_cursor_map_operands [bir_access]: "loop_cursor (map_operands g op) = loop_cursor op"
  by (cases op; rename_tac x; case_tac x; simp split: option.split)

lemma dest_map_loop_cursor [bir_access]: "dest (map_loop_cursor f op) = dest op"
  by (cases op rule: loop_cursor_cases) auto

lemma operands_map_loop_cursor [bir_access]: "operands (map_loop_cursor f op) = operands op"
  by (cases op rule: loop_cursor_cases) auto

lemma loop_cursor_map_loop_cursor [bir_access]:
  "loop_cursor (map_loop_cursor f op) = map_option f (loop_cursor op)"
  by (cases op rule: loop_cursor_cases) auto

lemma unbinds_dest: "unbinds op = Some r \<Longrightarrow> dest op = Some r"
  by (cases op rule: unbinds.cases) auto

interpretation op_access: operation_access dest operands loop_cursor unbinds
  map_dest map_operands map_loop_cursor
  by unfold_locales (simp_all add: bir_access unbinds_dest)

section \<open>The accessors against the declaration\<close>

lemma mentioned_reported: "exits_paired op \<Longrightarrow> set_op op = reported op"
  unfolding reported_def
  by (cases op; rename_tac x; case_tac x;
      auto simp: set_sound_target_classes split: option.splits)

lemma rename_is_map: "exits_paired op \<Longrightarrow> op_access.rename f op = map_op f op"
  unfolding op_access.rename_def
  by (cases op; rename_tac x; case_tac x;
      auto simp: map_sound_target_classes split: option.splits)

section \<open>Properties\<close>

text \<open>
  Every register an operation mentions is one its accessors report, and they report no other:
  \<open>set_op\<close> is generated from the declaration of the operations and cannot forget a field. The
  hypothesis is the pairing the verifier checks of an \<open>__aexit__\<close> call.
\<close>

theorem accessors_cover_every_register:
  assumes "exits_paired op"
  shows "set_op op = set_option (dest op) \<union> (\<Union>v \<in> set (operands op). set_option (register v))
     \<union> set_option (loop_cursor op) \<union> set_option (unbinds op)"
  using mentioned_reported [OF assms] by (simp add: reported_def set_val_register)

theorem accessors_cover_every_register_witness:
  "set_op (PatternOp (MatchAttr 3 (Register 1) None (Some (Register 2)) 0 1) :: nat op) = {1, 2, 3}"
  using accessors_cover_every_register
    [of "PatternOp (MatchAttr 3 (Register 1) None (Some (Register 2)) 0 1) :: nat op"]
  by auto

text \<open>
  Rewriting an operation through its mutable accessors (its destination, then its loop
  cursor, then its operands) renames every register it mentions: it is the renaming generated
  from the declaration.
\<close>

theorem rewriting_through_accessors_renames:
  fixes op :: "nat op"
  assumes "exits_paired op"
  shows "map_operands (map_val f) (map_loop_cursor f (map_dest f op)) = map_op f op"
  using rename_is_map [OF assms, of f] by (simp add: op_access.rename_def)

theorem rewriting_through_accessors_renames_witness:
  "map_operands (map_val Suc) (map_loop_cursor Suc (map_dest Suc
     (ControlOp (IterNext 4 (Register 5) (Some 6))))) = ControlOp (IterNext 5 (Register 6) (Some 7))"
  using rewriting_through_accessors_renames
    [of "ControlOp (IterNext 4 (Register 5) (Some 6)) :: nat op" Suc]
  by simp

end
