(* ===== verification/BIR_Function.thy ===== *)
theory BIR_Function
  imports BIR_Access
begin

text \<open>
  \<^verbatim>\<open>by_ir/src/function.rs\<close>: registers, blocks, functions, classes and modules, the reads the
  passes make of them, and the C symbols the emitter derives from their names.

  \<open>bir_function\<close> carries every field of the source's \<open>Function\<close>. Of \<open>ClassIr\<close> and \<open>ModuleIr\<close> the
  model carries the fields the modelled operations read.
\<close>

section \<open>Registers and blocks\<close>

record register_decl =
  decl_name :: "ustr option"
  decl_ty :: rtype
  borrowed :: bool
  may_be_unassigned :: bool

record basic_block =
  block_ops :: "nat op list"
  terminator :: "nat terminator"
  owned_at_exit :: "register_id list option"
  block_range :: "(u32 \<times> u32) option"
  block_position :: "position option"
  error_target :: "block_id option"

definition presence_var :: "register_id \<Rightarrow> ustr" where
  "presence_var r = lit ''by_u'' @ decimal r"

text \<open>Every block control can reach from here, the exception edge included.\<close>

definition successors :: "basic_block \<Rightarrow> block_id list" where
  "successors b = term_successors (terminator b) @ option_list (error_target b)"

section \<open>Functions\<close>

datatype defaults_held_by = Twin | Receiver

datatype call_convention = Native | NativeInfallible

fun convention_can_fail :: "call_convention \<Rightarrow> bool" where
  "convention_can_fail Native = True"
| "convention_can_fail NativeInfallible = False"

datatype decorator = Path ustr "ustr list" bool  \<comment> \<open>root, attributes, marks_only\<close>

fun decorator_marking :: "decorator \<Rightarrow> decorator" where
  "decorator_marking (Path root attributes _) = Path root attributes True"

fun marks_only :: "decorator \<Rightarrow> bool" where
  "marks_only (Path _ _ m) = m"

fun decorator_as_name :: "decorator \<Rightarrow> ustr option" where
  "decorator_as_name (Path root attributes _) = (if attributes = [] then Some root else None)"

fun decorator_dotted :: "decorator \<Rightarrow> ustr" where
  "decorator_dotted (Path root attributes _) =
     (if attributes = [] then root else root @ lit ''.'' @ join_with (lit ''.'') attributes)"

datatype binding = BindInstance | BindStatic | BindClass

definition takes_slot_zero_from_self :: "binding \<Rightarrow> bool" where
  "takes_slot_zero_from_self b \<longleftrightarrow> b = BindInstance \<or> b = BindClass"

fun method_flag :: "binding \<Rightarrow> string option" where
  "method_flag BindInstance = None"
| "method_flag BindStatic = Some ''METH_STATIC''"
| "method_flag BindClass = Some ''METH_CLASS''"

record nested_annotations =
  annotation_names :: "ustr list"
  annotation_reader :: "ustr option"
  annotation_factory :: "ustr option"
  annotation_refused :: bool

record nested_name =
  nested_fn_name :: ustr
  nested_qualname :: ustr
  nested_annots :: "nested_annotations option"

record bir_function =
  fn_name :: ustr
  frame_name :: ustr
  param_count :: nat
  ret :: rtype
  convention :: call_convention
  registers :: "register_decl list"
  blocks :: "basic_block list"
  exported :: bool
  owner :: "ustr option"
  vararg :: bool
  kwarg :: bool
  posonly :: nat
  kwonly :: nat
  defaults :: "nat val option list"
  fn_range :: "(u32 \<times> u32) option"
  deferring :: "nat list"
  computed_defaults :: "nat list"
  held_by :: defaults_held_by
  defaults_are_markers :: bool
  decorators :: "decorator list"
  fn_binding :: binding
  coroutine_body :: "ustr option"
  doc :: "ustr option"
  takes_a_weak_reference :: bool
  weak_referents :: "ustr list"
  nested :: "nested_name option"

definition qualify :: "ustr option \<Rightarrow> ustr \<Rightarrow> ustr" where
  "qualify own name = (case own of Some o' \<Rightarrow> o' @ lit ''.'' @ name | None \<Rightarrow> name)"

definition qualified_name :: "bir_function \<Rightarrow> ustr" where
  "qualified_name f = qualify (owner f) (fn_name f)"

definition owner_prefix :: "bir_function \<Rightarrow> ustr" where
  "owner_prefix f = (case owner f of Some own \<Rightarrow> mangle own @ lit ''_'' | None \<Rightarrow> [])"

definition native_symbol :: "bir_function \<Rightarrow> ustr \<Rightarrow> ustr" where
  "native_symbol f module =
     lit ''by_'' @ mangle module @ lit ''_'' @ owner_prefix f @ mangle (fn_name f)"

definition wrapper_symbol :: "bir_function \<Rightarrow> ustr \<Rightarrow> ustr" where
  "wrapper_symbol f module =
     lit ''byw_'' @ mangle module @ lit ''_'' @ owner_prefix f @ mangle (fn_name f)"

definition interpreted_symbol :: "bir_function \<Rightarrow> ustr \<Rightarrow> ustr" where
  "interpreted_symbol f module =
     (case owner f of
        Some own \<Rightarrow> lit ''byi_'' @ mangle module @ lit ''_'' @ mangle own @ lit ''_'' @ mangle (fn_name f)
      | None \<Rightarrow> lit ''byi_'' @ mangle module @ lit ''_'' @ mangle (fn_name f))"

definition twin_default_symbol :: "bir_function \<Rightarrow> ustr \<Rightarrow> nat \<Rightarrow> ustr" where
  "twin_default_symbol f module index = interpreted_symbol f module @ lit ''_d'' @ decimal index"

text \<open>The parameters the definition names, \<open>*args\<close> and \<open>**kwargs\<close> left out.\<close>

definition named_params :: "bir_function \<Rightarrow> nat" where
  "named_params f = param_count f - (of_bool (vararg f) + of_bool (kwarg f))"

fun twin_defaults_from :: "bir_function \<Rightarrow> nat \<Rightarrow> bool \<Rightarrow> nat list \<Rightarrow> nat list" where
  "twin_defaults_from f positional after_default [] = []"
| "twin_defaults_from f positional after_default (i # is) =
     (let computed = i \<in> set (computed_defaults f);
          defaulted = (case get (defaults f) i of Some (Some _) \<Rightarrow> True | _ \<Rightarrow> False);
          here = (if computed \<or> (i < positional \<and> after_default \<and> \<not> defaulted) then [i] else []);
          after' = (after_default \<or> (i < positional \<and> (computed \<or> defaulted)))
      in here @ twin_defaults_from f positional after' is)"

definition twin_defaults :: "bir_function \<Rightarrow> nat list" where
  "twin_defaults f =
     (if held_by f \<noteq> Twin then []
      else twin_defaults_from f (named_params f - kwonly f) False [0..<named_params f])"

definition defers :: "bir_function \<Rightarrow> bool" where
  "defers f \<longleftrightarrow> deferring f \<noteq> [] \<or> twin_defaults f \<noteq> []"

definition is_keyword_only :: "bir_function \<Rightarrow> nat \<Rightarrow> bool" where
  "is_keyword_only f index \<longleftrightarrow>
     index < named_params f \<and> named_params f - kwonly f \<le> index"

text \<open>\<open>Function::params\<close> slices the register table, which panics past its end.\<close>

definition params :: "bir_function \<Rightarrow> register_decl list option" where
  "params f = (if param_count f \<le> length (registers f) then Some (take (param_count f) (registers f))
     else None)"

definition receiver_default_name :: "ustr \<Rightarrow> ustr \<Rightarrow> ustr" where
  "receiver_default_name function parameter = lit ''$default$'' @ function @ lit ''$'' @ parameter"

definition register_at :: "bir_function \<Rightarrow> register_id \<Rightarrow> register_decl option" where
  "register_at f r = get (registers f) r"

definition block_at :: "bir_function \<Rightarrow> block_id \<Rightarrow> basic_block option" where
  "block_at f b = get (blocks f) b"

definition value_type :: "bir_function \<Rightarrow> nat val \<Rightarrow> rtype option" where
  "value_type f v =
     (case v of Register r \<Rightarrow> map_option decl_ty (register_at f r) | other \<Rightarrow> immediate_type other)"

definition names_class :: "bir_function \<Rightarrow> ustr \<Rightarrow> bool" where
  "names_class f cls \<longleftrightarrow>
     cls \<in> set (instance_classes (ret f))
     \<or> (\<exists>decl \<in> set (registers f). cls \<in> set (instance_classes (decl_ty decl)))
     \<or> (\<exists>b \<in> set (blocks f). \<exists>op \<in> set (block_ops b). cls \<in> set (named_classes op))"

definition entry :: block_id where
  "entry = 0"

section \<open>Classes and modules\<close>

record field_decl =
  field_name :: ustr
  field_ty :: rtype
  field_cell :: bool
  field_default :: "nat val option"
  field_optional :: bool
  defaulted_by :: "ustr option"

definition field_generated :: "field_decl \<Rightarrow> bool" where
  "field_generated fd \<longleftrightarrow> 36 \<in> set (field_name fd)"

definition tracks_absence :: "field_decl \<Rightarrow> bool" where
  "tracks_absence fd \<longleftrightarrow> \<not> field_cell fd \<and> \<not> field_generated fd"

definition has_presence_byte :: "field_decl \<Rightarrow> bool" where
  "has_presence_byte fd \<longleftrightarrow>
     field_optional fd
     \<or> (tracks_absence fd \<and> \<not> is_object_reference (field_ty fd) \<and> field_ty fd \<noteq> TInt)"

definition member_prefix :: "field_decl \<Rightarrow> ustr \<Rightarrow> ustr" where
  "member_prefix fd kind =
     lit ''by_'' @ (if field_generated fd then lit ''g'' else []) @ kind @ lit ''_''"

definition field_member :: "field_decl \<Rightarrow> ustr" where
  "field_member fd = member_prefix fd (lit ''f'') @ mangle (field_name fd)"

definition field_presence :: "field_decl \<Rightarrow> ustr" where
  "field_presence fd = member_prefix fd (lit ''p'') @ mangle (field_name fd)"

datatype class_base = InModule ustr | External "ustr list"

fun base_in_module :: "class_base \<Rightarrow> ustr option" where
  "base_in_module (InModule name) = Some name"
| "base_in_module (External _) = None"

fun plain_names :: "class_base \<Rightarrow> ustr list" where
  "plain_names (InModule name) = [name]"
| "plain_names (External paths) = filter (\<lambda>path. 46 \<notin> set path) paths"

record class_ir =
  class_name :: ustr
  immutable :: bool
  class_exported :: bool
  class_base :: "class_base option"
  dataclass :: bool
  class_fields :: "field_decl list"
  class_decorators :: "decorator list"
  methods :: "bir_function list"

definition class_writable :: "class_ir \<Rightarrow> bool" where
  "class_writable c \<longleftrightarrow> \<not> immutable c \<and> class_exported c"

definition checked_after_the_body :: "class_ir \<Rightarrow> bool" where
  "checked_after_the_body c \<longleftrightarrow> class_exported c \<and> class_decorators c = []"

definition records_what_it_bound :: "class_ir \<Rightarrow> bool" where
  "records_what_it_bound c \<longleftrightarrow> dataclass c \<and> class_exported c"

definition struct_name :: "class_ir \<Rightarrow> ustr \<Rightarrow> ustr" where
  "struct_name c module = lit ''By_'' @ mangle module @ lit ''_'' @ mangle (class_name c)"

definition type_name :: "class_ir \<Rightarrow> ustr \<Rightarrow> ustr" where
  "type_name c module =
     lit ''By_'' @ mangle module @ lit ''_'' @ mangle (class_name c) @ lit ''_Type''"

record module_ir =
  mod_functions :: "bir_function list"
  mod_classes :: "class_ir list"

definition all_functions :: "module_ir \<Rightarrow> bir_function list" where
  "all_functions m = mod_functions m @ concat (map methods (mod_classes m))"

text \<open>A pass that assigns through \<open>all_functions_mut\<close>.\<close>

definition map_functions :: "(bir_function \<Rightarrow> bir_function) \<Rightarrow> module_ir \<Rightarrow> module_ir" where
  "map_functions g m =
     m\<lparr>mod_functions := map g (mod_functions m),
       mod_classes := map (\<lambda>c. c\<lparr>methods := map g (methods c)\<rparr>) (mod_classes m)\<rparr>"

lemma all_functions_map_functions: "all_functions (map_functions g m) = map g (all_functions m)"
  by (simp add: all_functions_def map_functions_def map_concat o_def)

section \<open>A module's name\<close>

record mod_name =
  dotted :: ustr
  is_package :: bool

fun split_on :: "nat \<Rightarrow> ustr \<Rightarrow> ustr list" where
  "split_on sep [] = [[]]"
| "split_on sep (c # cs) =
     (if c = sep then [] # split_on sep cs
      else (case split_on sep cs of [] \<Rightarrow> [[c]] | part # parts \<Rightarrow> (c # part) # parts))"

definition last_component :: "mod_name \<Rightarrow> ustr" where
  "last_component m = last (split_on 46 (dotted m))"

definition init_symbol :: "mod_name \<Rightarrow> ustr" where
  "init_symbol m =
     lit ''PyInit_'' @
     map (\<lambda>c. if is_ascii_alphabetic c \<or> is_ascii_digit c then c else underscore) (last_component m)"

text \<open>The directories and the file name of a module's artefact.\<close>

definition relative_path :: "mod_name \<Rightarrow> ustr \<Rightarrow> ustr list" where
  "relative_path m suffix =
     (let directories = filter (\<lambda>component. component \<noteq> []) (split_on 46 (dotted m))
      in if is_package m then directories @ [lit ''__init__'' @ suffix]
         else butlast directories @
              [(if directories = [] then [] else last directories) @ suffix])"

section \<open>Reads of a function\<close>

lemma value_type_Register [simp]:
  "value_type f (Register r) = map_option decl_ty (register_at f r)"
  by (simp add: value_type_def)

lemma value_type_immediate: "register v = None \<Longrightarrow> value_type f v = immediate_type v"
  by (cases v) (simp_all add: value_type_def)

lemma set_successors:
  "set (successors b) = set (term_successors (terminator b)) \<union> set_option (error_target b)"
  by (simp add: successors_def)

section \<open>Symbols\<close>

lemma owner_prefix_splits:
  "owner_prefix f @ mangle (fn_name f) @ x = owner_prefix g @ mangle (fn_name g) @ y \<longleftrightarrow>
     owner f = owner g \<and> fn_name f = fn_name g \<and> x = y
     \<or> (\<exists>own. owner f = Some own \<and> owner g = None \<and> own = fn_name g \<and>
          lit ''_'' @ mangle (fn_name f) @ x = y)
     \<or> (\<exists>own. owner f = None \<and> owner g = Some own \<and> own = fn_name f \<and>
          x = lit ''_'' @ mangle (fn_name g) @ y)"
  by (auto simp: owner_prefix_def bir_render split: option.splits)

lemma interpreted_symbol_alt:
  "interpreted_symbol f module =
     lit ''byi_'' @ mangle module @ lit ''_'' @ owner_prefix f @ mangle (fn_name f)"
  by (simp add: interpreted_symbol_def owner_prefix_def split: option.splits)

lemmas symbol_defs = native_symbol_def wrapper_symbol_def interpreted_symbol_alt

section \<open>Properties\<close>

text \<open>
  Two functions of the same or of different modules are emitted under one native symbol only
  if module, class and name are all the same, and a native symbol is never a wrapper's or the
  handle of an interpreted definition. So a function called \<open>A_b\<close> and the method \<open>b\<close> of a class
  \<open>A\<close> are kept apart.
\<close>

theorem symbols_distinct:
  "(native_symbol f m = native_symbol g n \<longleftrightarrow> m = n \<and> owner f = owner g \<and> fn_name f = fn_name g)
   \<and> (wrapper_symbol f m = wrapper_symbol g n \<longleftrightarrow> m = n \<and> owner f = owner g \<and> fn_name f = fn_name g)
   \<and> (interpreted_symbol f m = interpreted_symbol g n \<longleftrightarrow>
        m = n \<and> owner f = owner g \<and> fn_name f = fn_name g)
   \<and> native_symbol f m \<noteq> wrapper_symbol g n
   \<and> native_symbol f m \<noteq> interpreted_symbol g n
   \<and> wrapper_symbol f m \<noteq> interpreted_symbol g n"
proof -
  have names: "owner_prefix f @ mangle (fn_name f) = owner_prefix g @ mangle (fn_name g) \<longleftrightarrow>
      owner f = owner g \<and> fn_name f = fn_name g"
    using owner_prefix_splits [of f "[]" g "[]"] by auto
  then show ?thesis by (auto simp: symbol_defs bir_render)
qed

text \<open>
  In one instance struct the members of two different fields, and the byte saying whether one
  of them was written, never share a name; and a class's instance struct is never the name of a
  class's type object.
\<close>

theorem struct_members_distinct:
  "(field_member a = field_member b \<longleftrightarrow> field_name a = field_name b)
   \<and> (field_presence a = field_presence b \<longleftrightarrow> field_name a = field_name b)
   \<and> field_member a \<noteq> field_presence b
   \<and> (struct_name c m = struct_name d n \<longleftrightarrow> m = n \<and> class_name c = class_name d)
   \<and> struct_name c m \<noteq> type_name d n"
proof -
  have generated: "field_name a = field_name b \<Longrightarrow> field_generated a = field_generated b"
    by (simp add: field_generated_def)
  show ?thesis
    by (auto simp: field_member_def field_presence_def member_prefix_def struct_name_def
        type_name_def bir_render dest: generated split: if_splits)
qed

end
