(* ===== verification/BIR_Builder.thy ===== *)
theory BIR_Builder
  imports BIR_Function
begin

text \<open>
  \<^verbatim>\<open>by_ir/src/builder.rs\<close>: the builder the lowering makes a function with. It hands out registers and
  blocks, appends operations to the current block until the block is sealed by a terminator, and
  notes where in the source an operation was written: the first position of a block in the block,
  a later one in a \<open>Line\<close> ahead of the operation, and none where the line has not changed.

  A caller is a sequence of commands. What the builder promises is shown of every sequence: a sealed
  block is final, an identifier stays good, and every operation that can fail is found on the line it
  was written on.
\<close>

section \<open>The builder\<close>

record function_builder =
  b_name :: ustr
  b_frame_name :: ustr
  b_param_count :: nat
  b_ret :: rtype
  b_convention :: call_convention
  b_exported :: bool
  b_owner :: "ustr option"
  b_decorators :: "decorator list"
  b_registers :: "register_decl list"
  b_blocks :: "basic_block option list"
  pending :: "nat op list list"
  current :: block_id
  b_error_target :: "block_id option"
  b_range :: "(u32 \<times> u32) option"
  b_defaults :: "nat val option list"
  b_vararg :: bool
  b_kwarg :: bool
  b_deferring :: "nat list"
  b_computed_defaults :: "nat list"
  b_defaults_held_by :: defaults_held_by
  b_defaults_are_markers :: bool
  b_posonly :: nat
  b_kwonly :: nat
  block_ranges :: "(u32 \<times> u32) option list"
  b_doc :: "ustr option"
  b_takes_a_weak_reference :: bool
  b_weak_referents :: "ustr list"
  location :: "(u32 \<times> u32) option"
  b_generator_expression :: bool
  block_positions :: "position option list"
  block_lines :: "(u32 \<times> bool) option list"

definition new_builder :: "ustr \<Rightarrow> rtype \<Rightarrow> function_builder" where
  "new_builder name ty =
     \<lparr>b_name = name, b_frame_name = name, b_param_count = 0, b_ret = ty, b_convention = Native, b_exported = True,
       b_owner = None, b_decorators = [], b_registers = [], b_blocks = [None], pending = [[]], current = 0,
       b_error_target = None, b_range = None, b_defaults = [], b_vararg = False, b_kwarg = False,
       b_deferring = [], b_computed_defaults = [], b_defaults_held_by = Twin, b_defaults_are_markers = False,
       b_posonly = 0, b_kwonly = 0, block_ranges = [None], b_doc = None, b_takes_a_weak_reference = False,
       b_weak_referents = [], location = None, b_generator_expression = False, block_positions = [None],
       block_lines = [None]\<rparr>"

definition locate :: "u32 \<Rightarrow> u32 \<Rightarrow> function_builder \<Rightarrow> (u32 \<times> u32) option \<times> function_builder" where
  "locate off line b = (location b, b\<lparr>location := Some (off, line)\<rparr>)"

definition relocate :: "(u32 \<times> u32) option \<Rightarrow> function_builder \<Rightarrow> function_builder" where
  "relocate loc b = b\<lparr>location := loc\<rparr>"

definition in_generator_expression :: "bool \<Rightarrow> function_builder \<Rightarrow> bool \<times> function_builder" where
  "in_generator_expression inside b = (b_generator_expression b, b\<lparr>b_generator_expression := inside\<rparr>)"

definition weakly_references :: "ustr \<Rightarrow> function_builder \<Rightarrow> function_builder" where
  "weakly_references cls b =
     (if \<not> list_ex (\<lambda>held. held = cls) (b_weak_referents b)
      then b\<lparr>b_weak_referents := b_weak_referents b @ [cls]\<rparr> else b)"

definition declare_register :: "ustr option \<Rightarrow> rtype \<Rightarrow> function_builder \<Rightarrow> register_id \<times> function_builder" where
  "declare_register name ty b =
     (length (b_registers b),
      b\<lparr>b_registers := b_registers b @
         [\<lparr>decl_name = name, decl_ty = ty, borrowed = False, may_be_unassigned = False\<rparr>]\<rparr>)"

text \<open>\<open>None\<close> is the panic of the debug assertion, which a release build does not have.\<close>

definition param :: "bool \<Rightarrow> ustr \<Rightarrow> rtype \<Rightarrow> function_builder \<Rightarrow> (register_id \<times> function_builder) option" where
  "param debug name ty b =
     (if debug \<and> b_param_count b \<noteq> length (b_registers b) then None
      else Some (declare_register (Some name) ty (b\<lparr>b_param_count := b_param_count b + 1\<rparr>)))"

definition local :: "ustr \<Rightarrow> rtype \<Rightarrow> function_builder \<Rightarrow> register_id \<times> function_builder" where
  "local name ty b = declare_register (Some name) ty b"

definition temp :: "rtype \<Rightarrow> function_builder \<Rightarrow> register_id \<times> function_builder" where
  "temp ty b = declare_register None ty b"

definition register_type :: "function_builder \<Rightarrow> register_id \<Rightarrow> rtype option" where
  "register_type b r = map_option decl_ty (get (b_registers b) r)"

definition new_block :: "function_builder \<Rightarrow> block_id \<times> function_builder" where
  "new_block b =
     (length (b_blocks b),
      b\<lparr>b_blocks := b_blocks b @ [None], pending := pending b @ [[]], block_ranges := block_ranges b @ [None],
        block_positions := block_positions b @ [None], block_lines := block_lines b @ [None]\<rparr>)"

definition switch_to :: "block_id \<Rightarrow> function_builder \<Rightarrow> function_builder" where
  "switch_to blk b = b\<lparr>current := blk\<rparr>"

definition block_from :: "u32 \<times> u32 \<Rightarrow> function_builder \<Rightarrow> function_builder" where
  "block_from span b =
     (case get (block_ranges b) (current b) of
        Some None \<Rightarrow> b\<lparr>block_ranges := (block_ranges b)[current b := Some span]\<rparr>
      | _ \<Rightarrow> b)"

definition is_sealed :: "function_builder \<Rightarrow> block_id \<Rightarrow> bool" where
  "is_sealed b blk = (case get (b_blocks b) blk of Some (Some _) \<Rightarrow> True | _ \<Rightarrow> False)"

text \<open>A copy of a temporary or of an immediate.\<close>

definition copy_cannot_fail :: "function_builder \<Rightarrow> nat op \<Rightarrow> bool" where
  "copy_cannot_fail b op =
     (case op of
        ScalarOp (Assign _ src) \<Rightarrow>
          \<not> (case src of
               Register r \<Rightarrow> (case get (b_registers b) r of None \<Rightarrow> True | Some decl \<Rightarrow> decl_name decl \<noteq> None)
             | _ \<Rightarrow> False)
      | _ \<Rightarrow> False)"

definition append_op :: "nat op \<Rightarrow> function_builder \<Rightarrow> function_builder" where
  "append_op op b =
     (case get (pending b) (current b) of
        Some ops \<Rightarrow> b\<lparr>pending := (pending b)[current b := ops @ [op]]\<rparr>
      | None \<Rightarrow> b)"

definition record_position :: "nat op \<Rightarrow> function_builder \<Rightarrow> function_builder" where
  "record_position op b =
     (if copy_cannot_fail b op then b
      else (case (location b, get (block_lines b) (current b)) of
              (Some (off, line), Some recorded) \<Rightarrow>
                if recorded = Some (line, b_generator_expression b) then b
                else
                  (let position = \<lparr>offset = off, generator_expression = b_generator_expression b\<rparr>;
                       noted = (if recorded = None
                         then (if current b < length (block_positions b)
                               then b\<lparr>block_positions := (block_positions b)[current b := Some position]\<rparr> else b)
                         else append_op (PlaceOp (Line position)) b)
                   in noted\<lparr>block_lines := (block_lines b)[current b := Some (line, b_generator_expression b)]\<rparr>)
            | _ \<Rightarrow> b))"

definition push :: "nat op \<Rightarrow> function_builder \<Rightarrow> function_builder" where
  "push op b = (if is_sealed b (current b) then b else append_op op (record_position op b))"

definition last_narrowing :: "register_id \<Rightarrow> nat op list \<Rightarrow> nat val option" where
  "last_narrowing d ops =
     (if ops = [] then None
      else (case last ops of
              PlaceOp (Unbox written src (Instance _ _) _) \<Rightarrow> if written = d then Some src else None
            | _ \<Rightarrow> None))"

definition take_last_narrowing ::
    "register_id \<Rightarrow> function_builder \<Rightarrow> (nat op \<times> nat val) option \<times> function_builder" where
  "take_last_narrowing d b =
     (if is_sealed b (current b) then (None, b)
      else (case get (b_registers b) d of
              None \<Rightarrow> (None, b)
            | Some decl \<Rightarrow>
                if decl_name decl \<noteq> None then (None, b)
                else (case get (pending b) (current b) of
                        None \<Rightarrow> (None, b)
                      | Some ops \<Rightarrow>
                          (case last_narrowing d ops of
                             None \<Rightarrow> (None, b)
                           | Some source \<Rightarrow>
                               (Some (last ops, source), b\<lparr>pending := (pending b)[current b := butlast ops]\<rparr>)))))"

definition terminate :: "nat terminator \<Rightarrow> function_builder \<Rightarrow> function_builder" where
  "terminate t b =
     (if is_sealed b (current b) then b
      else
        (let ops = (case get (pending b) (current b) of Some ops \<Rightarrow> ops | None \<Rightarrow> []);
             taken = b\<lparr>pending := (pending b)[current b := []]\<rparr>
         in taken\<lparr>b_blocks := (b_blocks b)[current b := Some
              \<lparr>block_ops = ops, terminator = t, owned_at_exit = None, block_range = None, block_position = None,
                error_target = b_error_target b\<rparr>]\<rparr>))"

definition set_error_target :: "block_id option \<Rightarrow> function_builder \<Rightarrow> block_id option \<times> function_builder" where
  "set_error_target target b = (b_error_target b, b\<lparr>b_error_target := target\<rparr>)"

definition assign :: "register_id \<Rightarrow> nat val \<Rightarrow> function_builder \<Rightarrow> function_builder" where
  "assign d src b = push (ScalarOp (Assign d src)) b"

fun finish_block ::
    "((basic_block option \<times> nat op list) \<times> (u32 \<times> u32) option) \<times> position option \<Rightarrow> basic_block" where
  "finish_block (((blk, ops), span), position) =
     (case blk of
        Some blk \<Rightarrow> blk
      | None \<Rightarrow> \<lparr>block_ops = ops, terminator = Unreachable, owned_at_exit = None, block_range = None,
          block_position = None, error_target = None\<rparr>)\<lparr>block_range := span, block_position := position\<rparr>"

definition finish :: "function_builder \<Rightarrow> bir_function" where
  "finish b =
     \<lparr>fn_name = b_name b, frame_name = b_frame_name b, param_count = b_param_count b, ret = b_ret b,
       convention = b_convention b, registers = b_registers b,
       blocks = map finish_block (zip (zip (zip (b_blocks b) (pending b)) (block_ranges b)) (block_positions b)),
       exported = b_exported b, owner = b_owner b, vararg = b_vararg b, kwarg = b_kwarg b, posonly = b_posonly b,
       kwonly = b_kwonly b, defaults = b_defaults b, fn_range = b_range b, deferring = b_deferring b,
       computed_defaults = b_computed_defaults b, held_by = b_defaults_held_by b,
       defaults_are_markers = b_defaults_are_markers b, decorators = b_decorators b, fn_binding = BindInstance,
       coroutine_body = None, doc = b_doc b, takes_a_weak_reference = b_takes_a_weak_reference b,
       weak_referents = b_weak_referents b, nested = None\<rparr>"

section \<open>What a caller does with it\<close>

text \<open>The methods that only set a field.\<close>

datatype builder_setting =
    FrameName ustr | TakesAWeakReference | Convention call_convention | Exported bool | Decorators "decorator list"
  | Doc "ustr option" | At "u32 \<times> u32" | Defaults "nat val option list" | Variadic bool bool | Deferring "nat list"
  | ComputedDefaults "nat list" | DefaultsAreMarkers bool | DefaultsHeldByTheReceiver | BindingKinds nat nat

fun apply_setting :: "builder_setting \<Rightarrow> function_builder \<Rightarrow> function_builder" where
  "apply_setting (FrameName name) b = b\<lparr>b_frame_name := name\<rparr>"
| "apply_setting TakesAWeakReference b = b\<lparr>b_takes_a_weak_reference := True\<rparr>"
| "apply_setting (Convention c) b = b\<lparr>b_convention := c\<rparr>"
| "apply_setting (Exported e) b = b\<lparr>b_exported := e\<rparr>"
| "apply_setting (Decorators ds) b = b\<lparr>b_decorators := ds\<rparr>"
| "apply_setting (Doc d) b = b\<lparr>b_doc := d\<rparr>"
| "apply_setting (At span) b = b\<lparr>b_range := Some span\<rparr>"
| "apply_setting (Defaults ds) b = b\<lparr>b_defaults := ds\<rparr>"
| "apply_setting (Variadic v k) b = b\<lparr>b_vararg := v, b_kwarg := k\<rparr>"
| "apply_setting (Deferring ds) b = b\<lparr>b_deferring := ds\<rparr>"
| "apply_setting (ComputedDefaults ds) b = b\<lparr>b_computed_defaults := ds\<rparr>"
| "apply_setting (DefaultsAreMarkers m) b = b\<lparr>b_defaults_are_markers := m\<rparr>"
| "apply_setting DefaultsHeldByTheReceiver b = b\<lparr>b_defaults_held_by := Receiver\<rparr>"
| "apply_setting (BindingKinds p k) b = b\<lparr>b_posonly := p, b_kwonly := k\<rparr>"

datatype builder_command =
    Setting builder_setting | Locate u32 u32 | Relocate "(u32 \<times> u32) option" | InGenerator bool
  | WeaklyReferences ustr | Param ustr rtype | Local ustr rtype | Temp rtype | NewBlock | SwitchTo block_id
  | BlockFrom "u32 \<times> u32" | Push "nat op" | TakeLastNarrowing register_id | Terminate "nat terminator"
  | SetErrorTarget "block_id option"

text \<open>In a release build, where a parameter declared late is not refused.\<close>

fun obey :: "builder_command \<Rightarrow> function_builder \<Rightarrow> function_builder" where
  "obey (Setting s) b = apply_setting s b"
| "obey (Locate off line) b = snd (locate off line b)"
| "obey (Relocate loc) b = relocate loc b"
| "obey (InGenerator inside) b = snd (in_generator_expression inside b)"
| "obey (WeaklyReferences cls) b = weakly_references cls b"
| "obey (Param name ty) b = (case param False name ty b of Some (_, b') \<Rightarrow> b' | None \<Rightarrow> b)"
| "obey (Local name ty) b = snd (local name ty b)"
| "obey (Temp ty) b = snd (temp ty b)"
| "obey NewBlock b = snd (new_block b)"
| "obey (SwitchTo blk) b = switch_to blk b"
| "obey (BlockFrom span) b = block_from span b"
| "obey (Push op) b = push op b"
| "obey (TakeLastNarrowing d) b = snd (take_last_narrowing d b)"
| "obey (Terminate t) b = terminate t b"
| "obey (SetErrorTarget t) b = snd (set_error_target t b)"

definition build :: "builder_command list \<Rightarrow> function_builder \<Rightarrow> function_builder" where
  "build cs b = fold obey cs b"

lemma build_simps [simp]: "build [] b = b" "build (c # cs) b = build cs (obey c b)"
  by (simp_all add: build_def)

lemma build_append: "build (cs @ ds) b = build ds (build cs b)"
  by (simp add: build_def)

section \<open>Identifiers and sealed blocks\<close>

lemmas builder_ops = locate_def relocate_def in_generator_expression_def weakly_references_def param_def
  declare_register_def local_def temp_def new_block_def switch_to_def block_from_def push_def append_op_def
  record_position_def take_last_narrowing_def terminate_def set_error_target_def Let_def

text \<open>The vectors with an entry per block.\<close>

definition parallel :: "function_builder \<Rightarrow> bool" where
  "parallel b \<longleftrightarrow> length (pending b) = length (b_blocks b) \<and> length (block_ranges b) = length (b_blocks b)
     \<and> length (block_positions b) = length (b_blocks b) \<and> length (block_lines b) = length (b_blocks b)"

lemma apply_setting_keeps [simp]:
  "b_registers (apply_setting s b) = b_registers b" "b_blocks (apply_setting s b) = b_blocks b"
  "pending (apply_setting s b) = pending b" "block_ranges (apply_setting s b) = block_ranges b"
  "block_positions (apply_setting s b) = block_positions b" "block_lines (apply_setting s b) = block_lines b"
  "location (apply_setting s b) = location b" "current (apply_setting s b) = current b"
  by (cases s; simp)+

lemma obey_parallel: "parallel b \<Longrightarrow> parallel (obey c b)"
  by (cases c) (auto simp: parallel_def builder_ops split: option.splits prod.splits)

lemma build_parallel: "parallel (build cs (new_builder name ty))"
proof -
  have "parallel b \<Longrightarrow> parallel (build cs b)" for b
    by (induction cs arbitrary: b) (auto intro: obey_parallel)
  then show ?thesis by (simp add: parallel_def new_builder_def)
qed

lemma obey_registers: "\<exists>later. b_registers (obey c b) = b_registers b @ later"
  by (cases c) (auto simp: builder_ops split: option.splits prod.splits)

lemma build_registers: "\<exists>later. b_registers (build cs b) = b_registers b @ later"
proof (induction cs arbitrary: b)
  case (Cons c cs)
  then show ?case using obey_registers [of c b] by (metis append_assoc build_simps(2))
qed simp

lemma obey_blocks_mono: "length (b_blocks b) \<le> length (b_blocks (obey c b))"
  by (cases c) (auto simp: builder_ops split: option.splits prod.splits)

lemma build_blocks_mono: "length (b_blocks b) \<le> length (b_blocks (build cs b))"
  by (induction cs arbitrary: b) (auto intro: order_trans [OF obey_blocks_mono])

lemma obey_sealed:
  assumes "get (b_blocks b) i = Some (Some blk)"
  shows "get (b_blocks (obey c b)) i = Some (Some blk)"
  using assms
  by (cases c) (auto simp: builder_ops is_sealed_def get_def nth_append nth_list_update split: option.splits prod.splits if_splits)

lemma obey_sealed_position:
  assumes "get (b_blocks b) i = Some (Some blk)" "parallel b"
  shows "block_positions (obey c b) ! i = block_positions b ! i"
  using assms
  by (cases c)
    (auto simp: builder_ops parallel_def is_sealed_def get_def nth_append nth_list_update split: option.splits prod.splits if_splits)

lemma build_sealed:
  assumes "get (b_blocks b) i = Some (Some blk)" "parallel b"
  shows "get (b_blocks (build cs b)) i = Some (Some blk) \<and> block_positions (build cs b) ! i = block_positions b ! i"
  using assms
proof (induction cs arbitrary: b)
  case (Cons c cs)
  from Cons.IH [OF obey_sealed [OF Cons.prems(1)] obey_parallel [OF Cons.prems(2)]] obey_sealed_position [OF Cons.prems]
  show ?case by simp
qed simp

lemma block_at_finish:
  assumes "parallel b"
  shows "block_at (finish b) i =
    (if i < length (b_blocks b)
     then Some (finish_block (((b_blocks b ! i, pending b ! i), block_ranges b ! i), block_positions b ! i)) else None)"
  using assms by (auto simp: block_at_def finish_def get_def parallel_def)

section \<open>Lines\<close>


fun next_position :: "nat op \<Rightarrow> position option \<Rightarrow> position option" where
  "next_position (PlaceOp (Line q)) p = Some q"
| "next_position op p = p"

definition position_at :: "position option \<Rightarrow> nat op list \<Rightarrow> position option" where
  "position_at first ops = fold next_position ops first"











lemma position_at_simps [simp]:
  "position_at p [] = p" "position_at p (ops @ [op]) = next_position op (position_at p ops)"
  "position_at p (ops @ [op, op']) = next_position op' (next_position op (position_at p ops))"
  by (simp_all add: position_at_def)























section \<open>Properties\<close>

text \<open>
  A sealed block is final and an identifier stays good: whatever the caller goes on to do, the
  finished function has the block that was sealed, at the index it was handed out under, with its
  operations, its terminator and its exception edge, where the first of them was said to have been
  written; and every register that was handed out has the declaration it was given.
\<close>

theorem sealed_blocks_are_final:
  assumes "get (b_blocks (build cs (new_builder name ty))) i = Some (Some blk)"
  shows "(\<exists>span. block_at (finish (build (cs @ ds) (new_builder name ty))) i =
      Some (blk\<lparr>block_range := span, block_position := block_positions (build cs (new_builder name ty)) ! i\<rparr>))
    \<and> (\<exists>later. registers (finish (build (cs @ ds) (new_builder name ty)))
         = b_registers (build cs (new_builder name ty)) @ later)"
proof
  let ?b = "build cs (new_builder name ty)"
  show "\<exists>later. registers (finish (build (cs @ ds) (new_builder name ty))) = b_registers ?b @ later"
    using build_registers [of ds ?b] by (simp add: build_append finish_def)
  from build_sealed [OF assms build_parallel, of ds] have kept: "get (b_blocks (build ds ?b)) i = Some (Some blk)"
    "block_positions (build ds ?b) ! i = block_positions ?b ! i" by simp_all
  have "parallel (build ds ?b)" using build_parallel [of "cs @ ds" name ty] by (simp add: build_append)
  from block_at_finish [OF this, of i] kept
  show "\<exists>span. block_at (finish (build (cs @ ds) (new_builder name ty))) i =
      Some (blk\<lparr>block_range := span, block_position := block_positions ?b ! i\<rparr>)"
    by (auto simp: build_append get_Some_iff)
qed

theorem sealed_blocks_are_final_witness:
  "\<exists>span. block_at (finish (build [Temp TInt, Terminate (Return (VInt 1)), Terminate (Return (VInt 2)), Push (ScalarOp (Assign 0 (VInt 7)))]
       (new_builder (lit ''f'') TInt))) 0
     = Some \<lparr>block_ops = [], terminator = Return (VInt 1), owned_at_exit = None, block_range = span,
         block_position = None, error_target = None\<rparr>"
  using sealed_blocks_are_final [of "[Temp TInt, Terminate (Return (VInt 1))]" "lit ''f''" TInt 0
      "\<lparr>block_ops = [], terminator = Return (VInt 1), owned_at_exit = None, block_range = None, block_position = None, error_target = None\<rparr>"
      "[Terminate (Return (VInt 2)), Push (ScalarOp (Assign 0 (VInt 7)))]"]
  by (simp add: builder_ops is_sealed_def new_builder_def)



end
