(* ===== verification/BIR_Tarjan.thy ===== *)
theory BIR_Tarjan
  imports BIR_Prelude
begin

text \<open>
  Why Tarjan's search finds the strongly connected components of a graph, apart from how its state
  is stored: \<open>vis\<close> are the nodes met, \<open>ord\<close> the order they were met in, \<open>S\<close> those whose component is
  not decided, \<open>W\<close> the path the search stands on, its end first, \<open>low\<close> the lowest undecided node each
  is known to lead to, and \<open>fol\<close> the edges followed.
\<close>

section \<open>The invariant\<close>

definition owns :: "(nat \<Rightarrow> nat) \<Rightarrow> nat list \<Rightarrow> nat \<Rightarrow> nat \<Rightarrow> bool" where
  "owns ord W w u \<longleftrightarrow> ord w \<le> ord u \<and> (\<forall>w' \<in> set W. ord w < ord w' \<longrightarrow> ord u < ord w')"

definition search_inv ::
    "(nat \<times> nat) set \<Rightarrow> nat set \<Rightarrow> (nat \<Rightarrow> nat) \<Rightarrow> (nat \<Rightarrow> nat) \<Rightarrow> nat set \<Rightarrow> nat list \<Rightarrow> (nat \<Rightarrow> nat set) \<Rightarrow> bool" where
  "search_inv E vis ord low S W fol \<longleftrightarrow>
     S \<subseteq> vis \<and> set W \<subseteq> S \<and> inj_on ord vis \<and> sorted_wrt (\<lambda>u v. ord v < ord u) W
     \<and> (\<forall>u \<in> vis. fol u \<subseteq> vis \<and> fol u \<subseteq> E `` {u}) \<and> (\<forall>u \<in> vis - set W. fol u = E `` {u})
     \<and> (\<forall>u \<in> vis - S. E `` {u} \<subseteq> vis - S)
     \<and> (\<forall>u \<in> S. low u \<le> ord u \<and> (\<exists>v \<in> S. ord v = low u \<and> (u, v) \<in> E\<^sup>*))
     \<and> (\<forall>u \<in> S - set W. low u < ord u)
     \<and> (\<forall>w \<in> set W. \<forall>u \<in> S. ord w \<le> ord u \<longrightarrow> (w, u) \<in> E\<^sup>*)
     \<and> (\<forall>w \<in> set W. \<forall>u \<in> S. owns ord W w u \<longrightarrow> (\<forall>x \<in> fol u \<inter> S. low w \<le> ord x))"

lemma search_invD:
  assumes "search_inv E vis ord low S W fol"
  shows "S \<subseteq> vis" "set W \<subseteq> S" "inj_on ord vis" "sorted_wrt (\<lambda>u v. ord v < ord u) W"
    "\<And>u. u \<in> vis \<Longrightarrow> fol u \<subseteq> vis" "\<And>u. u \<in> vis \<Longrightarrow> fol u \<subseteq> E `` {u}"
    "\<And>u. u \<in> vis \<Longrightarrow> u \<notin> set W \<Longrightarrow> fol u = E `` {u}"
    "\<And>u. u \<in> vis \<Longrightarrow> u \<notin> S \<Longrightarrow> E `` {u} \<subseteq> vis - S"
    "\<And>u. u \<in> S \<Longrightarrow> low u \<le> ord u" "\<And>u. u \<in> S \<Longrightarrow> \<exists>v \<in> S. ord v = low u \<and> (u, v) \<in> E\<^sup>*"
    "\<And>u. u \<in> S \<Longrightarrow> u \<notin> set W \<Longrightarrow> low u < ord u"
    "\<And>w u. w \<in> set W \<Longrightarrow> u \<in> S \<Longrightarrow> ord w \<le> ord u \<Longrightarrow> (w, u) \<in> E\<^sup>*"
    "\<And>w u x. w \<in> set W \<Longrightarrow> u \<in> S \<Longrightarrow> owns ord W w u \<Longrightarrow> x \<in> fol u \<Longrightarrow> x \<in> S \<Longrightarrow> low w \<le> ord x"
  using assms unfolding search_inv_def by blast+

lemma search_invI:
  assumes "S \<subseteq> vis" "set W \<subseteq> S" "inj_on ord vis" "sorted_wrt (\<lambda>u v. ord v < ord u) W"
    and "\<And>u. u \<in> vis \<Longrightarrow> fol u \<subseteq> vis \<and> fol u \<subseteq> E `` {u}"
    and "\<And>u. u \<in> vis \<Longrightarrow> u \<notin> set W \<Longrightarrow> fol u = E `` {u}"
    and "\<And>u. u \<in> vis \<Longrightarrow> u \<notin> S \<Longrightarrow> E `` {u} \<subseteq> vis - S"
    and "\<And>u. u \<in> S \<Longrightarrow> low u \<le> ord u \<and> (\<exists>v \<in> S. ord v = low u \<and> (u, v) \<in> E\<^sup>*)"
    and "\<And>u. u \<in> S \<Longrightarrow> u \<notin> set W \<Longrightarrow> low u < ord u"
    and "\<And>w u. w \<in> set W \<Longrightarrow> u \<in> S \<Longrightarrow> ord w \<le> ord u \<Longrightarrow> (w, u) \<in> E\<^sup>*"
    and "\<And>w u x. w \<in> set W \<Longrightarrow> u \<in> S \<Longrightarrow> owns ord W w u \<Longrightarrow> x \<in> fol u \<Longrightarrow> x \<in> S \<Longrightarrow> low w \<le> ord x"
  shows "search_inv E vis ord low S W fol"
  unfolding search_inv_def by (intro conjI ballI impI) (simp_all add: assms)

lemma search_inv_cong:
  assumes "search_inv E vis ord low S W fol" "\<And>u. u \<in> vis \<Longrightarrow> fol' u = fol u"
  shows "search_inv E vis ord low S W fol'"
  using assms(1) assms(2) subsetD [OF search_invD(1) [OF assms(1)]] unfolding search_inv_def by simp

text \<open>Every undecided node leads to one on the path that was met before it.\<close>

lemma leads_to_path:
  assumes inv: "search_inv E vis ord low S W fol" and "u \<in> S"
  shows "\<exists>w \<in> set W. ord w \<le> ord u \<and> (u, w) \<in> E\<^sup>*"
  using assms(2)
proof (induction "ord u" arbitrary: u rule: less_induct)
  case less
  show ?case
  proof (cases "u \<in> set W")
    case False
    obtain v where v: "v \<in> S" "ord v = low u" "(u, v) \<in> E\<^sup>*" using search_invD(10) [OF inv less.prems] by blast
    moreover from v(2) have "ord v < ord u" using search_invD(11) [OF inv less.prems False] by simp
    ultimately obtain w where "w \<in> set W" "ord w \<le> ord v" "(v, w) \<in> E\<^sup>*" using less.hyps by blast
    with v \<open>ord v < ord u\<close> show ?thesis by (meson less_imp_le order_trans rtrancl_trans)
  qed auto
qed

section \<open>Following an edge\<close>

text \<open>The first node of a search, with nothing left undecided.\<close>

lemma search_root:
  assumes inv: "search_inv E vis ord low {} [] fol" and "t \<notin> vis" "\<And>u. u \<in> vis \<Longrightarrow> ord u < n"
  shows "search_inv E (insert t vis) (ord(t := n)) (low(t := n)) {t} [t] (fol(t := {}))"
proof (rule search_invI)
  show "inj_on (ord(t := n)) (insert t vis)"
    using search_invD(3) [OF inv] assms(2,3) by (auto simp: inj_on_def)
  fix u assume u: "u \<in> insert t vis"
  show "(fol(t := {})) u \<subseteq> insert t vis \<and> (fol(t := {})) u \<subseteq> E `` {u}"
    using u search_invD(5,6) [OF inv] by auto
  show "(fol(t := {})) u = E `` {u}" if "u \<notin> set [t]" using u that search_invD(7) [OF inv] by auto
  show "E `` {u} \<subseteq> insert t vis - {t}" if "u \<notin> {t}" using u that search_invD(8) [OF inv, of u] assms(2) by auto
qed auto

lemma search_visit:
  assumes inv: "search_inv E vis ord low S (v # W) fol" and t: "t \<notin> vis" "(v, t) \<in> E" and n: "\<And>u. u \<in> vis \<Longrightarrow> ord u < n"
  shows "search_inv E (insert t vis) (ord(t := n)) (low(t := n)) (insert t S) (t # v # W)
    (fol(t := {}, v := insert t (fol v)))" (is "search_inv E ?vis ?ord ?low ?S ?W ?fol")
proof (rule search_invI)
  note D = search_invD [OF inv]
  have sub: "S \<subseteq> vis" "set (v # W) \<subseteq> S" "t \<notin> S" "v \<in> S" "v \<in> vis" "v \<noteq> t" using D(1,2) t by auto
  have before: "u \<in> S \<Longrightarrow> ord u < n" for u using n sub(1) by blast
  show "?S \<subseteq> ?vis" "set ?W \<subseteq> ?S" using sub by auto
  show "inj_on ?ord ?vis" using D(3) t(1) n by (auto simp: inj_on_def)
  have "sorted_wrt (\<lambda>u v. ?ord v < ?ord u) (v # W)"
    by (rule sorted_wrt_mono_rel [OF _ D(4)]) (use sub in auto)
  then show "sorted_wrt (\<lambda>u v. ?ord v < ?ord u) ?W" using before sub by auto
  fix u assume u: "u \<in> ?vis"
  show "?fol u \<subseteq> ?vis \<and> ?fol u \<subseteq> E `` {u}" using u D(5,6) sub t by auto
  show "?fol u = E `` {u}" if "u \<notin> set ?W" using u that D(7) by auto
  show "E `` {u} \<subseteq> ?vis - ?S" if "u \<notin> ?S" using u that D(8) [of u] t(1) by auto
next
  note D = search_invD [OF inv]
  have sub: "S \<subseteq> vis" "set (v # W) \<subseteq> S" "t \<notin> S" "v \<in> S" "v \<in> vis" "v \<noteq> t" using D(1,2) t by auto
  have before: "u \<in> S \<Longrightarrow> ord u < n" for u using n sub(1) by blast
  have same: "u \<in> S \<Longrightarrow> u \<noteq> t" for u using sub by auto
  fix u assume u: "u \<in> ?S"
  show "?low u \<le> ?ord u \<and> (\<exists>v \<in> ?S. ?ord v = ?low u \<and> (u, v) \<in> E\<^sup>*)"
  proof (cases "u = t")
    case False
    with u have "u \<in> S" by simp
    from D(9,10) [OF this] False same show ?thesis by fastforce
  qed auto
  show "?low u < ?ord u" if "u \<notin> set ?W" using u that D(11) by auto
  fix w assume w: "w \<in> set ?W"
  show "(w, u) \<in> E\<^sup>*" if le: "?ord w \<le> ?ord u"
  proof (cases "u = t")
    case True
    show ?thesis
    proof (cases "w = t")
      case False
      with w have "w \<in> set (v # W)" by simp
      moreover from this have "ord w \<le> ord v" using D(4) by auto
      ultimately have "(w, v) \<in> E\<^sup>*" using D(12) sub by blast
      with t(2) True show ?thesis by auto
    qed (simp add: True)
  next
    case False
    with u have "u \<in> S" by simp
    moreover from this le before False have "w \<noteq> t" by (auto dest: leD)
    ultimately show ?thesis using D(12) w le False by auto
  qed
  fix x assume own: "owns ?ord ?W w u" and x: "x \<in> ?fol u" "x \<in> ?S"
  show "?low w \<le> ?ord x"
  proof (cases "u = t")
    case False
    then have uS: "u \<in> S" using u by simp
    have wt: "w \<noteq> t" using own before [OF uS] False by (auto simp: owns_def)
    then have wW: "w \<in> set (v # W)" using w by simp
    have own': "owns ord (v # W) w u"
      using own False wt sub unfolding owns_def by (metis fun_upd_other list.set_intros(2) same subsetD)
    show ?thesis
    proof (cases "x = t")
      case True
      have "low w \<le> ord w" using D(9) wW sub by blast
      also have "\<dots> < n" using before wW sub by blast
      finally show ?thesis using True wt by simp
    next
      case False
      with x \<open>u \<noteq> t\<close> have "x \<in> fol u" "x \<in> S" by (auto split: if_splits)
      from D(13) [OF wW uS own' this] wt False show ?thesis by simp
    qed
  qed (use x sub in auto)
qed

lemma search_skip:
  assumes inv: "search_inv E vis ord low S (v # W) fol" and t: "t \<in> vis" "t \<notin> S" "(v, t) \<in> E"
  shows "search_inv E vis ord low S (v # W) (fol(v := insert t (fol v)))"
proof (rule search_invI)
  note D = search_invD [OF inv]
  show "(fol(v := insert t (fol v))) u \<subseteq> vis \<and> (fol(v := insert t (fol v))) u \<subseteq> E `` {u}" if "u \<in> vis" for u
    using D(5,6) [OF that] t by auto
  show "low w \<le> ord x"
    if "w \<in> set (v # W)" "u \<in> S" "owns ord (v # W) w u" "x \<in> (fol(v := insert t (fol v))) u" "x \<in> S" for w u x
    using D(13) [OF that(1-3)] that(4,5) t(2) by (auto split: if_splits)
qed (use search_invD [OF inv] in auto)

lemma search_back:
  assumes inv: "search_inv E vis ord low S (v # W) fol" and t: "t \<in> S" "(v, t) \<in> E"
  shows "search_inv E vis ord (low(v := min (low v) (ord t))) S (v # W) (fol(v := insert t (fol v)))"
proof (rule search_invI)
  note D = search_invD [OF inv]
  have v: "v \<in> S" using D(2) by simp
  show "(fol(v := insert t (fol v))) u \<subseteq> vis \<and> (fol(v := insert t (fol v))) u \<subseteq> E `` {u}" if "u \<in> vis" for u
    using D(5,6) [OF that] t D(1) by auto
  show "(low(v := min (low v) (ord t))) u \<le> ord u \<and> (\<exists>s \<in> S. ord s = (low(v := min (low v) (ord t))) u \<and> (u, s) \<in> E\<^sup>*)"
    if "u \<in> S" for u
    using D(9,10) [OF that] t by (auto simp: min_def)
  show "(low(v := min (low v) (ord t))) w \<le> ord x"
    if w: "w \<in> set (v # W)" "u \<in> S" "owns ord (v # W) w u" and x: "x \<in> (fol(v := insert t (fol v))) u" "x \<in> S" for w u x
  proof (cases "x \<in> fol u")
    case True
    from D(13) [OF w this x(2)] show ?thesis by (auto intro: min.coboundedI1)
  next
    case False
    with x have "u = v" "x = t" by (auto split: if_splits)
    moreover have "w = v"
    proof (rule ccontr)
      assume "w \<noteq> v"
      with w(1) D(4) have "ord w < ord v" by auto
      with w(3) \<open>u = v\<close> show False by (auto simp: owns_def)
    qed
    ultimately show ?thesis by simp
  qed
qed (use search_invD [OF inv] in auto)

section \<open>Leaving a node\<close>

definition lowered :: "nat \<Rightarrow> nat list \<Rightarrow> (nat \<Rightarrow> nat) \<Rightarrow> nat \<Rightarrow> nat" where
  "lowered v W low = (case W of [] \<Rightarrow> low | p # _ \<Rightarrow> low(p := min (low p) (low v)))"

text \<open>The first node of the path is the first of the undecided ones.\<close>

lemma single_first:
  assumes "search_inv E vis ord low S [v] fol" "u \<in> S"
  shows "ord v \<le> ord u"
  using leads_to_path [OF assms] by simp

lemma single_is_root:
  assumes "search_inv E vis ord low S [v] fol"
  shows "low v = ord v"
proof -
  have v: "v \<in> S" using search_invD(2) [OF assms] by simp
  obtain u where "u \<in> S" "ord u = low v" using search_invD(10) [OF assms v] by blast
  with single_first [OF assms] search_invD(9) [OF assms v] show ?thesis by fastforce
qed

text \<open>What the end of the path owns: everything met since.\<close>

lemma end_owns:
  assumes "search_inv E vis ord low S (v # W) fol" "ord v \<le> ord u"
  shows "owns ord (v # W) v u"
proof -
  have "\<not> ord v < ord w'" if "w' \<in> set (v # W)" for w' using that search_invD(4) [OF assms(1)] by auto
  with assms(2) show ?thesis by (simp add: owns_def)
qed

lemma search_keep:
  assumes inv: "search_inv E vis ord low S (v # W) fol" and all: "fol v = E `` {v}" and "low v \<noteq> ord v"
  shows "W \<noteq> [] \<and> search_inv E vis ord (lowered v W low) S W fol"
proof -
  note D = search_invD [OF inv]
  obtain p W' where W: "W = p # W'" using single_is_root inv assms(3) by (cases W) auto
  have v: "v \<in> S" "low v < ord v" using D(2,9) assms(3) by (auto simp: order_neq_le_trans)
  have p: "p \<in> S" "ord p < ord v" "p \<noteq> v" using D(2,4) W by auto
  have low: "lowered v W low u = (if u = p then min (low p) (low v) else low u)" for u by (simp add: lowered_def W)
  have "search_inv E vis ord (lowered v W low) S W fol"
  proof (rule search_invI)
    show "lowered v W low u \<le> ord u \<and> (\<exists>s \<in> S. ord s = lowered v W low u \<and> (u, s) \<in> E\<^sup>*)" if u: "u \<in> S" for u
    proof (cases "u = p \<and> low v < low p")
      case True
      obtain s where "s \<in> S" "ord s = low v" "(v, s) \<in> E\<^sup>*" using D(10) [OF v(1)] by blast
      moreover have "(p, v) \<in> E\<^sup>*" using D(12) [of p v] W p v by simp
      ultimately show ?thesis using True D(9) [OF p(1)] low by (metis less_imp_le min.absorb2 order_trans rtrancl_trans)
    next
      case False
      then have "lowered v W low u = low u" by (auto simp: low)
      with D(9,10) [OF u] show ?thesis by simp
    qed
    show "lowered v W low w \<le> ord x"
      if w: "w \<in> set W" "u \<in> S" "owns ord W w u" and x: "x \<in> fol u" "x \<in> S" for w u x
    proof (cases "ord u < ord v")
      case True
      then have "owns ord (v # W) w u" using w(3) by (simp add: owns_def)
      with D(13) w x have "low w \<le> ord x" by simp
      then show ?thesis by (auto simp: low intro: min.coboundedI1)
    next
      case False
      then have "low v \<le> ord x" using D(13) [of v u x] end_owns [OF inv, of u] w(2) x by simp
      moreover have "w = p"
      proof (rule ccontr)
        assume "w \<noteq> p"
        with w(1) D(4) W have "ord w < ord p" by auto
        with w(3) W have "ord u < ord p" by (simp add: owns_def)
        with p False show False by simp
      qed
      ultimately show ?thesis by (simp add: low)
    qed
    show "fol u = E `` {u}" if "u \<in> vis" "u \<notin> set W" for u using D(7) [OF that(1)] all that(2) by (cases "u = v") auto
    show "lowered v W low u < ord u" if "u \<in> S" "u \<notin> set W" for u
      using D(11) [OF that(1)] that(2) v(2) W by (cases "u = v") (auto simp: lowered_def)
  qed (use D in auto)
  with W show ?thesis by simp
qed

lemma search_pop:
  assumes inv: "search_inv E vis ord low S (v # W) fol" and all: "fol v = E `` {v}" and root: "low v = ord v"
  defines "C \<equiv> {u \<in> S. ord v \<le> ord u}"
  shows "search_inv E vis ord (lowered v W low) (S - C) W fol" "W = [] \<Longrightarrow> S - C = {}"
    "C = {u. (v, u) \<in> E\<^sup>* \<and> (u, v) \<in> E\<^sup>*}"
proof -
  note D = search_invD [OF inv]
  have v: "v \<in> S" using D(2) by simp
  have W: "ord w < ord v" if "w \<in> set W" for w using D(4) that by simp
  have "low p \<le> low v" if "p \<in> set W" for p
    using D(9) [of p] W [OF that] D(2) that root by fastforce
  then have low: "lowered v W low = low" by (auto simp: lowered_def fun_eq_iff split: list.split)
  have closed: "x \<in> vis \<and> x \<notin> S - C" if u: "u \<in> C" and x: "(u, x) \<in> E" for u x
  proof -
    have uS: "u \<in> S" "ord v \<le> ord u" "u \<in> vis" using u D(1) by (auto simp: C_def)
    then have "u \<notin> set W" using W by fastforce
    then have "fol u = E `` {u}" using D(7) [OF uS(3)] all by (cases "u = v") auto
    with x have fol: "x \<in> fol u" by blast
    with D(5) uS have "x \<in> vis" by blast
    moreover have "x \<in> S \<Longrightarrow> ord v \<le> ord x" using D(13) [of v u x] end_owns [OF inv uS(2)] uS fol root by simp
    ultimately show ?thesis by (auto simp: C_def)
  qed
  show "search_inv E vis ord (lowered v W low) (S - C) W fol"
    unfolding low
  proof (rule search_invI)
    show "set W \<subseteq> S - C" using D(2) W by (fastforce simp: C_def)
    show "E `` {u} \<subseteq> vis - (S - C)" if "u \<in> vis" "u \<notin> S - C" for u
      using closed [of u] D(8) [OF that(1)] that by auto
    show "low u \<le> ord u \<and> (\<exists>s \<in> S - C. ord s = low u \<and> (u, s) \<in> E\<^sup>*)" if "u \<in> S - C" for u
    proof -
      obtain s where "s \<in> S" "ord s = low u" "(u, s) \<in> E\<^sup>*" "low u \<le> ord u" using D(9,10) [of u] \<open>u \<in> S - C\<close> by blast
      moreover from this that have "s \<notin> C" by (auto simp: C_def)
      ultimately show ?thesis by blast
    qed
    show "low w \<le> ord x" if "w \<in> set W" "u \<in> S - C" "owns ord W w u" "x \<in> fol u" "x \<in> S - C" for w u x
      using D(13) [of w u x] that by (auto simp: C_def owns_def)
    show "fol u = E `` {u}" if "u \<in> vis" "u \<notin> set W" for u using D(7) [OF that(1)] all that(2) by (cases "u = v") auto
    show "low u < ord u" if "u \<in> S - C" "u \<notin> set W" for u using D(11) [of u] that by (auto simp: C_def)
  qed (use D in auto)
  show "S - C = {}" if "W = []" using single_first inv that by (auto simp: C_def)
  have reach: "x \<in> C \<union> (vis - S)" if "(u, x) \<in> E\<^sup>*" "u \<in> C \<union> (vis - S)" for u x
    using that
  proof (induction rule: rtrancl_induct)
    case (step y z)
    then show ?case using closed [of y z] D(8) [of y] by (auto simp: C_def)
  qed
  show "C = {u. (v, u) \<in> E\<^sup>* \<and> (u, v) \<in> E\<^sup>*}"
  proof (intro equalityI subsetI CollectI conjI)
    fix u assume u: "u \<in> C"
    then have uS: "u \<in> S" "ord v \<le> ord u" by (auto simp: C_def)
    show "(v, u) \<in> E\<^sup>*" using D(12) [of v u] uS by simp
    obtain w where w: "w \<in> set (v # W)" "(u, w) \<in> E\<^sup>*" using leads_to_path [OF inv uS(1)] by blast
    have "w \<in> C" using reach [OF w(2)] u w(1) D(2) by auto
    with w(1) W have "w = v" by (fastforce simp: C_def)
    with w show "(u, v) \<in> E\<^sup>*" by simp
  next
    fix u assume u: "u \<in> {u. (v, u) \<in> E\<^sup>* \<and> (u, v) \<in> E\<^sup>*}"
    have "v \<in> C" using v by (simp add: C_def)
    with reach u have "u \<in> C \<union> (vis - S)" by blast
    moreover have "x \<in> vis - S" if "(u, x) \<in> E\<^sup>*" "u \<in> vis - S" for x
      using that by (induction rule: rtrancl_induct) (use D(8) in auto)
    then have "u \<notin> vis - S" using u v by blast
    ultimately show "u \<in> C" by blast
  qed
qed

end
