(* ===== verification/BIR_CallGraph.thy ===== *)
theory BIR_CallGraph
  imports BIR_Tarjan BIR_Function
begin

text \<open>
  \<^verbatim>\<open>by_ir/src/call_graph.rs\<close>: which functions of a module lie on a cycle of native calls. The components
  of the call graph are found with Tarjan's algorithm, the recursion kept on an explicit path. The
  sentinel \<open>usize::MAX\<close> of a node that has not been met is \<open>None\<close>.
\<close>

section \<open>Strongly connected components\<close>

record tarjan =
  t_order :: "nat option list"
  t_low :: "nat list"
  t_on_stack :: "bool list"
  t_stack :: "nat list"  \<comment> \<open>the top first\<close>
  t_components :: "nat list list"
  t_next :: nat
  t_walk :: "(nat \<times> nat) list"  \<comment> \<open>a node and how many of its edges have been followed, the end of the path first\<close>

definition meet :: "nat \<Rightarrow> (nat \<times> nat) list \<Rightarrow> tarjan \<Rightarrow> tarjan" where
  "meet v path s = s\<lparr>t_order := (t_order s)[v := Some (t_next s)], t_low := (t_low s)[v := t_next s],
     t_next := t_next s + 1, t_stack := v # t_stack s, t_on_stack := (t_on_stack s)[v := True],
     t_walk := (v, 0) # path\<rparr>"

text \<open>Taking a component off the stack, down to its node.\<close>

fun pop_until :: "nat \<Rightarrow> nat list \<Rightarrow> bool list \<Rightarrow> nat list \<Rightarrow> nat list \<times> nat list \<times> bool list" where
  "pop_until v [] on_stack component = (component, [], on_stack)"
| "pop_until v (member # stack) on_stack component =
     (let on_stack' = on_stack[member := False]; component' = component @ [member]
      in if member = v then (component', stack, on_stack') else pop_until v stack on_stack' component')"

definition follow :: "nat list list \<Rightarrow> nat \<Rightarrow> nat \<Rightarrow> (nat \<times> nat) list \<Rightarrow> nat \<Rightarrow> tarjan \<Rightarrow> tarjan" where
  "follow edges v k rest target s =
     (let path = (v, k + 1) # rest
      in case t_order s ! target of
           None \<Rightarrow> meet target path s
         | Some n \<Rightarrow>
             if t_on_stack s ! target
             then s\<lparr>t_walk := path, t_low := (t_low s)[v := min (t_low s ! v) n]\<rparr>
             else s\<lparr>t_walk := path\<rparr>)"

definition leave_node :: "nat \<Rightarrow> (nat \<times> nat) list \<Rightarrow> tarjan \<Rightarrow> tarjan" where
  "leave_node v rest s =
     (let s1 = s\<lparr>t_walk := rest,
          t_low := (case rest of [] \<Rightarrow> t_low s
            | (parent, _) # _ \<Rightarrow> (t_low s)[parent := min (t_low s ! parent) (t_low s ! v)])\<rparr>
      in if Some (t_low s1 ! v) = t_order s1 ! v
         then (case pop_until v (t_stack s1) (t_on_stack s1) [] of
                 (component, stack, on_stack) \<Rightarrow>
                   s1\<lparr>t_stack := stack, t_on_stack := on_stack, t_components := t_components s1 @ [component]\<rparr>)
         else s1)"

definition walk_step :: "nat list list \<Rightarrow> tarjan \<Rightarrow> tarjan" where
  "walk_step edges s =
     (case t_walk s of
        [] \<Rightarrow> s
      | (v, k) # rest \<Rightarrow>
          (case get (edges ! v) k of
             Some target \<Rightarrow> follow edges v k rest target s
           | None \<Rightarrow> leave_node v rest s))"

definition walk_from :: "nat list list \<Rightarrow> nat \<Rightarrow> tarjan \<Rightarrow> tarjan option" where
  "walk_from edges root s =
     (if t_order s ! root \<noteq> None then Some s
      else while_option (\<lambda>s. t_walk s \<noteq> []) (walk_step edges) (meet root [] s))"

primrec walk_roots :: "nat list list \<Rightarrow> nat list \<Rightarrow> tarjan \<Rightarrow> tarjan option" where
  "walk_roots edges [] s = Some s"
| "walk_roots edges (root # roots) s =
     (case walk_from edges root s of None \<Rightarrow> None | Some s' \<Rightarrow> walk_roots edges roots s')"

definition first_tarjan :: "nat \<Rightarrow> tarjan" where
  "first_tarjan n = \<lparr>t_order = replicate n None, t_low = replicate n 0, t_on_stack = replicate n False, t_stack = [],
     t_components = [], t_next = 0, t_walk = []\<rparr>"

definition strongly_connected :: "nat list list \<Rightarrow> nat list list option" where
  "strongly_connected edges =
     map_option t_components (walk_roots edges [0..<length edges] (first_tarjan (length edges)))"

section \<open>Recursive functions\<close>

text \<open>A \<open>HashMap\<close> collected from pairs keeps the last of two with one key.\<close>

definition function_index :: "module_ir \<Rightarrow> ustr \<rightharpoonup> nat" where
  "function_index m = map_of (rev (zip (map qualified_name (all_functions m)) [0..<length (all_functions m)]))"

fun native_callee :: "nat op \<Rightarrow> ustr option" where
  "native_callee (CallOp (CallNative _ own callee _)) = Some (qualify own callee)"
| "native_callee op = None"

definition callees :: "(ustr \<rightharpoonup> nat) \<Rightarrow> bir_function \<Rightarrow> nat list" where
  "callees index f =
     sorted_list_of_set (set (filter_map (\<lambda>op. Option.bind (native_callee op) index) (concat (map block_ops (blocks f)))))"

definition call_edges :: "module_ir \<Rightarrow> nat list list" where
  "call_edges m = map (callees (function_index m)) (all_functions m)"

definition on_a_cycle :: "nat list list \<Rightarrow> nat list \<Rightarrow> bool" where
  "on_a_cycle edges component = (case component of [only] \<Rightarrow> only \<in> set (edges ! only) | _ \<Rightarrow> True)"

definition recursive_functions :: "module_ir \<Rightarrow> ustr set option" where
  "recursive_functions m =
     map_option (\<lambda>components. \<Union>component \<in> set components.
         if on_a_cycle (call_edges m) component
         then (\<lambda>at. qualified_name (all_functions m ! at)) ` set component else {})
       (strongly_connected (call_edges m))"

section \<open>The invariant of the search\<close>

definition graph_of :: "nat list list \<Rightarrow> (nat \<times> nat) set" where
  "graph_of edges = {(u, x). u < length edges \<and> x \<in> set (edges ! u)}"

definition in_range :: "nat list list \<Rightarrow> bool" where
  "in_range edges \<longleftrightarrow> list_all (list_all (\<lambda>x. x < length edges)) edges"

definition component_of :: "(nat \<times> nat) set \<Rightarrow> nat \<Rightarrow> nat set" where
  "component_of E v = {u. (v, u) \<in> E\<^sup>* \<and> (u, v) \<in> E\<^sup>*}"

definition met :: "tarjan \<Rightarrow> nat set" where
  "met s = {v. v < length (t_order s) \<and> t_order s ! v \<noteq> None}"

definition number :: "tarjan \<Rightarrow> nat \<Rightarrow> nat" where
  "number s v = the (t_order s ! v)"

definition followed :: "nat list list \<Rightarrow> tarjan \<Rightarrow> nat \<Rightarrow> nat set" where
  "followed edges s v = set (case map_of (t_walk s) v of Some k \<Rightarrow> take k (edges ! v) | None \<Rightarrow> edges ! v)"

definition components_ok :: "nat list list \<Rightarrow> nat list list \<Rightarrow> nat set \<Rightarrow> bool" where
  "components_ok edges cs decided \<longleftrightarrow> set (concat cs) = decided \<and> distinct (concat cs)
     \<and> (\<forall>c \<in> set cs. c \<noteq> [] \<and> (\<forall>v \<in> set c. set c = component_of (graph_of edges) v))"

definition tarjan_ok :: "nat list list \<Rightarrow> tarjan \<Rightarrow> bool" where
  "tarjan_ok edges s \<longleftrightarrow>
     length (t_order s) = length edges \<and> length (t_low s) = length edges \<and> length (t_on_stack s) = length edges
     \<and> search_inv (graph_of edges) (met s) (number s) (\<lambda>v. t_low s ! v) (set (t_stack s)) (map fst (t_walk s)) (followed edges s)
     \<and> sorted_wrt (\<lambda>u v. number s v < number s u) (t_stack s)
     \<and> (\<forall>v < length edges. t_on_stack s ! v \<longleftrightarrow> v \<in> set (t_stack s))
     \<and> (\<forall>v \<in> met s. number s v < t_next s)
     \<and> (\<forall>(v, k) \<in> set (t_walk s). k \<le> length (edges ! v))
     \<and> components_ok edges (t_components s) (met s - set (t_stack s))
     \<and> (t_walk s = [] \<longrightarrow> t_stack s = [])"

lemma tarjan_okD:
  assumes "tarjan_ok edges s"
  shows "length (t_order s) = length edges" "length (t_low s) = length edges" "length (t_on_stack s) = length edges"
    "search_inv (graph_of edges) (met s) (number s) (\<lambda>v. t_low s ! v) (set (t_stack s)) (map fst (t_walk s)) (followed edges s)"
    "sorted_wrt (\<lambda>u v. number s v < number s u) (t_stack s)"
    "\<And>v. v < length edges \<Longrightarrow> t_on_stack s ! v \<longleftrightarrow> v \<in> set (t_stack s)"
    "\<And>v. v \<in> met s \<Longrightarrow> number s v < t_next s"
    "\<And>v k. (v, k) \<in> set (t_walk s) \<Longrightarrow> k \<le> length (edges ! v)"
    "components_ok edges (t_components s) (met s - set (t_stack s))" "t_walk s = [] \<Longrightarrow> t_stack s = []"
  using assms unfolding tarjan_ok_def by auto

lemma tarjan_okI:
  assumes "length (t_order s) = length edges" "length (t_low s) = length edges" "length (t_on_stack s) = length edges"
    and "search_inv (graph_of edges) (met s) (number s) ((!) (t_low s)) (set (t_stack s)) (map fst (t_walk s)) (followed edges s)"
    and "sorted_wrt (\<lambda>u v. number s v < number s u) (t_stack s)"
    and "\<And>v. v < length edges \<Longrightarrow> t_on_stack s ! v \<longleftrightarrow> v \<in> set (t_stack s)"
    and "\<And>v. v \<in> met s \<Longrightarrow> number s v < t_next s"
    and "\<And>v k. (v, k) \<in> set (t_walk s) \<Longrightarrow> k \<le> length (edges ! v)"
    and "components_ok edges (t_components s) (met s - set (t_stack s))" "t_walk s = [] \<Longrightarrow> t_stack s = []"
  shows "tarjan_ok edges s"
  using assms unfolding tarjan_ok_def by auto

lemma met_range: "tarjan_ok edges s \<Longrightarrow> v \<in> met s \<Longrightarrow> v < length edges"
  by (auto simp: met_def tarjan_ok_def)

lemma stack_met: "tarjan_ok edges s \<Longrightarrow> v \<in> set (t_stack s) \<Longrightarrow> v \<in> met s"
  using search_invD(1) [OF tarjan_okD(4)] by blast

lemma walk_stacked: "tarjan_ok edges s \<Longrightarrow> (v, k) \<in> set (t_walk s) \<Longrightarrow> v \<in> set (t_stack s)"
  using search_invD(2) [OF tarjan_okD(4), of edges s] by force

lemma meet_access [simp]:
  "t_components (meet v path s) = t_components s" "t_stack (meet v path s) = v # t_stack s"
  "t_walk (meet v path s) = (v, 0) # path" "t_next (meet v path s) = t_next s + 1"
  "t_on_stack (meet v path s) = (t_on_stack s)[v := True]" "t_low (meet v path s) = (t_low s)[v := t_next s]"
  "t_order (meet v path s) = (t_order s)[v := Some (t_next s)]"
  by (simp_all add: meet_def)

lemma met_number_update [simp]:
  "met (s\<lparr>t_walk := w\<rparr>) = met s" "met (s\<lparr>t_low := l\<rparr>) = met s" "met (s\<lparr>t_stack := st\<rparr>) = met s"
  "met (s\<lparr>t_on_stack := on\<rparr>) = met s" "met (s\<lparr>t_components := cs\<rparr>) = met s"
  "number (s\<lparr>t_walk := w\<rparr>) = number s" "number (s\<lparr>t_low := l\<rparr>) = number s" "number (s\<lparr>t_stack := st\<rparr>) = number s"
  "number (s\<lparr>t_on_stack := on\<rparr>) = number s" "number (s\<lparr>t_components := cs\<rparr>) = number s"
  by (simp_all add: met_def number_def fun_eq_iff)

lemma met_meet: "v < length (t_order s) \<Longrightarrow> met (meet v path s) = insert v (met s)"
  by (auto simp: met_def nth_list_update)

lemma number_meet: "v < length (t_order s) \<Longrightarrow> number (meet v path s) = (number s)(v := t_next s)"
  by (auto simp: number_def fun_eq_iff)

lemma low_update: "v < length xs \<Longrightarrow> (!) (xs[v := n]) = ((!) xs)(v := n)"
  by (auto simp: fun_eq_iff)

text \<open>Meeting a node, given what it does to the abstract search.\<close>

lemma meet_ok:
  assumes ok: "tarjan_ok edges s" and v: "v < length edges" "t_order s ! v = None"
    and inv: "search_inv (graph_of edges) (insert v (met s)) ((number s)(v := t_next s)) (((!) (t_low s))(v := t_next s))
      (insert v (set (t_stack s))) (v # map fst path) (followed edges (meet v path s))"
    and path: "\<And>u k. (u, k) \<in> set path \<Longrightarrow> k \<le> length (edges ! u)"
  shows "tarjan_ok edges (meet v path s)"
proof -
  note D = tarjan_okD [OF ok]
  have fresh: "v \<notin> met s" using v by (simp add: met_def)
  then have unstacked: "v \<notin> set (t_stack s)" using stack_met [OF ok] by blast
  have before: "u \<in> set (t_stack s) \<Longrightarrow> number s u < t_next s" for u using D(7) stack_met [OF ok] by blast
  have "sorted_wrt (\<lambda>u w. ((number s)(v := t_next s)) w < ((number s)(v := t_next s)) u) (t_stack s)"
    by (rule sorted_wrt_mono_rel [OF _ D(5)]) (use unstacked in auto)
  moreover have "insert v (met s) - insert v (set (t_stack s)) = met s - set (t_stack s)" using fresh by auto
  moreover have "search_inv (graph_of edges) (met (meet v path s)) (number (meet v path s)) ((!) (t_low (meet v path s)))
      (set (t_stack (meet v path s))) (map fst (t_walk (meet v path s))) (followed edges (meet v path s))"
    using inv v D(1,2) by (simp add: met_meet number_meet low_update)
  ultimately show ?thesis
    using D v path before unstacked
    by (intro tarjan_okI) (auto simp: met_meet number_meet nth_list_update less_SucI)
qed

lemma graph_ofI: "u < length edges \<Longrightarrow> x \<in> set (edges ! u) \<Longrightarrow> (u, x) \<in> graph_of edges"
  by (simp add: graph_of_def)

lemma graph_of_image: "u < length edges \<Longrightarrow> graph_of edges `` {u} = set (edges ! u)"
  by (auto simp: graph_of_def)

lemma descending_distinct: "sorted_wrt (\<lambda>u v. f v < f u) xs \<Longrightarrow> distinct xs" for f :: "'a \<Rightarrow> nat"
  by (induction xs) auto

lemma walk_distinct: "tarjan_ok edges s \<Longrightarrow> distinct (map fst (t_walk s))"
  using search_invD(4) [OF tarjan_okD(4)] by (rule descending_distinct)

lemma root_ok:
  assumes ok: "tarjan_ok edges s" and v: "v < length edges" "t_order s ! v = None" and "t_walk s = []"
  shows "tarjan_ok edges (meet v [] s)"
proof (rule meet_ok [OF ok v])
  note D = tarjan_okD [OF ok]
  have inv: "search_inv (graph_of edges) (met s) (number s) (\<lambda>u. t_low s ! u) {} [] (followed edges s)"
    using D(4,10) assms(4) by simp
  have "followed edges (meet v [] s) = (followed edges s)(v := {})"
    using assms(4) by (auto simp: followed_def fun_eq_iff)
  moreover have "v \<notin> met s" using v by (simp add: met_def)
  ultimately show "search_inv (graph_of edges) (insert v (met s)) ((number s)(v := t_next s)) (((!) (t_low s))(v := t_next s))
      (insert v (set (t_stack s))) (v # map fst []) (followed edges (meet v [] s))"
    using search_root [OF inv _ D(7)] D(10) assms(4) by simp
qed simp

lemma followed_advance:
  assumes "t_walk s = (v, k) # rest" "get (edges ! v) k = Some target" "t_walk s' = (v, Suc k) # rest"
  shows "followed edges s' = (followed edges s)(v := insert target (followed edges s v))"
proof -
  have "take (Suc k) (edges ! v) = take k (edges ! v) @ [target]"
    using assms(2) by (auto simp: get_Some_iff take_Suc_conv_app_nth)
  with assms show ?thesis by (auto simp: followed_def fun_eq_iff)
qed

lemma follow_ok:
  assumes ok: "tarjan_ok edges s" and range: "in_range edges"
    and walk: "t_walk s = (v, k) # rest" and target: "get (edges ! v) k = Some target"
  shows "tarjan_ok edges (follow edges v k rest target s)"
proof -
  note D = tarjan_okD [OF ok]
  let ?path = "(v, Suc k) # rest"
  have v: "v \<in> set (t_stack s)" "v \<in> met s" "v < length edges"
    using walk_stacked [OF ok, of v k] stack_met [OF ok] met_range [OF ok] walk by auto
  have t: "target \<in> set (edges ! v)" using target get_SomeD by metis
  then have edge: "(v, target) \<in> graph_of edges" and tl: "target < length edges"
    using v(3) range by (auto intro: graph_ofI simp: in_range_def list_all_iff)
  have frames: "(u, j) \<in> set ?path \<Longrightarrow> j \<le> length (edges ! u)" for u j
    using D(8) walk target by (auto simp: get_Some_iff)
  note inv = D(4) [unfolded walk, simplified]
  have path: "followed edges s' = (followed edges s)(v := insert target (followed edges s v))" if "t_walk s' = ?path" for s'
    by (rule followed_advance [OF walk target that])
  show ?thesis
  proof (cases "t_order s ! target")
    case None
    then have fresh: "target \<notin> met s" by (simp add: met_def)
    have "followed edges (meet target ?path s) = (followed edges (s\<lparr>t_walk := ?path\<rparr>))(target := {})"
      by (auto simp: followed_def fun_eq_iff)
    also have "\<dots> = (followed edges s)(target := {}, v := insert target (followed edges s v))"
      using path [of "s\<lparr>t_walk := ?path\<rparr>"] fresh v(2) by (auto simp: fun_eq_iff)
    finally show ?thesis
      using search_visit [OF inv fresh edge D(7)] None frames
      by (simp add: follow_def) (rule meet_ok [OF ok tl None], simp_all)
  next
    case (Some n)
    then have met: "target \<in> met s" "number s target = n" using tl D(1) by (auto simp: met_def number_def)
    show ?thesis
    proof (cases "t_on_stack s ! target")
      case True
      then have "target \<in> set (t_stack s)" using D(6) [OF tl] by simp
      from search_back [OF inv this edge] show ?thesis
        using True Some D frames met v(3)
        by (simp add: follow_def) (rule tarjan_okI, simp_all add: low_update path)
    next
      case False
      then have "target \<notin> set (t_stack s)" using D(6) [OF tl] by simp
      from search_skip [OF inv met(1) this edge] show ?thesis
        using False Some D frames
        by (simp add: follow_def) (rule tarjan_okI, simp_all add: path)
    qed
  qed
qed

section \<open>Deciding a component\<close>

lemma pop_until_split:
  assumes "v \<notin> set xs"
  shows "pop_until v (xs @ v # ys) on_stack component =
    (component @ xs @ [v], ys, fold (\<lambda>m on. on[m := False]) (xs @ [v]) on_stack)"
  using assms by (induction xs arbitrary: on_stack component) (auto simp: Let_def)

lemma length_fold_clear [simp]: "length (fold (\<lambda>m on. on[m := False]) ms on) = length on"
  by (induction ms arbitrary: on) auto

lemma nth_fold_clear: "v < length on \<Longrightarrow> fold (\<lambda>m on. on[m := False]) ms on ! v \<longleftrightarrow> on ! v \<and> v \<notin> set ms"
proof (induction ms arbitrary: on)
  case (Cons m ms)
  then show ?case by (cases "m = v") simp_all
qed simp

lemma components_ok_snoc:
  assumes "components_ok edges cs decided" "c \<noteq> []" "distinct c" "set c \<inter> decided = {}"
    and "\<And>v. v \<in> set c \<Longrightarrow> set c = component_of (graph_of edges) v"
  shows "components_ok edges (cs @ [c]) (decided \<union> set c)"
  using assms by (auto simp: components_ok_def)

lemma component_of_same: "u \<in> component_of E v \<Longrightarrow> component_of E u = component_of E v"
  by (auto simp: component_of_def intro: rtrancl_trans)

text \<open>The end of a path is left when all its edges have been followed.\<close>

lemma followed_leave:
  assumes ok: "tarjan_ok edges s" and walk: "t_walk s = (v, k) # rest" and "get (edges ! v) k = None" and "t_walk s' = rest"
  shows "followed edges s' = followed edges s" "followed edges s v = graph_of edges `` {v}"
proof -
  have k: "take k (edges ! v) = edges ! v" using assms(3) by (simp add: get_None_iff)
  have "v \<notin> fst ` set rest" using walk_distinct [OF ok] walk by simp
  then have "map_of rest v = None" by (simp add: map_of_eq_None_iff)
  with k walk assms(4) show "followed edges s' = followed edges s" by (auto simp: followed_def fun_eq_iff)
  have "v < length edges" using met_range [OF ok stack_met [OF ok walk_stacked [OF ok, of v k]]] walk by simp
  with k walk show "followed edges s v = graph_of edges `` {v}" by (simp add: followed_def graph_of_image)
qed

definition lower_parent :: "nat \<Rightarrow> (nat \<times> nat) list \<Rightarrow> nat list \<Rightarrow> nat list" where
  "lower_parent v rest low = (case rest of [] \<Rightarrow> low | (parent, _) # _ \<Rightarrow> low[parent := min (low ! parent) (low ! v)])"

lemma lower_parent_lowered:
  assumes "tarjan_ok edges s" "t_walk s = (v, k) # rest"
  shows "(!) (lower_parent v rest (t_low s)) = lowered v (map fst rest) ((!) (t_low s))"
    "length (lower_parent v rest (t_low s)) = length edges" "lower_parent v rest (t_low s) ! v = t_low s ! v"
proof -
  have "fst ` set rest \<subseteq> {..<length edges}" "v \<notin> fst ` set rest"
    using assms walk_stacked [OF assms(1)] met_range [OF assms(1)] stack_met [OF assms(1)] walk_distinct [OF assms(1)] by force+
  with tarjan_okD(2) [OF assms(1)] show "(!) (lower_parent v rest (t_low s)) = lowered v (map fst rest) ((!) (t_low s))"
    "length (lower_parent v rest (t_low s)) = length edges" "lower_parent v rest (t_low s) ! v = t_low s ! v"
    by (cases rest; auto simp: lower_parent_def lowered_def low_update split: prod.splits)+
qed

text \<open>What is popped is what has been met since the node, and what is left was met before it.\<close>

lemma stack_split:
  fixes f :: "nat \<Rightarrow> nat"
  assumes "sorted_wrt (\<lambda>u v. f v < f u) stack" "v \<in> set stack"
  obtains xs ys where "stack = xs @ v # ys" "v \<notin> set xs" "set (xs @ [v]) = {u \<in> set stack. f v \<le> f u}"
    "set ys = set stack - {u \<in> set stack. f v \<le> f u}" "sorted_wrt (\<lambda>u v. f v < f u) ys" "distinct (xs @ [v])"
proof -
  obtain xs ys where split: "stack = xs @ v # ys" "v \<notin> set xs" using split_list_first [OF assms(2)] by blast
  from assms(1) have "\<forall>u \<in> set xs. f v < f u" "\<forall>u \<in> set ys. f u < f v" "sorted_wrt (\<lambda>u v. f v < f u) ys"
    "distinct (xs @ [v])"
    using descending_distinct [OF assms(1)] by (auto simp: split(1) sorted_wrt_append)
  moreover from this have "set (xs @ [v]) = {u \<in> set stack. f v \<le> f u}" "set ys = set stack - {u \<in> set stack. f v \<le> f u}"
    by (auto simp: split(1) dest: less_imp_le leD)
  ultimately show thesis using that split by blast
qed

lemma leave_ok:
  assumes ok: "tarjan_ok edges s" and walk: "t_walk s = (v, k) # rest" and over: "get (edges ! v) k = None"
  shows "tarjan_ok edges (leave_node v rest s)"
proof -
  note D = tarjan_okD [OF ok]
  let ?low = "lower_parent v rest (t_low s)"
  let ?s1 = "s\<lparr>t_walk := rest, t_low := ?low\<rparr>"
  note low = lower_parent_lowered [OF ok walk]
  note inv = D(4) [unfolded walk, simplified]
  have fol: "followed edges ?s1 = followed edges s" "followed edges s v = graph_of edges `` {v}"
    using followed_leave [OF ok walk over, of ?s1] by simp_all
  have v: "v \<in> set (t_stack s)" "v < length edges" "t_order s ! v = Some (number s v)"
    using walk_stacked [OF ok, of v k] met_range [OF ok] stack_met [OF ok] walk by (auto simp: met_def number_def)
  have frames: "(u, j) \<in> set rest \<Longrightarrow> j \<le> length (edges ! u)" for u j using D(8) walk by simp
  have s1: "leave_node v rest s = (if t_low s ! v = number s v
      then (case pop_until v (t_stack s) (t_on_stack s) [] of (component, stack, on_stack) \<Rightarrow>
        ?s1\<lparr>t_stack := stack, t_on_stack := on_stack, t_components := t_components s @ [component]\<rparr>)
      else ?s1)"
    using v low(3) by (simp add: leave_node_def lower_parent_def [symmetric])
  show ?thesis
  proof (cases "t_low s ! v = number s v")
    case False
    from search_keep [OF inv fol(2) this] have "rest \<noteq> []"
      "search_inv (graph_of edges) (met s) (number s) ((!) ?low) (set (t_stack s)) (map fst rest) (followed edges ?s1)"
      by (simp_all add: low(1) fol(1))
    then show ?thesis using D False frames by (simp add: s1) (rule tarjan_okI, simp_all add: low(2))
  next
    case True
    obtain xs ys where split: "t_stack s = xs @ v # ys" "v \<notin> set xs"
      and popped: "set (xs @ [v]) = {u \<in> set (t_stack s). number s v \<le> number s u}"
      and left: "set ys = set (t_stack s) - {u \<in> set (t_stack s). number s v \<le> number s u}"
      "sorted_wrt (\<lambda>u v. number s v < number s u) ys" and distinct: "distinct (xs @ [v])"
      using stack_split [OF D(5) v(1)] by blast
    note pop = search_pop [OF inv fol(2) True]
    let ?on = "fold (\<lambda>m on. on[m := False]) (xs @ [v]) (t_on_stack s)"
    have "set (xs @ [v]) = component_of (graph_of edges) v" using pop(3) popped by (simp add: component_of_def)
    then have whole: "set (xs @ [v]) = component_of (graph_of edges) u" if "u \<in> set (xs @ [v])" for u
      using that component_of_same by metis
    have "components_ok edges (t_components s @ [xs @ [v]]) (met s - set (t_stack s) \<union> set (xs @ [v]))"
      by (rule components_ok_snoc [OF D(9) _ distinct _ whole]) (use popped in auto)
    moreover have "met s - set (t_stack s) \<union> set (xs @ [v]) = met s - set ys"
      using popped left(1) stack_met [OF ok] by auto
    moreover have "?on ! u \<longleftrightarrow> u \<in> set ys" if "u < length edges" for u
    proof -
      have "?on ! u \<longleftrightarrow> t_on_stack s ! u \<and> u \<notin> set (xs @ [v])" by (rule nth_fold_clear) (use that D(3) in simp)
      then show ?thesis unfolding D(6) [OF that] popped left(1) by auto
    qed
    moreover have "search_inv (graph_of edges) (met s) (number s) ((!) ?low) (set ys) (map fst rest) (followed edges ?s1)"
      using pop(1) left(1) by (simp add: low(1) fol(1))
    moreover have "rest = [] \<Longrightarrow> ys = []" using pop(2) left(1) by (metis list.map_disc_iff set_empty)
    moreover have "leave_node v rest s =
        ?s1\<lparr>t_stack := ys, t_on_stack := ?on, t_components := t_components s @ [xs @ [v]]\<rparr>"
      using s1 True pop_until_split [OF split(2), of ys "t_on_stack s" "[]"] split(1) by simp
    moreover have "followed edges (?s1\<lparr>t_stack := ys, t_on_stack := ?on, t_components := cs\<rparr>) = followed edges ?s1" for cs
      by (simp add: followed_def fun_eq_iff)
    ultimately show ?thesis
      using D frames left(2) low(2) by (simp del: fold_append) (rule tarjan_okI, simp_all)
  qed
qed

section \<open>The search ends\<close>

definition to_do :: "nat list list \<Rightarrow> tarjan \<Rightarrow> nat" where
  "to_do edges s = (\<Sum>v | v < length edges \<and> t_order s ! v = None. length (edges ! v) + 2)
     + sum_list (map (\<lambda>(v, k). length (edges ! v) + 1 - k) (t_walk s))"

lemma to_do_meet:
  assumes "v < length edges" "t_order s ! v = None" "length (t_order s) = length edges"
  shows "to_do edges (meet v path s) + 1 = to_do edges (s\<lparr>t_walk := path\<rparr>)"
proof -
  let ?U = "{u. u < length edges \<and> t_order s ! u = None}"
  have "{u. u < length edges \<and> (t_order s)[v := Some (t_next s)] ! u = None} = ?U - {v}"
    using assms by (auto simp: nth_list_update)
  moreover have "(\<Sum>u \<in> ?U. length (edges ! u) + 2) = length (edges ! v) + 2 + (\<Sum>u \<in> ?U - {v}. length (edges ! u) + 2)"
    by (rule sum.remove) (use assms in auto)
  ultimately show ?thesis by (simp add: to_do_def)
qed

lemma to_do_walk: "t_walk s = (v, k) # rest \<Longrightarrow> k < n \<Longrightarrow> n \<le> length (edges ! v) + 1 \<Longrightarrow>
    to_do edges (s\<lparr>t_walk := (v, n) # rest\<rparr>) < to_do edges s"
  by (simp add: to_do_def)

lemma to_do_cong: "t_order s' = t_order s \<Longrightarrow> t_walk s' = t_walk s \<Longrightarrow> to_do edges s' = to_do edges s"
  by (simp add: to_do_def)

lemma leave_node_access: "t_order (leave_node v rest s) = t_order s" "t_walk (leave_node v rest s) = rest"
  by (auto simp: leave_node_def Let_def split: prod.splits)

lemma walk_step_ok:
  assumes ok: "tarjan_ok edges s" and range: "in_range edges" and "t_walk s \<noteq> []"
  shows "tarjan_ok edges (walk_step edges s) \<and> to_do edges (walk_step edges s) < to_do edges s"
proof -
  obtain v k rest where walk: "t_walk s = (v, k) # rest" using assms(3) by (cases "t_walk s") auto
  show ?thesis
  proof (cases "get (edges ! v) k")
    case None
    note leave_node_access [of v rest s]
    moreover have "k \<le> length (edges ! v)" using tarjan_okD(8) [OF ok] walk by simp
    ultimately have "to_do edges (leave_node v rest s) < to_do edges s" using walk by (simp add: to_do_def)
    with leave_ok [OF ok walk None] show ?thesis using walk None by (simp add: walk_step_def)
  next
    case (Some target)
    have v: "v < length edges" using walk_stacked [OF ok] stack_met [OF ok] met_range [OF ok] walk by (metis list.set_intros(1))
    have "target \<in> set (edges ! v)" "k < length (edges ! v)" using Some by (auto dest: get_SomeD)
    then have t: "target < length edges" using range v by (auto simp: in_range_def list_all_iff)
    have less: "to_do edges (s\<lparr>t_walk := (v, Suc k) # rest\<rparr>) < to_do edges s"
      using to_do_walk [OF walk, of "Suc k"] \<open>k < _\<close> by simp
    have "to_do edges (follow edges v k rest target s) < to_do edges s"
    proof (cases "t_order s ! target")
      case None
      with to_do_meet [OF t None tarjan_okD(1) [OF ok], of "(v, Suc k) # rest"] less show ?thesis by (simp add: follow_def Let_def)
    next
      case (Some n)
      have "to_do edges (follow edges v k rest target s) = to_do edges (s\<lparr>t_walk := (v, Suc k) # rest\<rparr>)"
        by (rule to_do_cong) (simp_all add: follow_def Some Let_def)
      with less show ?thesis by simp
    qed
    with follow_ok [OF ok range walk Some] show ?thesis using walk Some by (simp add: walk_step_def)
  qed
qed

lemma list_update_Some: "xs ! x = Some y \<Longrightarrow> \<exists>z. xs[i := Some n] ! x = Some z"
  by (cases "i < length xs") (auto simp: nth_list_update list_update_beyond not_less)

lemma walk_step_met: "met s \<subseteq> met (walk_step edges s)"
proof -
  have kept: "met s \<subseteq> met s'" if "t_order s' = t_order s" for s' using that by (simp add: met_def)
  have "met s \<subseteq> met (meet v path s)" for v path by (auto simp: met_def list_update_Some)
  then have "met s \<subseteq> met (follow edges v k rest target s)" for v k rest target
    by (cases "t_order s ! target") (auto simp: follow_def Let_def)
  moreover have "met s \<subseteq> met (leave_node v rest s)" for v rest by (rule kept) (rule leave_node_access)
  ultimately show ?thesis by (auto simp: walk_step_def split: list.split option.split)
qed

lemma walk_from_ok:
  assumes ok: "tarjan_ok edges s" and range: "in_range edges" and "t_walk s = []" "root < length edges"
  shows "\<exists>s'. walk_from edges root s = Some s' \<and> tarjan_ok edges s' \<and> t_walk s' = [] \<and> insert root (met s) \<subseteq> met s'"
proof (cases "t_order s ! root")
  case (Some n)
  then have "root \<in> met s" using assms(4) tarjan_okD(1) [OF ok] by (simp add: met_def)
  with Some assms show ?thesis by (auto simp: walk_from_def)
next
  case None
  let ?P = "\<lambda>t. tarjan_ok edges t \<and> insert root (met s) \<subseteq> met t"
  have start: "?P (meet root [] s)"
    using root_ok [OF ok assms(4) None assms(3)] met_meet [of root s "[]"] assms(4) tarjan_okD(1) [OF ok] by simp
  have step: "?P t \<Longrightarrow> t_walk t \<noteq> [] \<Longrightarrow> ?P (walk_step edges t) \<and> to_do edges (walk_step edges t) < to_do edges t" for t
    using walk_step_ok [OF _ range] walk_step_met by blast
  have "\<exists>s'. while_option (\<lambda>s. t_walk s \<noteq> []) (walk_step edges) (meet root [] s) = Some s'"
    by (rule measure_while_option_Some [where P = ?P and f = "to_do edges"]) (use step start in blast)+
  then obtain s' where s': "while_option (\<lambda>s. t_walk s \<noteq> []) (walk_step edges) (meet root [] s) = Some s'" by blast
  moreover have "?P s'" by (rule while_option_rule [where P = ?P, OF _ s' start]) (use step in blast)
  moreover have "t_walk s' = []" using while_option_stop [OF s'] by simp
  ultimately show ?thesis using None by (auto simp: walk_from_def)
qed

lemma walk_roots_ok:
  assumes "tarjan_ok edges s" "in_range edges" "t_walk s = []" "set roots \<subseteq> {..<length edges}"
  shows "\<exists>s'. walk_roots edges roots s = Some s' \<and> tarjan_ok edges s' \<and> t_walk s' = [] \<and> set roots \<union> met s \<subseteq> met s'"
  using assms
proof (induction roots arbitrary: s)
  case (Cons root roots)
  obtain s1 where s1: "walk_from edges root s = Some s1" "tarjan_ok edges s1" "t_walk s1 = []" "insert root (met s) \<subseteq> met s1"
    using walk_from_ok [OF Cons.prems(1-3), of root] Cons.prems(4) by auto
  with Cons.IH [OF s1(2) Cons.prems(2) s1(3)] Cons.prems(4) show ?case by fastforce
qed auto

lemma first_tarjan_walk: "t_walk (first_tarjan n) = []"
  by (simp add: first_tarjan_def)

lemma first_tarjan_ok: "tarjan_ok edges (first_tarjan (length edges))"
proof -
  have "met (first_tarjan n) = {}" for n by (auto simp: met_def first_tarjan_def)
  then show ?thesis by (intro tarjan_okI) (auto simp: first_tarjan_def components_ok_def search_inv_def)
qed

lemma strongly_connected_ok:
  assumes "in_range edges"
  shows "\<exists>cs. strongly_connected edges = Some cs \<and> components_ok edges cs {..<length edges}"
proof -
  obtain s where s: "walk_roots edges [0..<length edges] (first_tarjan (length edges)) = Some s" "tarjan_ok edges s"
    "t_walk s = []" "{..<length edges} \<subseteq> met s"
    using walk_roots_ok [OF first_tarjan_ok assms first_tarjan_walk, of "[0..<length edges]"]
    by (auto simp: atLeast0LessThan)
  have "met s = {..<length edges}" using s(4) met_range [OF s(2)] by blast
  with s tarjan_okD(9,10) [OF s(2)] show ?thesis by (simp add: strongly_connected_def)
qed

section \<open>Cycles\<close>

lemma components_cover:
  assumes "components_ok edges cs decided" "v \<in> decided"
  obtains c where "c \<in> set cs" "v \<in> set c" "set c = component_of (graph_of edges) v"
  using assms by (auto simp: components_ok_def)

lemma cycle_in_component:
  assumes ok: "components_ok edges cs {..<length edges}"
  shows "(\<exists>c \<in> set cs. v \<in> set c \<and> on_a_cycle edges c) \<longleftrightarrow> (v, v) \<in> (graph_of edges)\<^sup>+"
proof
  assume "\<exists>c \<in> set cs. v \<in> set c \<and> on_a_cycle edges c"
  then obtain c where c: "c \<in> set cs" "v \<in> set c" "on_a_cycle edges c" by blast
  with ok have v: "v < length edges" and whole: "set c = component_of (graph_of edges) v" and "distinct c"
    by (auto simp: components_ok_def distinct_concat_iff)
  show "(v, v) \<in> (graph_of edges)\<^sup>+"
  proof (cases "c = [v]")
    case True
    with c(3) v show ?thesis by (auto simp: on_a_cycle_def intro!: r_into_trancl graph_ofI)
  next
    case False
    have "\<exists>u \<in> set c. u \<noteq> v"
    proof (rule ccontr)
      assume "\<not> (\<exists>u \<in> set c. u \<noteq> v)"
      with c(2) \<open>distinct c\<close> False show False by (cases c rule: remdups_adj.cases) auto
    qed
    then obtain u where "u \<in> component_of (graph_of edges) v" "u \<noteq> v" using whole by blast
    then show ?thesis by (auto simp: component_of_def dest!: rtranclD)
  qed
next
  assume cycle: "(v, v) \<in> (graph_of edges)\<^sup>+"
  then obtain u where u: "(v, u) \<in> graph_of edges" "(u, v) \<in> (graph_of edges)\<^sup>*" by (meson tranclD)
  then have "v \<in> {..<length edges}" by (simp add: graph_of_def)
  then obtain c where c: "c \<in> set cs" "v \<in> set c" "set c = component_of (graph_of edges) v"
    using components_cover [OF ok] by blast
  moreover have "u \<in> set c" using c(3) u by (auto simp: component_of_def)
  with c(2) u(1) have "on_a_cycle edges c" by (auto simp: on_a_cycle_def graph_of_def split: list.split)
  ultimately show "\<exists>c \<in> set cs. v \<in> set c \<and> on_a_cycle edges c" by blast
qed

section \<open>The call graph of a module\<close>

text \<open>Who calls whom, by qualified name.\<close>

definition native_calls :: "module_ir \<Rightarrow> (ustr \<times> ustr) set" where
  "native_calls m = {(qualified_name f, qualified_name g) | f g. f \<in> set (all_functions m) \<and> g \<in> set (all_functions m)
     \<and> (\<exists>blk \<in> set (blocks f). \<exists>op \<in> set (block_ops blk). native_callee op = Some (qualified_name g))}"

lemma function_index_eq:
  assumes "distinct (map qualified_name (all_functions m))"
  shows "function_index m x = Some i \<longleftrightarrow> i < length (all_functions m) \<and> qualified_name (all_functions m ! i) = x"
proof -
  have "function_index m x = Some i \<longleftrightarrow>
      (x, i) \<in> set (rev (zip (map qualified_name (all_functions m)) [0..<length (all_functions m)]))"
    unfolding function_index_def by (rule map_of_eq_Some_iff) (use assms in \<open>simp add: rev_map [symmetric]\<close>)
  also have "\<dots> \<longleftrightarrow> i < length (all_functions m) \<and> qualified_name (all_functions m ! i) = x"
    by (auto simp: in_set_zip intro!: exI [of _ i])
  finally show ?thesis .
qed

lemma same_function:
  assumes "distinct (map qualified_name (all_functions m))" "f \<in> set (all_functions m)" "i < length (all_functions m)"
    and "qualified_name (all_functions m ! i) = qualified_name f"
  shows "f = all_functions m ! i"
  using assms by (metis distinct_map inj_onD nth_mem)

lemma call_edges_nth:
  assumes "distinct (map qualified_name (all_functions m))" "i < length (all_functions m)"
  shows "set (call_edges m ! i) = {j. j < length (all_functions m) \<and>
    (qualified_name (all_functions m ! i), qualified_name (all_functions m ! j)) \<in> native_calls m}"
proof (intro set_eqI)
  fix j
  let ?f = "all_functions m ! i"
  have "set (callees index f) = {j. \<exists>op \<in> set (concat (map block_ops (blocks f))). Option.bind (native_callee op) index = Some j}" for index f
    unfolding callees_def set_filter_map [symmetric] by (rule set_sorted_list_of_set) simp
  then have "j \<in> set (call_edges m ! i) \<longleftrightarrow> (\<exists>blk \<in> set (blocks ?f). \<exists>op \<in> set (block_ops blk).
      \<exists>x. native_callee op = Some x \<and> function_index m x = Some j)"
    using assms(2) by (auto simp: call_edges_def Option.bind_eq_Some_conv)
  also have "\<dots> \<longleftrightarrow> j < length (all_functions m) \<and> (qualified_name ?f, qualified_name (all_functions m ! j)) \<in> native_calls m"
    (is "_ \<longleftrightarrow> _ \<and> ?call")
  proof
    assume "\<exists>blk \<in> set (blocks ?f). \<exists>op \<in> set (block_ops blk). \<exists>x. native_callee op = Some x \<and> function_index m x = Some j"
    then show "j < length (all_functions m) \<and> ?call"
      using assms(2) nth_mem [OF assms(2)] unfolding native_calls_def function_index_eq [OF assms(1)] by (auto intro: nth_mem)
  next
    assume call: "j < length (all_functions m) \<and> ?call"
    then obtain f where fg: "f \<in> set (all_functions m)" "qualified_name f = qualified_name ?f"
      "\<exists>blk \<in> set (blocks f). \<exists>op \<in> set (block_ops blk). native_callee op = Some (qualified_name (all_functions m ! j))"
      unfolding native_calls_def by clarsimp metis
    have "f = ?f" using same_function [OF assms(1) fg(1) assms(2)] fg(2) by simp
    with fg(3) call show "\<exists>blk \<in> set (blocks ?f). \<exists>op \<in> set (block_ops blk).
        \<exists>x. native_callee op = Some x \<and> function_index m x = Some j"
      unfolding function_index_eq [OF assms(1)] by blast
  qed
  finally show "j \<in> set (call_edges m ! i) \<longleftrightarrow> j \<in> {j. j < length (all_functions m) \<and>
      (qualified_name ?f, qualified_name (all_functions m ! j)) \<in> native_calls m}" by simp
qed

lemma call_edges_in_range: "distinct (map qualified_name (all_functions m)) \<Longrightarrow> in_range (call_edges m)"
proof -
  assume d: "distinct (map qualified_name (all_functions m))"
  have "length (call_edges m) = length (all_functions m)" by (simp add: call_edges_def)
  then show ?thesis using call_edges_nth [OF d] by (auto simp: in_range_def list_all_iff in_set_conv_nth [of _ "call_edges m"])
qed

text \<open>The graph on indices is the graph on names.\<close>

lemma native_calls_graph:
  assumes "distinct (map qualified_name (all_functions m))"
  shows "native_calls m = map_prod (\<lambda>i. qualified_name (all_functions m ! i)) (\<lambda>i. qualified_name (all_functions m ! i))
    ` graph_of (call_edges m)" (is "_ = map_prod ?q ?q ` _")
proof (intro set_eqI)
  fix e
  have n: "length (call_edges m) = length (all_functions m)" by (simp add: call_edges_def)
  show "e \<in> native_calls m \<longleftrightarrow> e \<in> map_prod ?q ?q ` graph_of (call_edges m)"
  proof
    assume e: "e \<in> native_calls m"
    then obtain f g where "e = (qualified_name f, qualified_name g)" "f \<in> set (all_functions m)" "g \<in> set (all_functions m)"
      by (auto simp: native_calls_def)
    moreover from this obtain i j where "i < length (all_functions m)" "j < length (all_functions m)"
      "f = all_functions m ! i" "g = all_functions m ! j" by (metis in_set_conv_nth)
    ultimately have "e = map_prod ?q ?q (i, j)" "(i, j) \<in> graph_of (call_edges m)"
      using e call_edges_nth [OF assms, of i] n by (auto simp: graph_of_def)
    then show "e \<in> map_prod ?q ?q ` graph_of (call_edges m)" by blast
  qed (use call_edges_nth [OF assms] n in \<open>auto simp: graph_of_def\<close>)
qed

lemma trancl_image:
  assumes "inj_on q A" "R \<subseteq> A \<times> A"
  shows "(map_prod q q ` R)\<^sup>+ = map_prod q q ` R\<^sup>+"
proof (intro equalityI subrelI)
  fix x y assume "(x, y) \<in> (map_prod q q ` R)\<^sup>+"
  then show "(x, y) \<in> map_prod q q ` R\<^sup>+"
  proof (induction rule: trancl_induct)
    case (step y z)
    then obtain i j k l where "x = q i" "y = q j" "(i, j) \<in> R\<^sup>+" "y = q k" "z = q l" "(k, l) \<in> R" by auto
    moreover from this have "j \<in> A" "k \<in> A" using assms(2) trancl_subset_Sigma [OF assms(2)] by blast+
    ultimately have "j = k" using assms(1) by (metis inj_onD)
    with \<open>(i, j) \<in> R\<^sup>+\<close> \<open>(k, l) \<in> R\<close> have "(i, l) \<in> R\<^sup>+" by (simp add: trancl_into_trancl)
    with \<open>x = q i\<close> \<open>z = q l\<close> show ?case by (auto intro: rev_image_eqI)
  qed (auto intro: rev_image_eqI)
next
  fix x y assume "(x, y) \<in> map_prod q q ` R\<^sup>+"
  then obtain i j where xy: "x = q i" "y = q j" "(i, j) \<in> R\<^sup>+" by auto
  from xy(3) have "(q i, q j) \<in> (map_prod q q ` R)\<^sup>+"
    by (induction rule: trancl_induct) (auto intro: trancl_into_trancl rev_image_eqI)
  with xy show "(x, y) \<in> (map_prod q q ` R)\<^sup>+" by simp
qed

lemma recursive_functions_are:
  assumes "distinct (map qualified_name (all_functions m))"
  shows "recursive_functions m = Some {x. (x, x) \<in> (native_calls m)\<^sup>+}"
proof -
  let ?E = "graph_of (call_edges m)" and ?q = "\<lambda>i. qualified_name (all_functions m ! i)" and ?n = "length (all_functions m)"
  have n: "length (call_edges m) = ?n" by (simp add: call_edges_def)
  obtain cs where cs: "strongly_connected (call_edges m) = Some cs" "components_ok (call_edges m) cs {..<length (call_edges m)}"
    using strongly_connected_ok [OF call_edges_in_range [OF assms]] by blast
  have inj: "inj_on ?q {..<?n}" using assms by (auto simp: inj_on_def distinct_conv_nth)
  have sub: "?E \<subseteq> {..<?n} \<times> {..<?n}"
    using call_edges_in_range [OF assms] n by (auto simp: graph_of_def in_range_def list_all_iff)
  have "(\<Union>c \<in> set cs. if on_a_cycle (call_edges m) c then ?q ` set c else {}) = ?q ` {v. (v, v) \<in> ?E\<^sup>+}"
    unfolding cycle_in_component [OF cs(2), symmetric] by (auto split: if_splits)
  also have "\<dots> = {x. (x, x) \<in> map_prod ?q ?q ` ?E\<^sup>+}"
  proof (intro equalityI subsetI)
    fix x assume "x \<in> {x. (x, x) \<in> map_prod ?q ?q ` ?E\<^sup>+}"
    then obtain i j where ij: "(i, j) \<in> ?E\<^sup>+" "x = ?q i" "x = ?q j" by auto
    moreover from this have "i < ?n" "j < ?n" using trancl_subset_Sigma [OF sub] by auto
    ultimately have "i = j" using inj by (auto simp: inj_on_def)
    with ij show "x \<in> ?q ` {v. (v, v) \<in> ?E\<^sup>+}" by blast
  qed (auto intro: rev_image_eqI)
  also have "\<dots> = {x. (x, x) \<in> (native_calls m)\<^sup>+}"
    by (simp only: native_calls_graph [OF assms] trancl_image [OF inj sub])
  finally show ?thesis by (simp add: recursive_functions_def cs(1))
qed

text \<open>Two functions that call each other and one that neither calls.\<close>

definition calling :: "string \<Rightarrow> string list \<Rightarrow> bir_function" where
  "calling name names =
     \<lparr>fn_name = lit name, frame_name = lit name, param_count = 0, ret = TNone, convention = Native, registers = [],
       blocks = [\<lparr>block_ops = map (\<lambda>callee. CallOp (CallNative None None (lit callee) [])) names, terminator = Return VNone,
         owned_at_exit = None, block_range = None, block_position = None, error_target = None\<rparr>],
       exported = True, owner = None, vararg = False, kwarg = False, posonly = 0, kwonly = 0, defaults = [],
       fn_range = None, deferring = [], computed_defaults = [], held_by = Twin, defaults_are_markers = False,
       decorators = [], fn_binding = BindInstance, coroutine_body = None, doc = None,
       takes_a_weak_reference = False, weak_referents = [], nested = None\<rparr>"

definition ping_pong :: module_ir where
  "ping_pong = \<lparr>mod_functions = [calling ''ping'' [''pong''], calling ''pong'' [''ping'', ''leaf''], calling ''leaf'' []],
     mod_classes = []\<rparr>"

section \<open>Properties\<close>

text \<open>
  C31. On every graph whose edges stay inside it the search returns, and what it returns is the
  partition of the nodes into strongly connected components: every node is in exactly one list, once,
  and the list holds the nodes it reaches and is reached from.
\<close>

theorem strongly_connected_exact:
  assumes "in_range edges"
  shows "\<exists>cs. strongly_connected edges = Some cs \<and> distinct (concat cs) \<and> set (concat cs) = {..<length edges}
    \<and> (\<forall>c \<in> set cs. \<forall>v \<in> set c. set c = {u. (v, u) \<in> (graph_of edges)\<^sup>* \<and> (u, v) \<in> (graph_of edges)\<^sup>*})"
  using strongly_connected_ok [OF assms] by (auto simp: components_ok_def component_of_def)

theorem strongly_connected_exact_witness:
  "\<exists>cs. strongly_connected [[1], [0, 2], []] = Some cs \<and> distinct (concat cs) \<and> set (concat cs) = {..<3}"
  using strongly_connected_exact [of "[[1], [0, 2], []]"] by (auto simp: in_range_def)

text \<open>
  In a module whose functions have different qualified names, the functions said to be recursive
  are exactly those that a chain of native calls leads back to.
\<close>

theorem recursive_functions_exact:
  assumes "distinct (map qualified_name (all_functions m))"
  shows "recursive_functions m = Some {x. (x, x) \<in> (native_calls m)\<^sup>+}"
  by (rule recursive_functions_are [OF assms])

theorem recursive_functions_exact_witness:
  "recursive_functions ping_pong = Some {x. (x, x) \<in> (native_calls ping_pong)\<^sup>+}
   \<and> recursive_functions ping_pong = Some {lit ''ping'', lit ''pong''}"
proof
  have "distinct (map qualified_name (all_functions ping_pong))" by code_simp
  then show "recursive_functions ping_pong = Some {x. (x, x) \<in> (native_calls ping_pong)\<^sup>+}"
    by (rule recursive_functions_exact)
  show "recursive_functions ping_pong = Some {lit ''ping'', lit ''pong''}" by code_simp
qed

end
