(* ===== verification/BIR_Check.thy ===== *)
theory BIR_Check
  imports BIR_Function
begin

text \<open>
  The local half of \<^verbatim>\<open>by_ir/src/verify.rs\<close>: what is required of one operation and of one
  terminator (\<open>check_op\<close>, \<open>check_terminator\<close>, and the \<open>expect\<close> family they are written with).

  The source pushes a formatted text onto a vector. Here each check returns the list of what it
  pushes, in the same order and as often, and a text is a value of \<open>message\<close>: one constructor per
  format string, holding what is interpolated. The block and the function a text is filed under are
  added by the caller.

  Walking the layout chain (\<open>upcasts\<close>) follows base names until there is none, so on a cyclic chain
  it never returns; its value is then \<open>None\<close>, and so is that of every check that calls it.
\<close>

section \<open>Messages\<close>

datatype (plugins only: code size) message =
    Text string  \<comment> \<open>a message with nothing interpolated\<close>
  | ParamCountExceeds nat nat
  | MissingErrorBlock block_id
  | MissingBlock block_id
  | NotDeclared register_id
  | Expects string rtype rtype  \<comment> \<open>what, expected, actual\<close>
  | Produces string rtype register_id rtype  \<comment> \<open>what, expected, destination, declared\<close>
  | CursorDeclared register_id rtype
  | ExpectedArray rtype
  | MovingItem string nat
  | NamesUnemitted string ustr
  | ArgumentIs ustr ustr rtype rtype  \<comment> \<open>callee, parameter, declared, actual\<close>
  | EntryTestExact rtype
  | OneObjectOneFloat string
  | OneObjectOneFloatNot string "rtype option" "rtype option"
  | UnaryExpects string string rtype  \<comment> \<open>symbol, the types it takes, actual\<close>
  | IntToFloatOf rtype
  | ArrayWouldLeak rtype
  | UnpackInto rtype
  | UnpackNotObjects rtype
  | TupleGetOf rtype
  | TupleGetPast nat rtype
  | CellReadInto register_id
  | ClosureUnemitted ustr ustr
  | FieldReceiver string ustr rtype  \<comment> \<open>what, class, receiver\<close>
  | MovingStoreOf "nat val"
  | AttributeNarrow rtype
  | AttributeBox rtype
  | SubscriptIndex rtype
  | StrIndex rtype
  | ReleaseOf "nat val" "nat list"
  | MoveOf "nat val" "nat list"
  | BorrowedTakesOver register_id
  | ConsumesParameter register_id
  | ConsumesBorrowed register_id
  | MachineStepCannot string
  | DefaultForMissing nat
  | DefaultNotItself "nat val" nat rtype
  | FieldDefaultNotItself "nat val" ustr rtype
  | BorrowedWritten register_id "nat op"
  | NotReleased register_id
  | ReadUnassigned ustr
  | ReadBeforeAssigned register_id
  | Unreported nat "nat op"

section \<open>Representations against each other\<close>

fun is_fixed :: "rtype \<Rightarrow> bool" where
  "is_fixed (Primitive (PFixed _)) = True"
| "is_fixed _ = False"

definition attribute_representation :: "rtype \<Rightarrow> bool" where
  "attribute_representation ty \<longleftrightarrow> ty \<in> {TObject, TInt, TFloat, TBool, TStr}"

fun free_widening :: "rtype \<Rightarrow> rtype \<Rightarrow> bool" where
  "free_widening (Primitive from) (Primitive to) =
     (from = PBit \<and> to = PBool \<or> to = PObject \<and> \<not> is_unboxed (Primitive from))"
| "free_widening _ _ = False"

section \<open>The layout chain\<close>

record verifier =
  of_function :: bir_function
  of_module :: "module_ir option"
  of_bases :: "(ustr \<Rightarrow> ustr option) option"

definition chain_step :: "(ustr \<Rightarrow> ustr option) \<Rightarrow> ustr option \<Rightarrow> ustr option" where
  "chain_step bases current = (case current of Some name \<Rightarrow> bases name | None \<Rightarrow> None)"

definition chain_search :: "(ustr \<Rightarrow> ustr option) \<Rightarrow> ustr \<Rightarrow> ustr \<Rightarrow> bool option" where
  "chain_search bases from declared =
     map_option (\<lambda>current. current \<noteq> None)
       (while_option (\<lambda>current. current \<noteq> None \<and> current \<noteq> Some declared) (chain_step bases) (Some from))"

definition upcasts :: "verifier \<Rightarrow> rtype \<Rightarrow> rtype \<Rightarrow> bool option" where
  "upcasts v from to =
     (case (from, to) of
        (Instance from_class _, Instance declared _) \<Rightarrow>
          (case of_bases v of
             None \<Rightarrow> Some False
           | Some bases \<Rightarrow> chain_search bases from_class declared)
      | _ \<Rightarrow> Some False)"

definition names_the_receivers_layout :: "verifier \<Rightarrow> rtype \<Rightarrow> ustr \<Rightarrow> bool option" where
  "names_the_receivers_layout v actual cls =
     (case actual of
        Instance got _ \<Rightarrow> if got = cls then Some True else upcasts v actual (Instance cls False)
      | _ \<Rightarrow> upcasts v actual (Instance cls False))"

section \<open>What the checks are written with\<close>

text \<open>What \<open>operand_type\<close> pushes; the type it answers is \<open>value_type\<close>.\<close>

definition dangling :: "bir_function \<Rightarrow> nat val \<Rightarrow> message list" where
  "dangling f v =
     (case value_type f v of
        Some _ \<Rightarrow> []
      | None \<Rightarrow> (case v of Register r \<Rightarrow> [NotDeclared r] | _ \<Rightarrow> []))"

definition expect :: "bir_function \<Rightarrow> nat val \<Rightarrow> rtype \<Rightarrow> string \<Rightarrow> message list" where
  "expect f v expected what =
     dangling f v @
     (case value_type f v of
        Some actual \<Rightarrow>
          if actual \<noteq> expected \<and> \<not> free_widening actual expected
          then [Expects what expected actual] else []
      | None \<Rightarrow> [])"

definition expect_all :: "bir_function \<Rightarrow> nat val list \<Rightarrow> rtype \<Rightarrow> string \<Rightarrow> message list" where
  "expect_all f vs expected what = concat (map (\<lambda>v. expect f v expected what) vs)"

definition expect_index :: "bir_function \<Rightarrow> nat val \<Rightarrow> message list" where
  "expect_index f index =
     dangling f index @
     (if map_option is_fixed (value_type f index) = Some True then []
      else expect f index TInt ''an array index'')"

definition expect_attribute_receiver :: "bir_function \<Rightarrow> nat val \<Rightarrow> message list" where
  "expect_attribute_receiver f receiver =
     dangling f receiver @
     (case value_type f receiver of
        Some actual \<Rightarrow>
          if is_instance actual then [] else expect f receiver TObject ''attribute access''
      | None \<Rightarrow> [])"

definition expect_dest :: "bir_function \<Rightarrow> register_id \<Rightarrow> rtype \<Rightarrow> string \<Rightarrow> message list" where
  "expect_dest f d expected what =
     (case register_at f d of
        None \<Rightarrow> [NotDeclared d]
      | Some decl \<Rightarrow>
          if decl_ty decl \<noteq> expected then [Produces what expected d (decl_ty decl)] else [])"

text \<open>A temporary the frame owns, with a single reference to give away.\<close>

definition hands_over :: "bir_function \<Rightarrow> nat val \<Rightarrow> bool" where
  "hands_over f v =
     (case v of
        Register r \<Rightarrow>
          param_count f \<le> r
          \<and> (case register_at f r of
               Some decl \<Rightarrow> \<not> borrowed decl \<and> decl_name decl = None \<and> owns_one_reference (decl_ty decl)
             | None \<Rightarrow> False)
      | _ \<Rightarrow> False)"

definition expect_moves :: "bir_function \<Rightarrow> nat val list \<Rightarrow> nat list \<Rightarrow> string \<Rightarrow> message list" where
  "expect_moves f items moves what =
     concat (map (\<lambda>index.
       if (case get items index of Some v \<Rightarrow> hands_over f v | None \<Rightarrow> False) then []
       else [MovingItem what index]) moves)"

definition expect_cursor :: "bir_function \<Rightarrow> register_id \<Rightarrow> message list" where
  "expect_cursor f cursor =
     (case register_at f cursor of
        None \<Rightarrow> [NotDeclared cursor]
      | Some decl \<Rightarrow>
          if decl_ty decl \<noteq> TFixed I64 then [CursorDeclared cursor (decl_ty decl)] else [])"

text \<open>What \<open>array_element\<close> answers, and what it pushes.\<close>

definition array_element :: "bir_function \<Rightarrow> nat val \<Rightarrow> rtype option" where
  "array_element f v = (case value_type f v of Some (Array elem) \<Rightarrow> Some elem | _ \<Rightarrow> None)"

definition array_element_errors :: "bir_function \<Rightarrow> nat val \<Rightarrow> message list" where
  "array_element_errors f v =
     dangling f v @
     (case value_type f v of
        Some (Array _) \<Rightarrow> []
      | Some other \<Rightarrow> [ExpectedArray other]
      | None \<Rightarrow> [])"

definition expect_emitted_class :: "verifier \<Rightarrow> ustr \<Rightarrow> string \<Rightarrow> message list" where
  "expect_emitted_class v cls what =
     (case of_module v of
        Some m \<Rightarrow>
          if list_ex (\<lambda>candidate. class_name candidate = cls) (mod_classes m) then []
          else [NamesUnemitted what cls]
      | None \<Rightarrow> [])"

definition argument_error ::
    "verifier \<Rightarrow> ustr \<Rightarrow> bir_function \<Rightarrow> nat \<times> nat val \<Rightarrow> message list option" where
  "argument_error v callee target = (\<lambda>(index, arg).
     (case get (registers target) index of
        None \<Rightarrow> Some []
      | Some decl \<Rightarrow>
          (case value_type (of_function v) arg of
             None \<Rightarrow> Some (dangling (of_function v) arg)
           | Some actual \<Rightarrow>
               if actual = decl_ty decl \<or> free_widening actual (decl_ty decl) then Some []
               else map_option (\<lambda>castable.
                      if castable then []
                      else [ArgumentIs callee
                              (case decl_name decl of Some name \<Rightarrow> name | None \<Rightarrow> lit ''r'' @ decimal index)
                              (decl_ty decl) actual])
                    (upcasts v actual (decl_ty decl)))))"

definition check_call :: "verifier \<Rightarrow> ustr option \<Rightarrow> ustr \<Rightarrow> nat val list \<Rightarrow> message list option" where
  "check_call v own callee args =
     (case of_module v of
        None \<Rightarrow> Some []
      | Some m \<Rightarrow>
          (case List.find (\<lambda>candidate. fn_name candidate = callee \<and> owner candidate = own) (all_functions m) of
             None \<Rightarrow> Some []
           | Some target \<Rightarrow>
               if length args \<noteq> param_count target then Some []
               else sequence_errors (map (argument_error v callee target) (enumerate 0 args))))"

section \<open>Arithmetic, comparisons and representation changes\<close>

text \<open>The width of an integer operation: its left operand's, if that is a machine integer.\<close>

definition int_width_of :: "bir_function \<Rightarrow> nat val \<Rightarrow> rtype" where
  "int_width_of f lhs =
     (case value_type f lhs of Some ty \<Rightarrow> if is_fixed ty then ty else TInt | None \<Rightarrow> TInt)"

definition check_assign :: "bir_function \<Rightarrow> register_id \<Rightarrow> nat val \<Rightarrow> message list" where
  "check_assign f d src =
     dangling f src @
     (case value_type f src of
        Some src_ty \<Rightarrow>
          let expected = (case register_at f d of
                Some decl \<Rightarrow> if free_widening src_ty (decl_ty decl) then decl_ty decl else src_ty
              | None \<Rightarrow> src_ty)
          in expect_dest f d expected ''assign''
      | None \<Rightarrow> [])"

definition check_int_binary ::
    "bir_function \<Rightarrow> register_id \<Rightarrow> bin_op \<Rightarrow> nat val \<Rightarrow> nat val \<Rightarrow> message list" where
  "check_int_binary f d oper lhs rhs =
     (let width = int_width_of f lhs
      in dangling f lhs @ expect f lhs width (bin_symbol oper) @ expect f rhs width (bin_symbol oper) @
         expect_dest f d (if oper = TrueDiv then TFloat else width) (bin_symbol oper))"

definition check_float_binary ::
    "bir_function \<Rightarrow> register_id \<Rightarrow> bin_op \<Rightarrow> nat val \<Rightarrow> nat val \<Rightarrow> message list" where
  "check_float_binary f d oper lhs rhs =
     dangling f lhs @
     (case value_type f lhs of
        Some ty \<Rightarrow>
          if ty = TInt \<or> is_fixed ty then expect f lhs ty (bin_symbol oper)
          else expect f lhs TFloat (bin_symbol oper)
      | None \<Rightarrow> expect f lhs TFloat (bin_symbol oper)) @
     expect f rhs TFloat (bin_symbol oper) @ expect_dest f d TFloat (bin_symbol oper)"

definition check_int_compare ::
    "bir_function \<Rightarrow> register_id \<Rightarrow> cmp_op \<Rightarrow> nat val \<Rightarrow> nat val \<Rightarrow> message list" where
  "check_int_compare f d oper lhs rhs =
     (let width = int_width_of f lhs
      in dangling f lhs @ expect f lhs width (cmp_symbol oper) @
         (if is_fixed width
          then dangling f rhs @
               (if value_type f rhs = Some TInt then expect f rhs TInt (cmp_symbol oper)
                else expect f rhs width (cmp_symbol oper))
          else expect f rhs width (cmp_symbol oper)) @
         expect_dest f d TBit (cmp_symbol oper))"

definition one_float_one_object :: "bir_function \<Rightarrow> nat val \<Rightarrow> nat val \<Rightarrow> bool" where
  "one_float_one_object f lhs rhs \<longleftrightarrow>
     (value_type f lhs = Some TFloat \<and> value_type f rhs = Some TObject)
     \<or> (value_type f lhs = Some TObject \<and> value_type f rhs = Some TFloat)"

definition check_float_object_compare ::
    "bir_function \<Rightarrow> register_id \<Rightarrow> cmp_op \<Rightarrow> nat val \<Rightarrow> nat val \<Rightarrow> message list" where
  "check_float_object_compare f d oper lhs rhs =
     dangling f lhs @ dangling f rhs @
     (if one_float_one_object f lhs rhs then [] else [OneObjectOneFloat (cmp_symbol oper)]) @
     expect_dest f d TBit (cmp_symbol oper)"

definition check_float_object_binary ::
    "bir_function \<Rightarrow> register_id \<Rightarrow> bin_op \<Rightarrow> nat val \<Rightarrow> nat val \<Rightarrow> message list" where
  "check_float_object_binary f d oper lhs rhs =
     dangling f lhs @ dangling f rhs @
     (if one_float_one_object f lhs rhs then []
      else [OneObjectOneFloatNot (bin_symbol oper) (value_type f lhs) (value_type f rhs)]) @
     expect_dest f d TFloat (bin_symbol oper)"

definition check_unary :: "bir_function \<Rightarrow> register_id \<Rightarrow> unary_op \<Rightarrow> nat val \<Rightarrow> message list" where
  "check_unary f d oper v =
     dangling f v @
     (case value_type f v of
        None \<Rightarrow> []
      | Some ty \<Rightarrow>
          (case oper of
             UnaryNeg \<Rightarrow>
               if ty \<in> {TInt, TFloat, TObject} then expect_dest f d ty ''unary `-`''
               else [UnaryExpects ''-'' ''int, float or object'' ty]
           | UnaryInvert \<Rightarrow>
               if ty \<in> {TInt, TObject} then expect_dest f d ty ''unary `~`''
               else [UnaryExpects ''~'' ''int or object'' ty]
           | UnaryPos \<Rightarrow>
               if ty \<in> {TInt, TObject} then expect_dest f d ty ''unary `+`''
               else [UnaryExpects ''+'' ''int or object'' ty]
           | UnaryIndex \<Rightarrow>
               expect f v TInt ''an integer's unary'' @ expect_dest f d TInt ''an integer's unary''
           | UnaryNot \<Rightarrow>
               if ty \<in> {TBit, TBool} then expect_dest f d TBit ''unary `not`''
               else [UnaryExpects ''not'' ''bool or bit'' ty]))"

text \<open>Two operands of one type, and a destination.\<close>

definition check_pair ::
    "bir_function \<Rightarrow> register_id \<Rightarrow> rtype \<Rightarrow> nat val \<Rightarrow> nat val \<Rightarrow> rtype \<Rightarrow> string \<Rightarrow> message list" where
  "check_pair f d result lhs rhs ty what =
     expect f lhs ty what @ expect f rhs ty what @ expect_dest f d result what"

primrec check_scalar :: "bir_function \<Rightarrow> nat scalar_op \<Rightarrow> message list" where
  "check_scalar f (Assign d src) = check_assign f d src"
| "check_scalar f (IntBinary d oper lhs rhs mut) = check_int_binary f d oper lhs rhs"
| "check_scalar f (FloatBinary d oper lhs rhs) = check_float_binary f d oper lhs rhs"
| "check_scalar f (IntCompare d oper lhs rhs) = check_int_compare f d oper lhs rhs"
| "check_scalar f (ObjectBinary d oper lhs rhs mut) =
     check_pair f d TObject lhs rhs TObject (bin_symbol oper)"
| "check_scalar f (ObjectCompare d oper lhs rhs) = check_pair f d TBit lhs rhs TObject (cmp_symbol oper)"
| "check_scalar f (ObjectRichCompare d oper lhs rhs) =
     check_pair f d TObject lhs rhs TObject (cmp_symbol oper)"
| "check_scalar f (StrCompare d oper lhs rhs) = check_pair f d TBit lhs rhs TStr (cmp_symbol oper)"
| "check_scalar f (Truthy d src) =
     dangling f src @
     (if value_type f src \<noteq> Some TInt then expect f src TObject ''truthiness'' else []) @
     expect_dest f d TBit ''truthiness''"
| "check_scalar f (FloatCompare d oper lhs rhs) = check_pair f d TBit lhs rhs TFloat (cmp_symbol oper)"
| "check_scalar f (Unary d oper v) = check_unary f d oper v"
| "check_scalar f (FloatObjectBinary d oper lhs rhs) = check_float_object_binary f d oper lhs rhs"
| "check_scalar f (FloatObjectCompare d oper lhs rhs) = check_float_object_compare f d oper lhs rhs"
| "check_scalar f (Identity d lhs rhs neg) = check_pair f d TBit lhs rhs TObject ''an identity test''"
| "check_scalar f (IntToFloat d src) =
     dangling f src @
     (case value_type f src of
        Some src_ty \<Rightarrow> if src_ty \<noteq> TInt \<and> \<not> is_fixed src_ty then [IntToFloatOf src_ty] else []
      | None \<Rightarrow> []) @
     expect_dest f d TFloat ''int-to-float''"
| "check_scalar f (TagShort d src) =
     dangling f src @
     (if map_option is_fixed (value_type f src) = Some True then []
      else [Text ''tag short tags a machine integer'']) @
     expect_dest f d TInt ''tag short''"

section \<open>Boxing, moving and emptying\<close>

definition check_box :: "bir_function \<Rightarrow> register_id \<Rightarrow> nat val \<Rightarrow> message list" where
  "check_box f d src =
     dangling f src @
     (case value_type f src of
        Some (Primitive PObject) \<Rightarrow> [Text ''box widens to object, but its operand is already object'']
      | Some (Array _) \<Rightarrow> 
          [Text ''an unboxed array cannot escape: building a list from it would be a copy, and a copy is a different list'']
      | _ \<Rightarrow> []) @
     dangling f src @
     (if map_option is_fixed (value_type f src) = Some True
      then (if map_option decl_ty (register_at f d) = Some TObject then [] else expect_dest f d TInt ''box'')
      else expect_dest f d TObject ''box'')"

definition check_unbox :: "bir_function \<Rightarrow> register_id \<Rightarrow> nat val \<Rightarrow> rtype \<Rightarrow> message list" where
  "check_unbox f d src ty =
     expect f src TObject ''unbox'' @
     (if ty = TObject then [Text ''unbox narrows from object, but its target is object''] else []) @
     expect_dest f d ty ''unbox''"

definition check_release :: "bir_function \<Rightarrow> nat val \<Rightarrow> nat list \<Rightarrow> message list" where
  "check_release f v path =
     (if (case v of
            Register r \<Rightarrow>
              (case register_at f r of
                 Some decl \<Rightarrow>
                   \<not> borrowed decl
                   \<and> (case element (decl_ty decl) path of Some ty \<Rightarrow> owns_one_reference ty | None \<Rightarrow> False)
               | None \<Rightarrow> False)
          | _ \<Rightarrow> False)
      then [] else [ReleaseOf v path])"

text \<open>The element a move takes out of its source, if the source is one that can give it up.\<close>

definition moved_element :: "bir_function \<Rightarrow> nat val \<Rightarrow> nat list \<Rightarrow> rtype option" where
  "moved_element f v path =
     (case v of
        Register r \<Rightarrow>
          if param_count f \<le> r
          then (case register_at f r of
                  Some decl \<Rightarrow>
                    if \<not> borrowed decl \<and> decl_name decl = None
                    then (case element (decl_ty decl) path of
                            Some ty \<Rightarrow> if owns_one_reference ty then Some ty else None
                          | None \<Rightarrow> None)
                    else None
                | None \<Rightarrow> None)
          else None
      | _ \<Rightarrow> None)"

definition check_move :: "bir_function \<Rightarrow> register_id \<Rightarrow> nat val \<Rightarrow> nat list \<Rightarrow> message list" where
  "check_move f d src path =
     (case moved_element f src path of
        None \<Rightarrow> [MoveOf src path]
      | Some ty \<Rightarrow>
          (if map_option borrowed (register_at f d) = Some True then [BorrowedTakesOver d] else []) @
          expect_dest f d ty ''a move'')"

primrec check_place :: "bir_function \<Rightarrow> nat place_op \<Rightarrow> message list" where
  "check_place f (Box d src) = check_box f d src"
| "check_place f (Unbox d src ty prv) = check_unbox f d src ty"
| "check_place f (Release v path) = check_release f v path"
| "check_place f (Move d src path) = check_move f d src path"
| "check_place f (DeleteLocal d) = []"
| "check_place f (IsNull d src) = expect f src TObject ''a null test'' @ expect_dest f d TBit ''a null test''"
| "check_place f (Line pos) = []"

section \<open>Patterns and tests\<close>

primrec check_pattern :: "bir_function \<Rightarrow> nat pattern_op \<Rightarrow> message list" where
  "check_pattern f (IsInstance d src cls) = check_pair f d TBit src cls TObject ''an isinstance test''"
| "check_pattern f (CheckSound src tgt) =
     expect f src TObject ''a soundness check'' @
     expect_all f (sound_classes tgt) TObject ''a soundness check''"
| "check_pattern f (MatchAttr d subject nm cls idx cnt) =
     expect f subject TObject ''a class pattern'' @
     expect_all f (option_list cls) TObject ''a class pattern'' @
     expect_dest f d TObject ''a class pattern''"
| "check_pattern f (IsMissing d src) =
     expect f src TObject ''a class pattern'' @ expect_dest f d TBit ''a class pattern''"
| "check_pattern f (MatchSlice d sequence st aft rst) =
     expect f sequence TObject ''a sequence pattern'' @ expect_dest f d TObject ''a sequence pattern''"
| "check_pattern f (MatchKey d mp key) = check_pair f d TObject mp key TObject ''a mapping pattern''"
| "check_pattern f (MatchRest d mp ks) = check_pair f d TObject mp ks TObject ''a mapping pattern''"
| "check_pattern f (IsMapping d src) =
     expect f src TObject ''a mapping-shape test'' @ expect_dest f d TBit ''a mapping-shape test''"
| "check_pattern f (HoldsLayout d src cls) =
     expect f src TObject ''a layout test'' @ expect_dest f d TBit ''a layout test''"
| "check_pattern f (IsSequence d src) =
     expect f src TObject ''a sequence-shape test'' @ expect_dest f d TBit ''a sequence-shape test''"
| "check_pattern f (Contains d val container neg) =
     check_pair f d TBit val container TObject ''a containment test''"

text \<open>A test that reads its receiver's type only: an emitted class's pointer is taken as it stands.\<close>

definition expect_borrowed :: "bir_function \<Rightarrow> nat val \<Rightarrow> string \<Rightarrow> message list" where
  "expect_borrowed f src what =
     dangling f src @
     (case value_type f src of
        None \<Rightarrow> []
      | Some ty \<Rightarrow> if is_instance ty then [] else expect f src TObject what)"

definition check_exactness :: "bir_function \<Rightarrow> nat val \<Rightarrow> message list" where
  "check_exactness f v =
     dangling f v @
     (case value_type f v of
        Some actual \<Rightarrow> if actual \<notin> {TInt, TStr, TObject, TList} then [EntryTestExact actual] else []
      | None \<Rightarrow> [])"

primrec check_licence :: "bir_function \<Rightarrow> nat licence_op \<Rightarrow> message list" where
  "check_licence f (MethodStands d src cls mth) =
     expect f src TObject ''a dispatch test'' @ expect_dest f d TBit ''a dispatch test''"
| "check_licence f (BuiltinStands d nm) = expect_dest f d TBit ''a builtin test''"
| "check_licence f (LoopGuardsHold d builtins functs ex) =
     concat (map (check_exactness f) ex) @ expect_dest f d TBit ''a loop's entry test''"
| "check_licence f (ResolveFunction d nm) = expect_dest f d TObject ''a function resolution''"
| "check_licence f (FunctionStood d nm) = expect_dest f d TObject ''a function resolution''"
| "check_licence f (FunctionStands d src nm) =
     expect f src TObject ''a function test'' @ expect_dest f d TBit ''a function test''"
| "check_licence f (FunctionCallee d src nm) =
     expect f src TObject ''a function callee'' @ expect_dest f d TObject ''a function callee''"
| "check_licence f (AccessorStands d src cls nm) =
     expect_borrowed f src ''a property test'' @ expect_dest f d TBit ''a property test''"
| "check_licence f (FieldStands d src cls fld) =
     expect_borrowed f src ''a property test'' @ expect_dest f d TBit ''a property test''"
| "check_licence f (LicenceHolds src cls mem knd) = expect_borrowed f src ''a licence re-check''"
| "check_licence f (DictShadows d src cls mth) =
     expect_borrowed f src ''an instance-dict test'' @ expect_dest f d TBit ''an instance-dict test''"

section \<open>Calls and allocations\<close>

definition check_call_native ::
    "verifier \<Rightarrow> register_id option \<Rightarrow> ustr option \<Rightarrow> ustr \<Rightarrow> nat val list \<Rightarrow> message list option" where
  "check_call_native v d own callee args =
     map_option (\<lambda>mismatches.
         concat (map (dangling (of_function v)) args) @ mismatches @
         (case d of
            Some r \<Rightarrow> if register_at (of_function v) r = None then [NotDeclared r] else []
          | None \<Rightarrow> []))
       (check_call v own callee args)"

definition check_new_instance ::
    "verifier \<Rightarrow> register_id \<Rightarrow> ustr \<Rightarrow> nat val option list \<Rightarrow> message list" where
  "check_new_instance v d cls flds =
     concat (map (dangling (of_function v)) (filter_map (\<lambda>field. field) flds)) @
     expect_dest (of_function v) d (Instance cls False) ''an allocation'' @
     expect_emitted_class v cls ''an allocation''"

definition check_make_closure ::
    "verifier \<Rightarrow> register_id \<Rightarrow> ustr \<Rightarrow> ustr \<Rightarrow> nat val \<Rightarrow> message list" where
  "check_make_closure v d cls mth env =
     expect (of_function v) env (Instance cls False) ''a closure's environment'' @
     expect_dest (of_function v) d TObject ''a closure'' @
     (case of_module v of
        Some m \<Rightarrow>
          if list_ex (\<lambda>candidate. fn_name candidate = mth \<and> nested candidate \<noteq> None)
               (concat (map methods (filter (\<lambda>candidate. class_name candidate = cls) (mod_classes m))))
          then [] else [ClosureUnemitted cls mth]
      | None \<Rightarrow> [])"

primrec check_call_op :: "verifier \<Rightarrow> nat call_op \<Rightarrow> message list option" where
  "check_call_op v (CallNative d own callee args) = check_call_native v d own callee args"
| "check_call_op v (CallUnpacked d callee args kwargs) = Some (
     expect (of_function v) callee TObject ''an unpacked call'' @
     expect (of_function v) args TObject ''an unpacked call'' @
     expect_all (of_function v) (option_list kwargs) TObject ''an unpacked call'' @
     expect_dest (of_function v) d TObject ''an unpacked call'')"
| "check_call_op v (MergeKeywords d container src callee) = Some (
     expect_all (of_function v) [container, src, callee] TObject ''a keyword merge'' @
     expect_dest (of_function v) d TBit ''a keyword merge'')"
| "check_call_op v (CallPython d callee args) = Some (
     expect_all (of_function v) args TObject ''a python call argument'' @
     expect_dest (of_function v) d TObject ''a python call'')"
| "check_call_op v (CallValue d callee args) = Some (
     expect (of_function v) callee TObject ''a call through a value'' @
     expect_all (of_function v) args TObject ''a call argument'' @
     expect_dest (of_function v) d TObject ''a call through a value'')"
| "check_call_op v (CallThrough d callee args keywords) = Some (
     expect (of_function v) callee TObject ''a call through a function'' @
     expect_all (of_function v) args TObject ''a call argument'' @
     (if length args < length keywords
      then [Text ''a call names more keywords than it passes arguments''] else []) @
     expect_dest (of_function v) d TObject ''a call through a function'')"
| "check_call_op v (CallMethod d receiver nm args) = Some (
     expect (of_function v) receiver TObject ''a method receiver'' @
     expect_all (of_function v) args TObject ''a method argument'' @
     expect_dest (of_function v) d TObject ''a method call'')"
| "check_call_op v (NewInstance d cls flds) = Some (check_new_instance v d cls flds)"
| "check_call_op v (MakeClosure d cls mth env) = Some (check_make_closure v d cls mth env)"

section \<open>Fields and attributes\<close>

text \<open>The receiver of a field operation: an operand of the class it names, or of one under it.\<close>

definition check_field_receiver :: "verifier \<Rightarrow> nat val \<Rightarrow> ustr \<Rightarrow> string \<Rightarrow> message list option" where
  "check_field_receiver v receiver cls what =
     (case value_type (of_function v) receiver of
        None \<Rightarrow> Some (dangling (of_function v) receiver)
      | Some actual \<Rightarrow>
          map_option (\<lambda>named. if named then [] else [FieldReceiver what cls actual])
            (names_the_receivers_layout v actual cls))"

definition check_get_cell :: "bir_function \<Rightarrow> register_id \<Rightarrow> nat val \<Rightarrow> ustr \<Rightarrow> message list" where
  "check_get_cell f d receiver cls =
     expect f receiver (Instance cls False) ''a cell read'' @
     (case register_at f d of
        Some decl \<Rightarrow>
          if decl_ty decl = TInt \<or> is_object_reference (decl_ty decl) then [] else [CellReadInto d]
      | None \<Rightarrow> [CellReadInto d])"

definition check_get_field :: "verifier \<Rightarrow> register_id \<Rightarrow> nat val \<Rightarrow> ustr \<Rightarrow> message list option" where
  "check_get_field v d receiver cls =
     map_option (\<lambda>es. es @ (if register_at (of_function v) d = None then [NotDeclared d] else []))
       (check_field_receiver v receiver cls ''a field read'')"

definition check_set_field ::
    "verifier \<Rightarrow> nat val \<Rightarrow> ustr \<Rightarrow> nat val \<Rightarrow> bool \<Rightarrow> message list option" where
  "check_set_field v receiver cls val moves =
     map_option (\<lambda>es.
         (if moves \<and> \<not> hands_over (of_function v) val then [MovingStoreOf val] else []) @ es @
         dangling (of_function v) val)
       (check_field_receiver v receiver cls ''a field write'')"

definition check_read_attribute :: "bir_function \<Rightarrow> register_id \<Rightarrow> nat val \<Rightarrow> message list" where
  "check_read_attribute f d receiver =
     expect_attribute_receiver f receiver @
     (case register_at f d of
        Some decl \<Rightarrow> if attribute_representation (decl_ty decl) then [] else [AttributeNarrow (decl_ty decl)]
      | None \<Rightarrow> [])"

definition check_write_attribute :: "bir_function \<Rightarrow> register_id \<Rightarrow> nat val \<Rightarrow> nat val \<Rightarrow> message list" where
  "check_write_attribute f d receiver val =
     expect_attribute_receiver f receiver @ dangling f val @
     (case value_type f val of
        Some ty \<Rightarrow> if attribute_representation ty then [] else [AttributeBox ty]
      | None \<Rightarrow> []) @
     expect_dest f d TBit ''attribute assignment''"

primrec check_attribute :: "verifier \<Rightarrow> nat attribute_op \<Rightarrow> message list option" where
  "check_attribute v (GetCell d receiver cls fld fr) = Some (check_get_cell (of_function v) d receiver cls)"
| "check_attribute v (GetField d receiver cls fld) = check_get_field v d receiver cls"
| "check_attribute v (RequireField receiver cls fld) = check_field_receiver v receiver cls ''a field test''"
| "check_attribute v (FieldIsSet d receiver cls fld) =
     map_option (\<lambda>es. es @ expect_dest (of_function v) d TBit ''a field test'')
       (check_field_receiver v receiver cls ''a field test'')"
| "check_attribute v (SetField receiver cls fld val mvs prs) = check_set_field v receiver cls val mvs"
| "check_attribute v (GetAttr d receiver nm) = Some (
     expect (of_function v) receiver TObject ''attribute access'' @
     expect_dest (of_function v) d TObject ''attribute access'')"
| "check_attribute v (SetAttr d receiver nm val) =
     Some (check_pair (of_function v) d TBit receiver val TObject ''attribute assignment'')"
| "check_attribute v (ReadAttribute d receiver nm) = Some (check_read_attribute (of_function v) d receiver)"
| "check_attribute v (WriteAttribute d receiver nm val) =
     Some (check_write_attribute (of_function v) d receiver val)"
| "check_attribute v (DeleteAttr d receiver nm) = Some (
     expect (of_function v) receiver TObject ''del attribute'' @
     expect_dest (of_function v) d TBit ''del attribute'')"

section \<open>The module namespace\<close>

primrec check_namespace :: "verifier \<Rightarrow> nat namespace_op \<Rightarrow> message list" where
  "check_namespace v (LoadGlobal d nm) = expect_dest (of_function v) d TObject ''a global read''"
| "check_namespace v (StoreGlobal d nm val) =
     expect (of_function v) val TObject ''a global write'' @
     expect_dest (of_function v) d TBit ''a global write''"
| "check_namespace v (DeleteGlobal d nm) = expect_dest (of_function v) d TBit ''a global delete''"
| "check_namespace v (LoadClass d cls) =
     expect_dest (of_function v) d TObject ''a class read'' @ expect_emitted_class v cls ''a class read''"
| "check_namespace v (ModuleDict d) = expect_dest (of_function v) d TObject ''the module namespace''"
| "check_namespace v (LoadEllipsis d) = expect_dest (of_function v) d TObject ''the ellipsis singleton''"
| "check_namespace v (MakeSlice d lo up stp) =
     expect_all (of_function v) [lo, up, stp] TObject ''a slice bound'' @
     expect_dest (of_function v) d TObject ''a slice''"
| "check_namespace v (ImportModule d nm fromlist lvl) = expect_dest (of_function v) d TObject ''an import''"
| "check_namespace v (ImportFrom d mdl nm) =
     expect (of_function v) mdl TObject ''an import'' @ expect_dest (of_function v) d TObject ''an import''"
| "check_namespace v (Warn d msg category stacklevel off) =
     expect (of_function v) msg TObject ''a warning's message'' @
     expect_all (of_function v) (option_list category) TObject ''a warning's category'' @
     expect_dest (of_function v) d TObject ''a warning''"

section \<open>Containers\<close>

text \<open>
  The types a tuple build gives its slots: an item's own, or the declared slot's where the item
  widens into it freely. A dangling item ends the check where it stands.
\<close>

fun tuple_item_types ::
    "bir_function \<Rightarrow> rtype list option \<Rightarrow> nat \<Rightarrow> nat val list \<Rightarrow> message list \<times> rtype list option" where
  "tuple_item_types f declared index [] = ([], Some [])"
| "tuple_item_types f declared index (item # items) =
     (case value_type f item of
        None \<Rightarrow> (dangling f item, None)
      | Some ty \<Rightarrow>
          (let slot = (case declared of
                 Some slots \<Rightarrow>
                   (case get slots index of Some s \<Rightarrow> if free_widening ty s then s else ty | None \<Rightarrow> ty)
               | None \<Rightarrow> ty)
           in case tuple_item_types f declared (Suc index) items of
                (es, tys) \<Rightarrow> (es, map_option ((#) slot) tys)))"

definition check_tuple_build ::
    "bir_function \<Rightarrow> register_id \<Rightarrow> nat val list \<Rightarrow> nat list \<Rightarrow> message list" where
  "check_tuple_build f d items moves =
     expect_moves f items moves ''a tuple build'' @
     (let declared = (case register_at f d of
            Some decl \<Rightarrow> (case decl_ty decl of Tuple slots \<Rightarrow> Some slots | _ \<Rightarrow> None)
          | None \<Rightarrow> None)
      in case tuple_item_types f declared 0 items of
           (es, Some tys) \<Rightarrow> es @ expect_dest f d (Tuple tys) ''tuple build''
         | (es, None) \<Rightarrow> es)"

definition check_unpack :: "bir_function \<Rightarrow> register_id \<Rightarrow> nat val \<Rightarrow> nat option \<Rightarrow> message list" where
  "check_unpack f d src starred =
     expect f src TObject ''unpack'' @
     (case register_at f d of
        None \<Rightarrow> []
      | Some decl \<Rightarrow>
          (case decl_ty decl of
             Tuple items \<Rightarrow>
               (if list_ex (\<lambda>item. item \<noteq> TObject) items then [UnpackNotObjects (decl_ty decl)] else []) @
               (case starred of
                  Some index \<Rightarrow>
                    if length items \<le> index
                    then [Text ''the starred slot is past the end of the tuple''] else []
                | None \<Rightarrow> []) @
               expect_dest f d (decl_ty decl) ''unpack''
           | ty \<Rightarrow> [UnpackInto ty]))"

definition check_tuple_get :: "bir_function \<Rightarrow> register_id \<Rightarrow> nat val \<Rightarrow> nat \<Rightarrow> message list" where
  "check_tuple_get f d src index =
     dangling f src @
     (case value_type f src of
        None \<Rightarrow> []
      | Some src_ty \<Rightarrow>
          (case src_ty of
             Tuple items \<Rightarrow>
               (case get items index of
                  None \<Rightarrow> [TupleGetPast index src_ty]
                | Some ty \<Rightarrow> expect_dest f d ty ''tuple get'')
           | _ \<Rightarrow> [TupleGetOf src_ty]))"

definition check_subscript_index :: "bir_function \<Rightarrow> nat val \<Rightarrow> bool \<Rightarrow> message list" where
  "check_subscript_index f index machine =
     dangling f index @
     (case value_type f index of
        Some ty \<Rightarrow>
          if ty \<noteq> TObject \<and> ty \<noteq> TInt \<and> \<not> (machine \<and> is_fixed ty) then [SubscriptIndex ty] else []
      | None \<Rightarrow> [])"

primrec check_container :: "bir_function \<Rightarrow> nat container_op \<Rightarrow> message list" where
  "check_container f (TupleBuild d items mvs) = check_tuple_build f d items mvs"
| "check_container f (Unpack d src starred) = check_unpack f d src starred"
| "check_container f (Extend d container src mapping) = check_pair f d TBit container src TObject ''extend''"
| "check_container f (ToTuple d src) = expect f src TObject ''tuple'' @ expect_dest f d TObject ''tuple''"
| "check_container f (TupleGet d src idx) = check_tuple_get f d src idx"
| "check_container f (BuildList d items mvs) =
     expect_moves f items mvs ''a list display'' @ expect_all f items TObject ''a list element'' @
     expect_dest f d TList ''a list display''"
| "check_container f (BuildSet d items) =
     expect_all f items TObject ''a set element'' @ expect_dest f d TObject ''a set display''"
| "check_container f (BuildTuple d items mvs) =
     expect_moves f items mvs ''a tuple display'' @ expect_all f items TObject ''a tuple element'' @
     expect_dest f d TObject ''a tuple display''"
| "check_container f (BuildDict d pairs) =
     (if odd (length pairs) then [Text ''a dict display needs an even operand count''] else []) @
     expect_all f pairs TObject ''a dict key or value'' @ expect_dest f d TObject ''a dict display''"
| "check_container f (GetItem d container idx) =
     expect f container TObject ''a subscript container'' @ check_subscript_index f idx True @
     expect_dest f d TObject ''a subscript''"
| "check_container f (DictFind d container key) =
     check_pair f d TObject container key TObject ''a fused membership read''"
| "check_container f (SetItem d container idx val) =
     expect f container TObject ''a subscript container'' @ check_subscript_index f idx False @
     expect f val TObject ''a subscript assignment'' @ expect_dest f d TBit ''a subscript assignment''"
| "check_container f (DeleteItem d container idx) = check_pair f d TBit container idx TObject ''del item''"

section \<open>Buffers\<close>

definition check_array_new :: "bir_function \<Rightarrow> register_id \<Rightarrow> nat val list \<Rightarrow> message list" where
  "check_array_new f d items =
     (case map_option decl_ty (register_at f d) of
        Some (Array elem) \<Rightarrow>
          (if is_refcounted elem then [ArrayWouldLeak elem] else []) @
          expect_all f items elem ''an array element''
      | _ \<Rightarrow> [Text ''an array build must land in an array''])"

text \<open>A check that goes on only with the element type of an operand that is an array.\<close>

definition with_element :: "bir_function \<Rightarrow> nat val \<Rightarrow> (rtype \<Rightarrow> message list) \<Rightarrow> message list" where
  "with_element f array rest =
     array_element_errors f array @
     (case array_element f array of Some elem \<Rightarrow> rest elem | None \<Rightarrow> [])"

definition check_array_len :: "bir_function \<Rightarrow> register_id \<Rightarrow> nat val \<Rightarrow> message list" where
  "check_array_len f d array =
     with_element f array (\<lambda>_.
       let wanted = (case register_at f d of
             Some decl \<Rightarrow> if is_fixed (decl_ty decl) then decl_ty decl else TInt
           | None \<Rightarrow> TInt)
       in expect_dest f d wanted ''an array length'')"

definition check_array_read :: "bir_function \<Rightarrow> register_id \<Rightarrow> nat val \<Rightarrow> nat val \<Rightarrow> message list" where
  "check_array_read f d array index =
     with_element f array (\<lambda>elem.
       (if value_type f index \<noteq> Some TInt
        then expect f index (TFixed I64) ''an unchecked array index'' else []) @
       expect_dest f d elem ''an unchecked array read'')"

primrec check_array :: "bir_function \<Rightarrow> nat array_op \<Rightarrow> message list" where
  "check_array f (ArrayNew d items) = check_array_new f d items"
| "check_array f (ArrayGet d array idx) =
     with_element f array (\<lambda>elem. expect_index f idx @ expect_dest f d elem ''an array read'')"
| "check_array f (ArraySet d array idx val) =
     with_element f array (\<lambda>elem.
       expect_index f idx @ expect f val elem ''an array write'' @
       expect_dest f d TBit ''an array write'')"
| "check_array f (ArrayLen d array) = check_array_len f d array"
| "check_array f (ArrayRead d array idx) = check_array_read f d array idx"
| "check_array f (ArrayPush d array val len) =
     expect_all f (option_list len) (TFixed I64) ''an array append'' @
     with_element f array (\<lambda>elem.
       expect f val elem ''an array append'' @ expect_dest f d TBit ''an array append'')"
| "check_array f (ArrayStoreLength array len) =
     expect f len (TFixed I64) ''an array's length'' @ array_element_errors f array"

section \<open>Strings\<close>

definition check_str_index :: "bir_function \<Rightarrow> nat val \<Rightarrow> bool \<Rightarrow> message list" where
  "check_str_index f index machine =
     dangling f index @
     (case value_type f index of
        Some ty \<Rightarrow> if ty \<noteq> TInt \<and> \<not> (machine \<and> ty = TFixed I64) then [StrIndex ty] else []
      | None \<Rightarrow> [])"

definition check_str_concat ::
    "bir_function \<Rightarrow> register_id \<Rightarrow> nat val \<Rightarrow> nat val \<Rightarrow> bool \<Rightarrow> message list" where
  "check_str_concat f d lhs rhs consumes_lhs =
     check_pair f d TStr lhs rhs TStr ''str concatenation'' @
     (if consumes_lhs \<and> (register lhs = None \<or> lhs = rhs)
      then [Text ''a consuming concatenation needs a register of its own to take over''] else []) @
     (case (consumes_lhs, lhs) of
        (True, Register src) \<Rightarrow>
          if src < param_count f then [ConsumesParameter src]
          else if map_option borrowed (register_at f src) = Some True then [ConsumesBorrowed src]
          else []
      | _ \<Rightarrow> [])"

primrec check_str :: "bir_function \<Rightarrow> nat str_op \<Rightarrow> message list" where
  "check_str f (StrGetItem d container idx) =
     expect f container TStr ''a str subscript'' @ check_str_index f idx False @
     expect_dest f d TStr ''a str subscript''"
| "check_str f (StrItemCompare d oper container idx chr) =
     expect f container TStr ''a str subscript'' @ check_str_index f idx True @
     expect_dest f d TBit ''a character comparison''"
| "check_str f (Format d val spec conv) =
     expect f val TObject ''an interpolation'' @ expect_all f (option_list spec) TStr ''a format spec'' @
     expect_dest f d TStr ''an interpolation''"
| "check_str f (Len d src) = expect f src TObject ''len'' @ expect_dest f d TInt ''len''"
| "check_str f (StrConcat d lhs rhs consumes_lhs cat) = check_str_concat f d lhs rhs consumes_lhs"
| "check_str f (StrOfInt d val) =
     expect f val TInt ''str of an int'' @ expect_dest f d TObject ''str of an int''"
| "check_str f (StrConcatInt d lhs val mut) =
     expect f lhs TStr ''concatenating the str of an int'' @
     expect f val TInt ''concatenating the str of an int'' @
     expect_dest f d TStr ''concatenating the str of an int''"

section \<open>Iteration, context managers and exceptions\<close>

definition check_async_context ::
    "bir_function \<Rightarrow> register_id \<Rightarrow> nat val \<Rightarrow> nat val option \<Rightarrow> nat val option \<Rightarrow> message list" where
  "check_async_context f d manager ext exception =
     expect f manager TObject ''an async context manager'' @
     expect_all f (option_list exception) TObject ''an async context manager'' @
     expect_all f (option_list ext) TObject ''an async context manager'' @
     (if (ext \<noteq> None) \<noteq> (exception \<noteq> None)
      then [Text ''an `__aexit__` call names an exit and an exception together or neither''] else []) @
     expect_dest f d TObject ''an async context manager''"

primrec check_control :: "bir_function \<Rightarrow> nat control_op \<Rightarrow> message list" where
  "check_control f (AsyncContext d manager ext exception) = check_async_context f d manager ext exception"
| "check_control f (AsyncIter d src nxt) =
     expect f src TObject ''an async iterator'' @ expect_dest f d TObject ''an async iterator''"
| "check_control f (Enter d manager) =
     expect f manager TObject ''a context manager'' @ expect_dest f d TObject ''`__enter__`''"
| "check_control f (BindExit d manager is_async) =
     expect f manager TObject ''a context manager'' @ expect_dest f d TObject ''a context exit''"
| "check_control f (ExitContext d manager ext exception) =
     expect f manager TObject ''a context manager'' @ expect f ext TObject ''a context exit'' @
     expect f exception TObject ''a context exit'' @ expect_dest f d TBit ''`__exit__`''"
| "check_control f (DelegateIter d src awaitable) =
     expect f src TObject ''a delegation source'' @ expect_dest f d TObject ''a delegation iterator''"
| "check_control f (DelegateStep d inner sent) =
     check_pair f d (Tuple [TObject, TBit]) inner sent TObject ''a delegation step''"
| "check_control f (RaiseWith err val) = expect f val TObject ''a raise with a value''"
| "check_control f (FinishFrame val) = expect f val TObject ''a frame's return value''"
| "check_control f (FetchException d) = expect_dest f d TObject ''fetching an exception''"
| "check_control f (ExceptionMatches d val cls) = check_pair f d TBit val cls TObject ''an exception match''"
| "check_control f (PushHandled d val) =
     expect f val TObject ''entering a handler'' @ expect_dest f d TObject ''entering a handler''"
| "check_control f (PopHandled val) = expect f val TObject ''leaving a handler''"
| "check_control f (RaiseObject exception cause) =
     expect f exception TObject ''a raise'' @ expect_all f (option_list cause) TObject ''a raise cause''"
| "check_control f (Reraise val) = expect f val TObject ''a re-raise''"
| "check_control f (LeaveGenerator val) = expect f val TObject ''a re-raise''"
| "check_control f (GetIter d src cursor) =
     expect f src TObject ''iter'' @ expect_dest f d TObject ''iter'' @
     (case cursor of Some r \<Rightarrow> expect_cursor f r | None \<Rightarrow> [])"
| "check_control f (IterNext d it cursor) =
     expect f it TObject ''next'' @ expect_dest f d TObject ''next'' @
     (case cursor of Some r \<Rightarrow> expect_cursor f r | None \<Rightarrow> [])"
| "check_control f (StopIterationValue d src) =
     expect f src TObject ''a `StopIteration`'s value'' @
     expect_dest f d TObject ''a `StopIteration`'s value''"
| "check_control f (RaiseStandard err msg) = []"

section \<open>An operation and a terminator\<close>

primrec check_op :: "verifier \<Rightarrow> nat op \<Rightarrow> message list option" where
  "check_op v (ScalarOp x) = Some (check_scalar (of_function v) x)"
| "check_op v (PlaceOp x) = Some (check_place (of_function v) x)"
| "check_op v (PatternOp x) = Some (check_pattern (of_function v) x)"
| "check_op v (LicenceOp x) = Some (check_licence (of_function v) x)"
| "check_op v (CallOp x) = check_call_op v x"
| "check_op v (AttributeOp x) = check_attribute v x"
| "check_op v (NamespaceOp x) = Some (check_namespace v x)"
| "check_op v (ContainerOp x) = Some (check_container (of_function v) x)"
| "check_op v (ArrayOp x) = Some (check_array (of_function v) x)"
| "check_op v (StrOp x) = Some (check_str (of_function v) x)"
| "check_op v (ControlOp x) = Some (check_control (of_function v) x)"

definition check_return :: "bir_function \<Rightarrow> nat val \<Rightarrow> message list" where
  "check_return f val =
     dangling f val @
     (let expected = (case value_type f val of
            Some actual \<Rightarrow> if free_widening actual (ret f) then actual else ret f
          | None \<Rightarrow> ret f)
      in expect f val expected ''return'')"

definition check_terminator :: "bir_function \<Rightarrow> nat terminator \<Rightarrow> message list" where
  "check_terminator f term =
     concat (map (\<lambda>target. if block_at f target = None then [MissingBlock target] else [])
       (term_successors term)) @
     (case term of
        Branch cond _ _ \<Rightarrow> expect f cond TBit ''branch condition''
      | Return val \<Rightarrow> check_return f val
      | NarrowShort d src _ _ \<Rightarrow>
          expect f src TInt ''narrow-short source'' @
          (if map_option (\<lambda>decl. is_fixed (decl_ty decl)) (register_at f d) = Some True then []
           else [Text ''narrow-short must write a machine integer''])
      | MachineStep d oper lhs rhs _ _ \<Rightarrow>
          (if oper = Add \<or> oper = Sub then [] else [MachineStepCannot (bin_symbol oper)]) @
          check_pair f d (TFixed I64) lhs rhs (TFixed I64) ''a machine step''
      | Goto _ \<Rightarrow> []
      | Unreachable \<Rightarrow> [])"

end
