(* ===== verification/BIR_Dataflow.thy ===== *)
theory BIR_Dataflow
  imports BIR_Function
begin

text \<open>
  The two shapes every fixpoint of the compiler is written in, each as an executable loop and as a
  locale that says what the loop computes.

  \<^item> \<open>settle\<close>: sweep over all blocks until a sweep changes nothing (\<^verbatim>\<open>liveness.rs\<close>,
    \<^verbatim>\<open>refcount.rs\<close>). The locale \<open>chaotic_iteration\<close> shows that it returns, at a state no step
    changes, of whatever invariant the steps keep.
  \<^item> \<open>worklist\<close>: a queue of blocks and, for each block, the meet over what its predecessors hand it
    (\<^verbatim>\<open>unbound_locals.rs\<close> and the verifier's definite assignment). The locale \<open>forward_must\<close> shows
    that it returns, and that a bit survives exactly if every path from the entry sets it.

  Both loops are \<open>while_option\<close>, whose value \<open>None\<close> is a loop that never ends; that it is not \<open>None\<close>
  is proved, not assumed.
\<close>

lemma ex_le_iff_ex_less: "(\<exists>i \<le> n. P i) \<longleftrightarrow> (\<exists>i < (n :: nat). P i) \<or> P n"
  by (auto simp: le_less)

section \<open>Sweeping until nothing changes\<close>

definition sweep :: "('k \<Rightarrow> 's \<Rightarrow> 's \<times> bool) \<Rightarrow> 'k list \<Rightarrow> 's \<Rightarrow> 's \<times> bool" where
  "sweep step ks s =
     fold (\<lambda>k (s, changed). case step k s of (s', here) \<Rightarrow> (s', changed \<or> here)) ks (s, False)"

definition settle :: "('k \<Rightarrow> 's \<Rightarrow> 's \<times> bool) \<Rightarrow> 'k list \<Rightarrow> 's \<Rightarrow> 's option" where
  "settle step ks s =
     map_option fst (while_option snd (\<lambda>(s, changed). sweep step ks s) (s, True))"

locale chaotic_iteration =
  fixes step :: "'k \<Rightarrow> 's \<Rightarrow> 's \<times> bool"
    and ks :: "'k list"
    and good :: "'s \<Rightarrow> bool"
    and rank :: "'s \<Rightarrow> nat"
  assumes good_step: "good s \<Longrightarrow> k \<in> set ks \<Longrightarrow> good (fst (step k s))"
    and step_unchanged: "good s \<Longrightarrow> k \<in> set ks \<Longrightarrow> \<not> snd (step k s) \<Longrightarrow> fst (step k s) = s"
    and step_changed: "good s \<Longrightarrow> k \<in> set ks \<Longrightarrow> snd (step k s) \<Longrightarrow> rank (fst (step k s)) < rank s"
begin

lemma rank_step: "good s \<Longrightarrow> k \<in> set ks \<Longrightarrow> rank (fst (step k s)) \<le> rank s"
  using step_unchanged [of s k] step_changed [of s k] by (cases "snd (step k s)") auto

lemma sweep_from:
  assumes "good s" "set xs \<subseteq> set ks"
    and "fold (\<lambda>k (s, changed). case step k s of (s', here) \<Rightarrow> (s', changed \<or> here)) xs (s, c) = (s', c')"
  shows "good s' \<and> rank s' \<le> rank s \<and> (c \<longrightarrow> c') \<and> (c' \<and> \<not> c \<longrightarrow> rank s' < rank s)
    \<and> (\<not> c' \<longrightarrow> s' = s \<and> (\<forall>k \<in> set xs. fst (step k s) = s))"
  using assms
proof (induction xs arbitrary: s c)
  case (Cons k xs)
  obtain t d where step: "step k s = (t, d)" by (cases "step k s")
  with Cons.prems have t: "good t" "rank t \<le> rank s" "d \<Longrightarrow> rank t < rank s" "\<not> d \<Longrightarrow> t = s"
    using good_step [of s k] rank_step [of s k] step_changed [of s k] step_unchanged [of s k] by auto
  from Cons.prems(2,3) step have "set xs \<subseteq> set ks"
    and rest: "fold (\<lambda>k (s, changed). case step k s of (s', here) \<Rightarrow> (s', changed \<or> here)) xs
      (t, c \<or> d) = (s', c')" by auto
  from Cons.IH [OF t(1) this] t step show ?case by (cases d) auto
qed simp

lemma sweep_spec:
  assumes "good s" "sweep step ks s = (s', c)"
  shows "good s'" "c \<Longrightarrow> rank s' < rank s" "\<not> c \<Longrightarrow> s' = s \<and> (\<forall>k \<in> set ks. fst (step k s) = s)"
  using sweep_from [OF assms(1) subset_refl assms(2) [unfolded sweep_def]] by auto

definition settled :: "'s \<Rightarrow> bool" where
  "settled s \<longleftrightarrow> good s \<and> (\<forall>k \<in> set ks. fst (step k s) = s)"

definition loop_inv :: "'s \<times> bool \<Rightarrow> bool" where
  "loop_inv p \<longleftrightarrow> good (fst p) \<and> (\<not> snd p \<longrightarrow> settled (fst p))"

lemma loop_inv_step: "loop_inv (s, c) \<Longrightarrow> loop_inv (sweep step ks s)"
proof (cases "sweep step ks s")
  case (Pair s' c')
  assume "loop_inv (s, c)"
  then have "good s" by (simp add: loop_inv_def)
  from sweep_spec [OF this Pair] Pair show ?thesis by (auto simp: loop_inv_def settled_def)
qed

lemma settles:
  assumes "good s"
  shows "\<exists>s'. settle step ks s = Some s' \<and> settled s'"
proof -
  let ?P = loop_inv and ?c = "\<lambda>(s, changed). sweep step ks s"
  let ?m = "\<lambda>(s, changed). 2 * rank s + of_bool changed"
  have step: "?P (?c p)" if "?P p" "snd p" for p
    using that loop_inv_step by (cases p) auto
  have "?m (?c p) < ?m p" if "?P p" "snd p" for p
    using sweep_spec [of "fst p" "fst (?c p)" "snd (?c p)"] that
    by (cases p; cases "snd (?c p)") (auto simp: loop_inv_def case_prod_beta)
  with step obtain p where p: "while_option snd ?c (s, True) = Some p"
    using measure_while_option_Some [of ?P snd ?c ?m "(s, True)"] assms
    by (auto simp: loop_inv_def)
  have "?P p"
    using while_option_rule [of ?P snd ?c, OF _ p] step assms by (simp add: loop_inv_def)
  moreover have "\<not> snd p" using while_option_stop [OF p] .
  ultimately show ?thesis using p by (auto simp: settle_def loop_inv_def)
qed

end

section \<open>The queue of blocks\<close>

text \<open>The writes of a block, marked in a vector of flags; a register past its end is skipped.\<close>

fun mark_written :: "nat list \<Rightarrow> bool list \<Rightarrow> bool list" where
  "mark_written [] state = state"
| "mark_written (r # rs) state =
     mark_written rs (if r < length state then state[r := True] else state)"

lemma length_mark_written [simp]: "length (mark_written rs state) = length state"
  by (induction rs arbitrary: state) auto

lemma nth_mark_written:
  "i < length state \<Longrightarrow> mark_written rs state ! i \<longleftrightarrow> state ! i \<or> i \<in> set rs"
  by (induction rs arbitrary: state) (auto simp: nth_list_update)

lemma mark_written_append: "mark_written (xs @ ys) state = mark_written ys (mark_written xs state)"
  by (induction xs arbitrary: state) auto

type_synonym incoming = "bool list option list"

definition merge_edge :: "block_id \<times> bool list \<Rightarrow> incoming \<times> block_id list \<Rightarrow> incoming \<times> block_id list" where
  "merge_edge = (\<lambda>(target, state) (incoming, queue).
     if length incoming \<le> target then (incoming, queue)
     else (case incoming ! target of
             Some existing \<Rightarrow>
               let merged = map2 (\<and>) existing state
               in if merged = existing then (incoming, queue)
                  else (incoming[target := Some merged], queue @ [target])
           | None \<Rightarrow> (incoming[target := Some state], queue @ [target])))"

definition worklist_step ::
    "(block_id \<Rightarrow> bool list \<Rightarrow> (block_id \<times> bool list) list) \<Rightarrow> incoming \<times> block_id list \<Rightarrow>
     incoming \<times> block_id list" where
  "worklist_step edges = (\<lambda>(incoming, queue).
     case queue of
       [] \<Rightarrow> (incoming, [])
     | b # queue' \<Rightarrow>
         (case get incoming b of
            Some (Some state) \<Rightarrow> fold merge_edge (edges b state) (incoming, queue')
          | _ \<Rightarrow> (incoming, queue')))"

definition worklist ::
    "nat \<Rightarrow> bool list \<Rightarrow> (block_id \<Rightarrow> bool list \<Rightarrow> (block_id \<times> bool list) list) \<Rightarrow> incoming option" where
  "worklist count start edges =
     map_option fst (while_option (\<lambda>(incoming, queue). queue \<noteq> []) (worklist_step edges)
       ((replicate count None)[entry := Some start], [entry]))"

text \<open>
  A path of the flow graph, by what has been written along it. \<open>gen b\<close> lists the edges out of \<open>b\<close>
  and the registers written on the way over each.
\<close>

inductive arrives :: "nat \<Rightarrow> nat set \<Rightarrow> (block_id \<Rightarrow> (block_id \<times> nat list) list) \<Rightarrow> block_id \<Rightarrow> nat set \<Rightarrow> bool"
  for count init gen where
  start: "arrives count init gen entry init"
| edge: "arrives count init gen b w \<Longrightarrow> (t, rs) \<in> set (gen b) \<Longrightarrow> t < count \<Longrightarrow>
    arrives count init gen t (w \<union> set rs)"

locale forward_must =
  fixes count width :: nat
    and init :: "bool list"
    and edges :: "block_id \<Rightarrow> bool list \<Rightarrow> (block_id \<times> bool list) list"
    and gen :: "block_id \<Rightarrow> (block_id \<times> nat list) list"
  assumes init_length: "length init = width"
    and edges_gen: "length state = width \<Longrightarrow> b < count \<Longrightarrow>
      edges b state = map (\<lambda>(t, rs). (t, mark_written rs state)) (gen b)"
begin

abbreviation on_path :: "block_id \<Rightarrow> nat set \<Rightarrow> bool" where
  "on_path \<equiv> arrives count {i. i < width \<and> init ! i} gen"

text \<open>What a vector says of its block: it comes from paths that exist.\<close>

definition explained :: "block_id \<Rightarrow> bool list \<Rightarrow> bool" where
  "explained b d \<longleftrightarrow> length d = width \<and> (\<exists>w. on_path b w)
     \<and> (\<forall>i < width. \<not> d ! i \<longrightarrow> (\<exists>w. on_path b w \<and> i \<notin> w))"

definition below :: "bool list option \<Rightarrow> bool list \<Rightarrow> bool" where
  "below x s \<longleftrightarrow> (\<exists>d. x = Some d \<and> (\<forall>i < width. d ! i \<longrightarrow> s ! i))"

definition sane :: "incoming \<Rightarrow> bool" where
  "sane inc \<longleftrightarrow> length inc = count \<and> (\<forall>b < count. \<forall>d. inc ! b = Some d \<longrightarrow> explained b d)"

definition potential :: "bool list option \<Rightarrow> nat" where
  "potential x = (case x of None \<Rightarrow> Suc width | Some d \<Rightarrow> count_list d True)"

definition effort :: "incoming \<times> block_id list \<Rightarrow> nat" where
  "effort p = 2 * sum_list (map potential (fst p)) + length (snd p)"

lemma count_meet:
  assumes "length d = length s"
  shows "count_list (map2 (\<and>) d s) True \<le> count_list d True
    \<and> (map2 (\<and>) d s \<noteq> d \<longrightarrow> count_list (map2 (\<and>) d s) True < count_list d True)"
  using assms
proof (induction d s rule: list_induct2)
  case (Cons a d b s)
  then show ?case by (cases a; cases b) auto
qed simp

lemma potential_new: "length d = width \<Longrightarrow> potential (Some d) < potential None"
  using count_le_length [of d True] by (simp add: potential_def)

lemma effort_update:
  assumes "t < length inc" "potential x < potential (inc ! t)"
  shows "effort (inc[t := x], q @ [t]) < effort (inc, q)"
proof -
  have "potential (inc ! t) \<le> sum_list (map potential inc)"
    using elem_le_sum_list [of t "map potential inc"] assms(1) by simp
  with assms show ?thesis by (simp add: effort_def map_update sum_list_update)
qed

text \<open>What merging one edge, and then a list of edges, does to the vectors and the queue.\<close>

definition merges :: "(block_id \<times> bool list) set \<Rightarrow> incoming \<times> block_id list \<Rightarrow> incoming \<times> block_id list \<Rightarrow> bool" where
  "merges es p p' \<longleftrightarrow>
     sane (fst p') \<and> effort p' \<le> effort p \<and> set (snd p) \<subseteq> set (snd p')
     \<and> (\<forall>b < count. b \<in> set (snd p') \<or> fst p' ! b = fst p ! b)
     \<and> (\<forall>b < count. \<forall>s. below (fst p ! b) s \<longrightarrow> below (fst p' ! b) s)
     \<and> (\<forall>(t, s) \<in> es. t < count \<longrightarrow> below (fst p' ! t) s)"

lemma merges_trans:
  assumes "merges es p q" "merges fs q r"
  shows "merges (es \<union> fs) p r"
proof -
  have "b \<in> set (snd r) \<or> fst r ! b = fst p ! b" if "b < count" for b
    using assms that unfolding merges_def by (metis subsetD)
  moreover have "below (fst r ! t) s" if "(t, s) \<in> es \<union> fs" "t < count" for t s
    using assms that unfolding merges_def by blast
  ultimately show ?thesis using assms unfolding merges_def by auto
qed

lemma merges_refl: "sane (fst p) \<Longrightarrow> merges {} p p"
  by (simp add: merges_def)

lemma explained_meet:
  assumes "explained b d" "explained b s"
  shows "explained b (map2 (\<and>) d s)"
  using assms unfolding explained_def by auto

lemma merge_edge_merges:
  assumes "sane inc" "t < count \<Longrightarrow> explained t s"
  shows "merges {(t, s)} (inc, q) (merge_edge (t, s) (inc, q))"
proof (cases "t < count")
  case True
  then have t: "t < length inc" "explained t s" using assms by (auto simp: sane_def)
  show ?thesis
  proof (cases "inc ! t")
    case None
    then have "effort (inc[t := Some s], q @ [t]) < effort (inc, q)"
      using t potential_new [of s] by (intro effort_update) (auto simp: explained_def)
    with None t assms True show ?thesis
      by (auto simp: merges_def merge_edge_def sane_def below_def nth_list_update)
  next
    case (Some d)
    then have d: "explained t d" using assms(1) True by (auto simp: sane_def)
    then have len: "length d = width" "length s = width" using t by (auto simp: explained_def)
    show ?thesis
    proof (cases "map2 (\<and>) d s = d")
      case True
      have "d ! i \<longrightarrow> s ! i" if "i < width" for i
        using arg_cong [OF True, of "\<lambda>x. x ! i"] that len by auto
      with True Some t assms(1) show ?thesis
        by (auto simp: merges_def merge_edge_def below_def)
    next
      case False
      then have "effort (inc[t := Some (map2 (\<and>) d s)], q @ [t]) < effort (inc, q)"
        using t Some count_meet [of d s] len by (intro effort_update) (auto simp: potential_def)
      with False Some t assms(1) \<open>t < count\<close> explained_meet [OF d t(2)] len show ?thesis
        by (auto simp: merges_def merge_edge_def sane_def below_def nth_list_update)
    qed
  qed
next
  case False
  with assms show ?thesis by (auto simp: merges_def merge_edge_def sane_def)
qed

lemma fold_merges:
  assumes "sane (fst p)" "\<forall>(t, s) \<in> set es. t < count \<longrightarrow> explained t s"
  shows "merges (set es) p (fold merge_edge es p)"
  using assms
proof (induction es arbitrary: p)
  case (Cons e es)
  obtain t s where e: "e = (t, s)" by (cases e)
  have first: "merges {e} p (merge_edge e p)"
    using merge_edge_merges [of "fst p" t s "snd p"] Cons.prems e by auto
  then have "sane (fst (merge_edge e p))" by (simp add: merges_def)
  with Cons have "merges (set es) (merge_edge e p) (fold merge_edge es (merge_edge e p))" by auto
  from merges_trans [OF first this] show ?case by simp
qed (simp add: merges_refl)

text \<open>The loop's invariant: a block whose edges are not all accounted for is in the queue.\<close>

definition stable :: "incoming \<Rightarrow> block_id \<Rightarrow> bool" where
  "stable inc b \<longleftrightarrow> (\<forall>d. inc ! b = Some d \<longrightarrow>
     (\<forall>(t, s) \<in> set (edges b d). t < count \<longrightarrow> below (inc ! t) s))"

definition loop_inv :: "incoming \<times> block_id list \<Rightarrow> bool" where
  "loop_inv p \<longleftrightarrow> sane (fst p) \<and> (entry < count \<longrightarrow> below (fst p ! entry) init)
     \<and> (\<forall>b < count. b \<notin> set (snd p) \<longrightarrow> stable (fst p) b)"

lemma explained_edge:
  assumes "explained b d" "b < count" "(t, s) \<in> set (edges b d)" "t < count"
  shows "explained t s"
proof -
  from assms obtain rs where rs: "(t, rs) \<in> set (gen b)" and s: "s = mark_written rs d"
    using edges_gen [of d b] by (auto simp: explained_def)
  have step: "on_path t (w \<union> set rs)" if "on_path b w" for w
    using arrives.edge [OF that rs assms(4)] .
  show ?thesis
    unfolding explained_def s
  proof (intro conjI allI impI)
    fix i assume i: "i < width" "\<not> mark_written rs d ! i"
    with assms(1) have "i \<notin> set rs" "\<not> d ! i" by (auto simp: explained_def nth_mark_written)
    with i assms(1) obtain w where "on_path b w" "i \<notin> w" by (auto simp: explained_def)
    with step \<open>i \<notin> set rs\<close> show "\<exists>w. on_path t w \<and> i \<notin> w" by blast
  qed (use assms(1) step in \<open>auto simp: explained_def\<close>)
qed

lemma stable_after:
  assumes "merges es (inc, q) p'" "stable inc b" "b < count" "b \<notin> set (snd p')"
  shows "stable (fst p') b"
proof -
  from assms have "fst p' ! b = inc ! b" by (auto simp: merges_def)
  with assms(1,2) show ?thesis by (fastforce simp: stable_def merges_def)
qed

lemma loop_inv_step:
  assumes "loop_inv (inc, b # q)"
  shows "loop_inv (worklist_step edges (inc, b # q))
    \<and> effort (worklist_step edges (inc, b # q)) < effort (inc, b # q)"
proof (cases "b < count \<and> inc ! b \<noteq> None")
  case True
  then obtain d where d: "inc ! b = Some d" by auto
  have sane: "sane inc" using assms by (simp add: loop_inv_def)
  with True d have "explained b d" by (auto simp: sane_def)
  then have "merges (set (edges b d)) (inc, q) (fold merge_edge (edges b d) (inc, q))"
    (is "merges _ _ ?p")
    using sane True explained_edge [of b d] by (intro fold_merges) auto
  note merges = this
  have step: "worklist_step edges (inc, b # q) = ?p"
    using True d sane by (simp add: worklist_step_def get_def sane_def)
  have "stable (fst ?p) c" if "c < count" "c \<notin> set (snd ?p)" for c
  proof (cases "c = b")
    case True
    then have "fst ?p ! b = Some d" using merges that d by (auto simp: merges_def)
    with merges True show ?thesis by (auto simp: merges_def stable_def)
  next
    case False
    have "set q \<subseteq> set (snd ?p)" using merges by (simp add: merges_def)
    with that False assms have "stable inc c" by (auto simp: loop_inv_def)
    from stable_after [OF merges this that] show ?thesis .
  qed
  then show ?thesis
    using merges assms unfolding step
    by (auto simp: merges_def loop_inv_def effort_def entry_def)
next
  case False
  then have "worklist_step edges (inc, b # q) = (inc, q)"
    using assms by (auto simp: worklist_step_def get_def loop_inv_def sane_def)
  moreover have "stable inc b" if "b < count" using False that by (simp add: stable_def)
  ultimately show ?thesis using assms by (auto simp: loop_inv_def effort_def)
qed

lemma loop_inv_start: "loop_inv ((replicate count None)[entry := Some init], [entry])"
proof -
  have "explained entry init"
    using init_length arrives.start [of count "{i. i < width \<and> init ! i}" gen]
    by (auto simp: explained_def)
  then show ?thesis
    by (auto simp: loop_inv_def sane_def below_def stable_def entry_def nth_list_update)
qed

text \<open>A vector nothing is left to change is no larger than any path's writes.\<close>

lemma stable_sound:
  assumes "loop_inv (inc, [])" "on_path b w"
    and "0 < count"
  shows "b < count \<and> (\<exists>d. inc ! b = Some d \<and> (\<forall>i < width. d ! i \<longrightarrow> i \<in> w))"
  using assms(2)
proof induction
  case start
  with assms(1,3) show ?case by (auto simp: loop_inv_def below_def entry_def)
next
  case (edge b w t rs)
  then obtain d where b: "b < count" and d: "inc ! b = Some d" "\<forall>i < width. d ! i \<longrightarrow> i \<in> w"
    by auto
  with assms(1) have len: "length d = width" by (auto simp: loop_inv_def sane_def explained_def)
  with edge b have "(t, mark_written rs d) \<in> set (edges b d)" using edges_gen [of d b] by force
  with assms(1) b d edge have "below (inc ! t) (mark_written rs d)"
    by (fastforce simp: loop_inv_def stable_def)
  then obtain d' where d': "inc ! t = Some d'" "\<forall>i < width. d' ! i \<longrightarrow> mark_written rs d ! i"
    by (auto simp: below_def)
  then have "i \<in> w \<union> set rs" if "i < width" "d' ! i" for i
    using that d len by (auto simp: nth_mark_written)
  with d' edge.hyps show ?case by blast
qed

lemma worklist_exact:
  "\<exists>inc. worklist count init edges = Some inc \<and> length inc = count
     \<and> (\<forall>b < count. inc ! b = None \<longleftrightarrow> (\<nexists>w. on_path b w))
     \<and> (\<forall>b < count. \<forall>d. inc ! b = Some d \<longrightarrow> length d = width
          \<and> (\<forall>i < width. d ! i \<longleftrightarrow> (\<forall>w. on_path b w \<longrightarrow> i \<in> w)))"
proof -
  let ?s = "((replicate count None)[entry := Some init], [entry])"
  let ?b = "\<lambda>(incoming, queue). queue \<noteq> []"
  have step: "loop_inv (worklist_step edges p) \<and> effort (worklist_step edges p) < effort p"
    if "loop_inv p" "?b p" for p
  proof -
    obtain inc b q where "p = (inc, b # q)" using \<open>?b p\<close> by (cases p; cases "snd p") auto
    with loop_inv_step that show ?thesis by simp
  qed
  obtain p where p: "while_option ?b (worklist_step edges) ?s = Some p"
    using measure_while_option_Some [of loop_inv ?b "worklist_step edges" effort ?s] step loop_inv_start
    by blast
  have "loop_inv p"
    using while_option_rule [of loop_inv ?b "worklist_step edges", OF _ p] step loop_inv_start by blast
  moreover have "snd p = []" using while_option_stop [OF p] by (cases p) simp
  ultimately have inv: "loop_inv (fst p, [])" by (cases p) simp
  then have sane: "sane (fst p)" by (simp add: loop_inv_def)
  have reached: "fst p ! b = None \<longleftrightarrow> (\<nexists>w. on_path b w)" if "b < count" for b
    using stable_sound [OF inv, of b] sane that
    by (cases "fst p ! b") (auto simp: sane_def explained_def)
  have exact: "length d = width \<and> (\<forall>i < width. d ! i \<longleftrightarrow> (\<forall>w. on_path b w \<longrightarrow> i \<in> w))"
    if "b < count" "fst p ! b = Some d" for b d
  proof -
    have "explained b d" using sane that by (simp add: sane_def)
    moreover have "i \<in> w" if "on_path b w" "i < width" "d ! i" for i w
      using stable_sound [OF inv that(1)] \<open>fst p ! b = Some d\<close> \<open>b < count\<close> that by auto
    ultimately show ?thesis unfolding explained_def by blast
  qed
  have "worklist count init edges = Some (fst p)" using p by (simp add: worklist_def)
  with reached exact sane show ?thesis unfolding sane_def by blast
qed

end

end
