(* ===== verification/BIR_Paths.thy ===== *)
theory BIR_Paths
  imports BIR_Dataflow
begin

text \<open>
  Paths through a function, operation by operation, and the forward analysis of what has been
  written along them. The verifier and the unbound-locals pass run the same worklist with one
  difference, which registers an operation writes, so that is a parameter here.

  \<open>reaches\<close> is the yardstick: a step executes one operation, takes an edge of the terminator at the
  end of the block, or leaves for the block's handler from any point, keeping what was written
  before that point.
\<close>

section \<open>Paths\<close>

text \<open>What the terminator of a block writes on its way to a successor.\<close>

definition edge_writes :: "basic_block \<Rightarrow> block_id \<Rightarrow> nat list" where
  "edge_writes blk target =
     (case written_on_edge (terminator blk) of
        Some (d, fits) \<Rightarrow> if target = fits then [d] else []
      | None \<Rightarrow> [])"

inductive reaches :: "(nat op \<Rightarrow> nat list) \<Rightarrow> bir_function \<Rightarrow> block_id \<Rightarrow> nat \<Rightarrow> nat set \<Rightarrow> bool"
  for written f where
  start: "reaches written f entry 0 {r. r < param_count f \<and> r < length (registers f)}"
| operation: "reaches written f b i w \<Longrightarrow> block_at f b = Some blk \<Longrightarrow> i < length (block_ops blk) \<Longrightarrow>
    reaches written f b (Suc i) (w \<union> set (written (block_ops blk ! i)))"
| handler: "reaches written f b i w \<Longrightarrow> block_at f b = Some blk \<Longrightarrow> i \<le> length (block_ops blk) \<Longrightarrow>
    error_target blk = Some h \<Longrightarrow> h < length (blocks f) \<Longrightarrow> reaches written f h 0 w"
| jump: "reaches written f b (length (block_ops blk)) w \<Longrightarrow> block_at f b = Some blk \<Longrightarrow>
    t \<in> set (term_successors (terminator blk)) \<Longrightarrow> t < length (blocks f) \<Longrightarrow>
    reaches written f t 0 (w \<union> set (edge_writes blk t))"

definition writes_of :: "(nat op \<Rightarrow> nat list) \<Rightarrow> nat op list \<Rightarrow> nat list" where
  "writes_of written ops = concat (map written ops)"

lemma writes_of_simps [simp]:
  "writes_of written [] = []"
  "writes_of written (op # ops) = written op @ writes_of written ops"
  "writes_of written (xs @ ys) = writes_of written xs @ writes_of written ys"
  by (simp_all add: writes_of_def)

section \<open>The analysis\<close>

definition entry_state :: "bir_function \<Rightarrow> bool list" where
  "entry_state f = map (\<lambda>index. index < param_count f) [0..<length (registers f)]"

definition flow_edges ::
    "(nat op \<Rightarrow> nat list) \<Rightarrow> bir_function \<Rightarrow> block_id \<Rightarrow> bool list \<Rightarrow> (block_id \<times> bool list) list" where
  "flow_edges written f b before =
     (case block_at f b of
        None \<Rightarrow> []
      | Some blk \<Rightarrow>
          let state = mark_written (writes_of written (block_ops blk)) before
          in map (\<lambda>target. (target, mark_written (edge_writes blk target) state))
               (term_successors (terminator blk))
             @ map (\<lambda>target. (target, before)) (option_list (error_target blk)))"

definition flow_gen ::
    "(nat op \<Rightarrow> nat list) \<Rightarrow> bir_function \<Rightarrow> block_id \<Rightarrow> (block_id \<times> nat list) list" where
  "flow_gen written f b =
     (case block_at f b of
        None \<Rightarrow> []
      | Some blk \<Rightarrow>
          map (\<lambda>target. (target, writes_of written (block_ops blk) @ edge_writes blk target))
            (term_successors (terminator blk))
          @ map (\<lambda>target. (target, [])) (option_list (error_target blk)))"

definition definitely_written :: "(nat op \<Rightarrow> nat list) \<Rightarrow> bir_function \<Rightarrow> incoming option" where
  "definitely_written written f =
     worklist (length (blocks f)) (entry_state f) (flow_edges written f)"

interpretation flow: forward_must "length (blocks f)" "length (registers f)" "entry_state f"
  "flow_edges written f" "flow_gen written f"
  for written f
  by unfold_locales
    (simp_all add: entry_state_def flow_edges_def flow_gen_def Let_def mark_written_append o_def
      option.map_comp split: option.splits)

section \<open>The analysis against the paths\<close>

abbreviation block_paths :: "(nat op \<Rightarrow> nat list) \<Rightarrow> bir_function \<Rightarrow> block_id \<Rightarrow> nat set \<Rightarrow> bool" where
  "block_paths written f \<equiv>
     arrives (length (blocks f)) {r. r < length (registers f) \<and> entry_state f ! r} (flow_gen written f)"

lemma entry_state_set:
  "{r. r < length (registers f) \<and> entry_state f ! r} = {r. r < param_count f \<and> r < length (registers f)}"
  by (auto simp: entry_state_def)

lemma block_path_positions:
  assumes "reaches written f b 0 w" "block_at f b = Some blk" "i \<le> length (block_ops blk)"
  shows "reaches written f b i (w \<union> set (writes_of written (take i (block_ops blk))))"
  using assms(3)
proof (induction i)
  case (Suc i)
  then have "reaches written f b i (w \<union> set (writes_of written (take i (block_ops blk))))" by simp
  from reaches.operation [OF this assms(2)] Suc.prems show ?case
    by (simp add: take_Suc_conv_app_nth Un_assoc)
qed (use assms(1) in simp)

lemma block_path_reaches: "block_paths written f b w \<Longrightarrow> reaches written f b 0 w"
proof (induction rule: arrives.induct)
  case start
  then show ?case using reaches.start by (simp add: entry_state_set)
next
  case (edge b w t rs)
  from edge.hyps(2) obtain blk where blk: "block_at f b = Some blk"
    by (cases "block_at f b") (simp_all add: flow_gen_def)
  have all: "reaches written f b (length (block_ops blk)) (w \<union> set (writes_of written (block_ops blk)))"
    using block_path_positions [OF edge.IH blk, of "length (block_ops blk)"] by simp
  from edge.hyps(2) blk consider
    "t \<in> set (term_successors (terminator blk))" "rs = writes_of written (block_ops blk) @ edge_writes blk t"
    | "error_target blk = Some t" "rs = []"
    by (auto simp: flow_gen_def)
  then show ?case
  proof cases
    case 1
    with reaches.jump [OF all blk] edge.hyps show ?thesis by (simp add: Un_assoc)
  next
    case 2
    with reaches.handler [OF edge.IH blk] edge.hyps show ?thesis by simp
  qed
qed

lemma reaches_block_path:
  assumes "reaches written f b i w"
  shows "\<exists>w'. block_paths written f b w' \<and>
    (\<forall>blk. block_at f b = Some blk \<longrightarrow> i \<le> length (block_ops blk) \<and>
       w' \<union> set (writes_of written (take i (block_ops blk))) \<subseteq> w) \<and> (i = 0 \<longrightarrow> w' \<subseteq> w)"
  using assms
proof induction
  case start
  then show ?case
    using arrives.start [of "length (blocks f)" _ "flow_gen written f"]
    by (intro exI [of _ "{r. r < length (registers f) \<and> entry_state f ! r}"])
      (simp add: entry_state_set)
next
  case (operation b i w blk)
  then show ?case by (fastforce simp: take_Suc_conv_app_nth)
next
  case (handler b i w blk h)
  then obtain w' where w': "block_paths written f b w'" "w' \<subseteq> w" by fastforce
  moreover have "(h, []) \<in> set (flow_gen written f b)" using handler by (simp add: flow_gen_def)
  ultimately have "block_paths written f h w'"
    using arrives.edge [of "length (blocks f)" _ "flow_gen written f" b w' h "[]"] handler by simp
  with w' show ?case by auto
next
  case (jump b blk w t)
  then obtain w' where w': "block_paths written f b w'" "w' \<union> set (writes_of written (block_ops blk)) \<subseteq> w"
    by fastforce
  moreover have "(t, writes_of written (block_ops blk) @ edge_writes blk t) \<in> set (flow_gen written f b)"
    using jump by (simp add: flow_gen_def)
  ultimately have "block_paths written f t (w' \<union> set (writes_of written (block_ops blk) @ edge_writes blk t))"
    using arrives.edge [of "length (blocks f)" _ "flow_gen written f" b w' t] jump by blast
  with w' show ?case by fastforce
qed

text \<open>
  The vector of a block and the writes before a position in it: some path reaches the position
  without having written the register exactly when the analysis says it may be missing there.
\<close>

lemma definitely_written_exact:
  "\<exists>inc. definitely_written written f = Some inc \<and> length inc = length (blocks f)
     \<and> (\<forall>b blk i r. block_at f b = Some blk \<longrightarrow> i \<le> length (block_ops blk) \<longrightarrow>
          r < length (registers f) \<longrightarrow>
          ((\<exists>w. reaches written f b i w \<and> r \<notin> w) \<longleftrightarrow>
           (\<exists>state. inc ! b = Some state \<and>
              \<not> mark_written (writes_of written (take i (block_ops blk))) state ! r)))
     \<and> (\<forall>b state. b < length inc \<longrightarrow> inc ! b = Some state \<longrightarrow> length state = length (registers f))"
proof -
  obtain inc where inc: "definitely_written written f = Some inc" "length inc = length (blocks f)"
    and none: "\<And>b. b < length (blocks f) \<Longrightarrow> inc ! b = None \<longleftrightarrow> (\<nexists>w. block_paths written f b w)"
    and some: "\<And>b d. b < length (blocks f) \<Longrightarrow> inc ! b = Some d \<Longrightarrow> length d = length (registers f) \<and>
      (\<forall>i < length (registers f). d ! i \<longleftrightarrow> (\<forall>w. block_paths written f b w \<longrightarrow> i \<in> w))"
    using flow.worklist_exact [of f written] unfolding definitely_written_def by blast
  have "(\<exists>w. reaches written f b i w \<and> r \<notin> w) \<longleftrightarrow>
      (\<exists>state. inc ! b = Some state \<and> \<not> mark_written (writes_of written (take i (block_ops blk))) state ! r)"
    if blk: "block_at f b = Some blk" "i \<le> length (block_ops blk)" and r: "r < length (registers f)"
    for b blk i r
  proof -
    have b: "b < length (blocks f)" using blk by (auto simp: block_at_def dest: get_SomeD)
    let ?ws = "set (writes_of written (take i (block_ops blk)))"
    have "(\<exists>w. reaches written f b i w \<and> r \<notin> w) \<longleftrightarrow> (\<exists>w. block_paths written f b w \<and> r \<notin> w \<union> ?ws)"
      using reaches_block_path [of written f b i] blk
        block_path_positions [OF block_path_reaches blk] by blast
    also have "\<dots> \<longleftrightarrow> (\<exists>state. inc ! b = Some state \<and>
        \<not> mark_written (writes_of written (take i (block_ops blk))) state ! r)"
    proof (cases "inc ! b")
      case None
      with none [OF b] show ?thesis by auto
    next
      case (Some d)
      with some [OF b Some] r show ?thesis by (auto simp: nth_mark_written)
    qed
    finally show ?thesis .
  qed
  with inc some show ?thesis by (intro exI [of _ inc]) auto
qed

end
