(* ===== verification/BIR_Checked.thy ===== *)
theory BIR_Checked
  imports BIR_Check BIR_Paths
begin

text \<open>
  What the checks of one operation establish when they report nothing: that what it reads is
  declared, that what it writes is declared (with the three exceptions the checks have), that the
  accessors see all of it, and that a reference is only ever given away by a register that owns one.
\<close>

section \<open>The checks the others are written with\<close>

named_theorems check_simps "when a check reports nothing"

lemma value_type_None: "value_type f v = None \<longleftrightarrow> (\<exists>r. v = Register r \<and> register_at f r = None)"
  by (cases v) (simp_all add: value_type_def)

lemma dangling_Nil [check_simps]: "dangling f v = [] \<longleftrightarrow> value_type f v \<noteq> None"
  by (cases "value_type f v") (auto simp: dangling_def value_type_None split: val.splits)

definition fits_in :: "bir_function \<Rightarrow> nat val \<Rightarrow> rtype \<Rightarrow> bool" where
  "fits_in f v expected \<longleftrightarrow>
     (\<exists>actual. value_type f v = Some actual \<and> (actual = expected \<or> free_widening actual expected))"

lemma fits_in_declared: "fits_in f v ty \<Longrightarrow> value_type f v \<noteq> None"
  by (auto simp: fits_in_def)

lemma expect_Nil [check_simps]: "expect f v expected what = [] \<longleftrightarrow> fits_in f v expected"
  by (auto simp: expect_def dangling_Nil fits_in_def split: option.splits)

lemma expect_all_Nil [check_simps]:
  "expect_all f vs expected what = [] \<longleftrightarrow> (\<forall>v \<in> set vs. fits_in f v expected)"
  by (simp add: expect_all_def expect_Nil)

lemma expect_dest_Nil [check_simps]:
  "expect_dest f d expected what = [] \<longleftrightarrow> map_option decl_ty (register_at f d) = Some expected"
  by (auto simp: expect_dest_def split: option.splits)

lemma expect_cursor_Nil [check_simps]:
  "expect_cursor f r = [] \<longleftrightarrow> map_option decl_ty (register_at f r) = Some (TFixed I64)"
  by (auto simp: expect_cursor_def split: option.splits)

lemma expect_moves_Nil [check_simps]:
  "expect_moves f items moves what = [] \<longleftrightarrow>
     (\<forall>index \<in> set moves. \<exists>v. get items index = Some v \<and> hands_over f v)"
  unfolding expect_moves_def concat_eq_Nil_iff by (auto split: option.splits)

lemma expect_index_Nil: "expect_index f v = [] \<Longrightarrow> value_type f v \<noteq> None"
  by (simp add: expect_index_def dangling_Nil)

lemma expect_borrowed_Nil: "expect_borrowed f v what = [] \<Longrightarrow> value_type f v \<noteq> None"
  by (simp add: expect_borrowed_def dangling_Nil)

lemma expect_attribute_receiver_Nil: "expect_attribute_receiver f v = [] \<Longrightarrow> value_type f v \<noteq> None"
  by (simp add: expect_attribute_receiver_def dangling_Nil)

lemma check_subscript_index_Nil: "check_subscript_index f v m = [] \<Longrightarrow> value_type f v \<noteq> None"
  by (simp add: check_subscript_index_def dangling_Nil)

lemma check_str_index_Nil: "check_str_index f v m = [] \<Longrightarrow> value_type f v \<noteq> None"
  by (simp add: check_str_index_def dangling_Nil)

lemma check_exactness_Nil: "check_exactness f v = [] \<Longrightarrow> value_type f v \<noteq> None"
  by (simp add: check_exactness_def dangling_Nil)

lemma check_field_receiver_Nil:
  "check_field_receiver v x cls what = Some [] \<Longrightarrow> value_type (of_function v) x \<noteq> None"
  by (cases "value_type (of_function v) x") (auto simp: check_field_receiver_def dangling_Nil)

lemma with_element_Nil [check_simps]:
  "with_element f array rest = [] \<longleftrightarrow>
     (\<exists>elem. value_type f array = Some (Array elem) \<and> rest elem = [])"
  by (auto simp: with_element_def array_element_errors_def array_element_def dangling_Nil
      split: option.splits rtype.splits)

lemma array_element_errors_Nil: "array_element_errors f v = [] \<Longrightarrow> value_type f v \<noteq> None"
  by (simp add: array_element_errors_def dangling_Nil)

lemma check_pair_Nil [check_simps]:
  "check_pair f d result lhs rhs ty what = [] \<longleftrightarrow>
     fits_in f lhs ty \<and> fits_in f rhs ty \<and> map_option decl_ty (register_at f d) = Some result"
  by (simp add: check_pair_def check_simps)

lemma tuple_item_types_Nil:
  "tuple_item_types f declared index items = ([], tys) \<Longrightarrow>
     (\<forall>v \<in> set items. value_type f v \<noteq> None) \<and> tys \<noteq> None"
  by (induction f declared index items arbitrary: tys rule: tuple_item_types.induct)
    (auto simp: dangling_Nil Let_def split: option.splits prod.splits)

lemma hands_over_register: "hands_over f v \<Longrightarrow> value_type f v \<noteq> None"
  by (auto simp: hands_over_def split: val.splits option.splits)

lemma moved_element_declared: "moved_element f v path = Some ty \<Longrightarrow> value_type f v \<noteq> None"
  by (auto simp: moved_element_def split: val.splits option.splits if_splits)

lemmas declared_rules = fits_in_declared expect_index_Nil expect_borrowed_Nil
  expect_attribute_receiver_Nil check_subscript_index_Nil check_str_index_Nil check_exactness_Nil
  check_field_receiver_Nil array_element_errors_Nil hands_over_register moved_element_declared

section \<open>What is read is declared\<close>

definition reads_declared :: "bir_function \<Rightarrow> nat op \<Rightarrow> bool" where
  "reads_declared f op \<longleftrightarrow> (\<forall>v \<in> set (operands op). value_type f v \<noteq> None)"

lemma check_scalar_reads: "check_scalar f x = [] \<Longrightarrow> reads_declared f (ScalarOp x)"
  by (cases x)
    (auto simp: reads_declared_def check_simps check_assign_def check_int_binary_def Let_def
      check_float_binary_def check_int_compare_def check_float_object_compare_def
      check_float_object_binary_def check_unary_def dest: fits_in_declared split: if_splits)

lemma check_place_reads: "check_place f x = [] \<Longrightarrow> reads_declared f (PlaceOp x)"
  by (cases x)
    (auto simp: reads_declared_def check_simps check_box_def check_unbox_def check_release_def
      check_move_def dest: fits_in_declared moved_element_declared
      split: if_splits val.splits option.splits)

lemma check_pattern_reads: "check_pattern f x = [] \<Longrightarrow> reads_declared f (PatternOp x)"
  by (cases x) (auto simp: reads_declared_def check_simps dest: fits_in_declared split: option.splits)

lemma check_licence_reads: "check_licence f x = [] \<Longrightarrow> reads_declared f (LicenceOp x)"
  by (cases x)
    (auto simp: reads_declared_def check_simps
      dest: fits_in_declared expect_borrowed_Nil check_exactness_Nil)

lemma check_call_op_reads: "check_call_op v x = Some [] \<Longrightarrow> reads_declared (of_function v) (CallOp x)"
  by (cases x)
    (auto simp: reads_declared_def check_simps check_call_native_def check_new_instance_def
      check_make_closure_def set_filter_map dest: fits_in_declared split: option.splits)

lemma check_attribute_reads:
  "check_attribute v x = Some [] \<Longrightarrow> reads_declared (of_function v) (AttributeOp x)"
  by (cases x)
    (auto simp: reads_declared_def check_simps check_get_cell_def check_get_field_def
      check_set_field_def check_read_attribute_def check_write_attribute_def
      dest: fits_in_declared check_field_receiver_Nil expect_attribute_receiver_Nil split: if_splits)

lemma check_namespace_reads:
  "check_namespace v x = [] \<Longrightarrow> reads_declared (of_function v) (NamespaceOp x)"
  by (cases x) (auto simp: reads_declared_def check_simps dest: fits_in_declared split: option.splits)

lemma check_container_reads: "check_container f x = [] \<Longrightarrow> reads_declared f (ContainerOp x)"
proof (cases x)
  case (TupleBuild d items mvs)
  moreover assume "check_container f x = []"
  ultimately show ?thesis
    by (auto simp: reads_declared_def check_tuple_build_def Let_def split: prod.splits option.splits
        dest!: tuple_item_types_Nil)
qed (auto simp: reads_declared_def check_simps check_unpack_def check_tuple_get_def
    dest: fits_in_declared check_subscript_index_Nil)

lemma check_array_reads: "check_array f x = [] \<Longrightarrow> reads_declared f (ArrayOp x)"
  by (cases x)
    (auto simp: reads_declared_def check_simps check_array_new_def check_array_len_def
      check_array_read_def dest: fits_in_declared expect_index_Nil array_element_errors_Nil
      split: if_splits option.splits rtype.splits)

lemma check_str_reads: "check_str f x = [] \<Longrightarrow> reads_declared f (StrOp x)"
  by (cases x)
    (auto simp: reads_declared_def check_simps check_str_concat_def
      dest: fits_in_declared check_str_index_Nil split: option.splits)

lemma check_control_reads: "check_control f x = [] \<Longrightarrow> reads_declared f (ControlOp x)"
  by (cases x)
    (auto simp: reads_declared_def check_simps check_async_context_def
      dest: fits_in_declared split: option.splits)

lemma check_op_reads: "check_op v op = Some [] \<Longrightarrow> reads_declared (of_function v) op"
  by (cases op)
    (auto intro: check_scalar_reads check_place_reads check_pattern_reads check_licence_reads
      check_call_op_reads check_attribute_reads check_namespace_reads check_container_reads
      check_array_reads check_str_reads check_control_reads)

section \<open>What is written is declared\<close>

text \<open>The three operations whose checks say nothing of a destination that is not declared.\<close>

fun unchecked_dest :: "nat op \<Rightarrow> bool" where
  "unchecked_dest (PlaceOp (DeleteLocal _)) = True"
| "unchecked_dest (AttributeOp (ReadAttribute _ _ _)) = True"
| "unchecked_dest (ContainerOp (Unpack _ _ _)) = True"
| "unchecked_dest _ = False"

definition writes_declared :: "bir_function \<Rightarrow> nat op \<Rightarrow> bool" where
  "writes_declared f op \<longleftrightarrow>
     (\<forall>d. dest op = Some d \<longrightarrow> \<not> unchecked_dest op \<longrightarrow> register_at f d \<noteq> None)
     \<and> (\<forall>r. loop_cursor op = Some r \<longrightarrow> map_option decl_ty (register_at f r) = Some (TFixed I64))"

lemma check_scalar_writes: "check_scalar f x = [] \<Longrightarrow> writes_declared f (ScalarOp x)"
  by (cases x)
    (auto simp: writes_declared_def check_simps check_assign_def check_int_binary_def Let_def
      check_float_binary_def check_int_compare_def check_float_object_compare_def
      check_float_object_binary_def check_unary_def split: if_splits unary_op.splits option.splits)

lemma check_place_writes: "check_place f x = [] \<Longrightarrow> writes_declared f (PlaceOp x)"
  by (cases x)
    (auto simp: writes_declared_def check_simps check_box_def check_unbox_def check_move_def
      split: if_splits option.splits)

lemma check_pattern_writes: "check_pattern f x = [] \<Longrightarrow> writes_declared f (PatternOp x)"
  by (cases x) (auto simp: writes_declared_def check_simps)

lemma check_licence_writes: "check_licence f x = [] \<Longrightarrow> writes_declared f (LicenceOp x)"
  by (cases x) (auto simp: writes_declared_def check_simps)

lemma check_call_op_writes: "check_call_op v x = Some [] \<Longrightarrow> writes_declared (of_function v) (CallOp x)"
  by (cases x)
    (auto simp: writes_declared_def check_simps check_call_native_def check_new_instance_def
      check_make_closure_def split: option.splits if_splits)

lemma check_attribute_writes:
  "check_attribute v x = Some [] \<Longrightarrow> writes_declared (of_function v) (AttributeOp x)"
  by (cases x)
    (auto simp: writes_declared_def check_simps check_get_cell_def check_get_field_def
      check_write_attribute_def split: if_splits option.splits)

lemma check_namespace_writes:
  "check_namespace v x = [] \<Longrightarrow> writes_declared (of_function v) (NamespaceOp x)"
  by (cases x) (auto simp: writes_declared_def check_simps)

lemma check_container_writes: "check_container f x = [] \<Longrightarrow> writes_declared f (ContainerOp x)"
proof (cases x)
  case (TupleBuild d items mvs)
  moreover assume "check_container f x = []"
  ultimately show ?thesis
    by (auto simp: writes_declared_def check_tuple_build_def check_simps Let_def
        split: prod.splits option.splits dest: tuple_item_types_Nil)
qed (auto simp: writes_declared_def check_simps check_tuple_get_def dangling_Nil
    split: option.splits rtype.splits)

lemma check_array_writes: "check_array f x = [] \<Longrightarrow> writes_declared f (ArrayOp x)"
  by (cases x)
    (auto simp: writes_declared_def check_simps check_array_new_def check_array_len_def Let_def
      check_array_read_def split: option.splits rtype.splits)

lemma check_str_writes: "check_str f x = [] \<Longrightarrow> writes_declared f (StrOp x)"
  by (cases x) (auto simp: writes_declared_def check_simps check_str_concat_def)

lemma check_control_writes: "check_control f x = [] \<Longrightarrow> writes_declared f (ControlOp x)"
  by (cases x) (auto simp: writes_declared_def check_simps check_async_context_def)

lemma check_op_writes: "check_op v op = Some [] \<Longrightarrow> writes_declared (of_function v) op"
  by (cases op)
    (auto intro: check_scalar_writes check_place_writes check_pattern_writes check_licence_writes
      check_call_op_writes check_attribute_writes check_namespace_writes check_container_writes
      check_array_writes check_str_writes check_control_writes)

lemma check_op_exits_paired: "check_op v op = Some [] \<Longrightarrow> exits_paired op"
  by (cases op rule: exits_paired.cases) (auto simp: check_async_context_def split: if_splits)

section \<open>References given away\<close>

text \<open>
  The registers an operation empties of a reference while it goes on: what a move takes, what a
  display or a store is handed rather than given a copy of, and the left side of a consuming
  concatenation.
\<close>

fun emptied :: "nat op \<Rightarrow> nat val list" where
  "emptied (PlaceOp (Move _ src _)) = [src]"
| "emptied (ContainerOp (TupleBuild _ items moves)) = filter_map (get items) moves"
| "emptied (ContainerOp (BuildList _ items moves)) = filter_map (get items) moves"
| "emptied (ContainerOp (BuildTuple _ items moves)) = filter_map (get items) moves"
| "emptied (AttributeOp (SetField _ _ _ v moves _)) = (if moves then [v] else [])"
| "emptied (StrOp (StrConcat _ lhs _ consumes_lhs _)) = (if consumes_lhs then [lhs] else [])"
| "emptied _ = []"

definition owns_what_it_gives :: "bir_function \<Rightarrow> nat val \<Rightarrow> bool" where
  "owns_what_it_gives f v \<longleftrightarrow>
     (\<exists>r decl. v = Register r \<and> register_at f r = Some decl \<and> param_count f \<le> r \<and> \<not> borrowed decl
        \<and> is_refcounted (decl_ty decl))"

lemma hands_over_owns: "hands_over f v \<Longrightarrow> owns_what_it_gives f v"
  by (auto simp: hands_over_def owns_what_it_gives_def split: val.splits option.splits
      intro: owns_one_reference_refcounted)

lemma moved_element_owns: "moved_element f v path = Some ty \<Longrightarrow> owns_what_it_gives f v"
  by (auto simp: moved_element_def owns_what_it_gives_def split: val.splits option.splits if_splits
      intro: element_owned_refcounted owns_one_reference_refcounted)

lemma fits_in_str: "fits_in f (Register r) TStr \<Longrightarrow> map_option decl_ty (register_at f r) = Some TStr"
proof -
  have "free_widening ty TStr \<Longrightarrow> False" for ty by (cases ty) auto
  then show "fits_in f (Register r) TStr \<Longrightarrow> map_option decl_ty (register_at f r) = Some TStr"
    by (auto simp: fits_in_def)
qed

lemma check_str_concat_owns:
  assumes "check_str_concat f d lhs rhs True = []"
  shows "owns_what_it_gives f lhs"
proof -
  from assms have fits: "fits_in f lhs TStr" and reg: "register lhs \<noteq> None"
    by (auto simp: check_str_concat_def check_simps split: if_splits)
  then obtain r where r: "lhs = Register r" by (cases lhs) auto
  with assms fits_in_str [of f r] fits show ?thesis
    by (auto simp: check_str_concat_def owns_what_it_gives_def split: if_splits)
qed

lemma check_op_gives:
  assumes "check_op v op = Some []" "x \<in> set (emptied op)"
  shows "owns_what_it_gives (of_function v) x"
  using assms
proof (cases op rule: emptied.cases)
  case (1 d src path)
  then show ?thesis using assms
    by (auto simp: check_move_def split: option.splits dest: moved_element_owns)
next
  case (2 d items moves)
  then show ?thesis using assms
    by (fastforce simp: check_tuple_build_def check_simps set_filter_map dest: hands_over_owns)
next
  case (3 d items moves)
  then show ?thesis using assms
    by (fastforce simp: check_simps set_filter_map dest: hands_over_owns)
next
  case (4 d items moves)
  then show ?thesis using assms
    by (fastforce simp: check_simps set_filter_map dest: hands_over_owns)
next
  case (5 receiver cls fld val moves present)
  then show ?thesis using assms
    by (auto simp: check_set_field_def split: if_splits dest: hands_over_owns)
next
  case (6 d lhs rhs consumes_lhs cat)
  then show ?thesis using assms by (auto split: if_splits intro: check_str_concat_owns)
qed simp_all

end
