(* ===== verification/BIR_Search.thy ===== *)
theory BIR_Search
  imports BIR_Function
begin

text \<open>
  The searches of the verifier's release check: which blocks the entry reaches, from the front of a
  queue, and which blocks reach a given one, from the top of a stack. Both mark what they have seen
  and push what they mark, so one loop, parameterised by the end it takes from, models the two. The
  locale \<open>graph_search\<close> shows that it ends, having seen exactly what can be reached.
\<close>

section \<open>The loop\<close>

definition visit :: "nat \<Rightarrow> nat set \<times> nat list \<Rightarrow> nat set \<times> nat list" where
  "visit x = (\<lambda>(seen, queue). if x \<in> seen then (seen, queue) else (insert x seen, queue @ [x]))"

definition explore_step ::
    "(nat list \<Rightarrow> nat \<times> nat list) \<Rightarrow> (nat \<Rightarrow> nat list) \<Rightarrow> nat set \<times> nat list \<Rightarrow> nat set \<times> nat list" where
  "explore_step pop next = (\<lambda>(seen, queue).
     case pop queue of (x, queue') \<Rightarrow> fold visit (next x) (seen, queue'))"

definition explore :: "(nat list \<Rightarrow> nat \<times> nat list) \<Rightarrow> (nat \<Rightarrow> nat list) \<Rightarrow> nat \<Rightarrow> nat set option" where
  "explore pop next start =
     map_option fst (while_option (\<lambda>(seen, queue). queue \<noteq> []) (explore_step pop next) ({start}, [start]))"

definition pop_front :: "nat list \<Rightarrow> nat \<times> nat list" where
  "pop_front queue = (hd queue, tl queue)"

definition pop_back :: "nat list \<Rightarrow> nat \<times> nat list" where
  "pop_back stack = (last stack, butlast stack)"

section \<open>What it sees\<close>

definition edges_by :: "(nat \<Rightarrow> nat list) \<Rightarrow> (nat \<times> nat) set" where
  "edges_by next = {(x, y). y \<in> set (next x)}"

locale graph_search =
  fixes pop :: "nat list \<Rightarrow> nat \<times> nat list"
    and succs :: "nat \<Rightarrow> nat list"
  assumes pop_set: "queue \<noteq> [] \<Longrightarrow> set queue = insert (fst (pop queue)) (set (snd (pop queue)))"
    and pop_shorter: "queue \<noteq> [] \<Longrightarrow> length (snd (pop queue)) < length queue"
    and finite_succs: "finite (\<Union>x. set (succs x))"
begin

definition pending :: "nat \<Rightarrow> nat set \<times> nat list \<Rightarrow> nat" where
  "pending start p = 2 * card (insert start (\<Union>x. set (succs x)) - fst p) + length (snd p)"

definition search_inv :: "nat \<Rightarrow> nat set \<times> nat list \<Rightarrow> bool" where
  "search_inv start p \<longleftrightarrow> start \<in> fst p \<and> set (snd p) \<subseteq> fst p
     \<and> fst p \<subseteq> {x. (start, x) \<in> (edges_by succs)\<^sup>*}
     \<and> (\<forall>x \<in> fst p. x \<notin> set (snd p) \<longrightarrow> set (succs x) \<subseteq> fst p)"

lemma visit_pending:
  assumes "x \<in> insert start (\<Union>x. set (succs x))"
  shows "pending start (visit x p) \<le> pending start p"
proof (cases "x \<in> fst p")
  case False
  let ?u = "insert start (\<Union>x. set (succs x))"
  have "?u - insert x (fst p) \<subset> ?u - fst p" using assms False by auto
  then have "card (?u - insert x (fst p)) < card (?u - fst p)"
    using finite_succs by (intro psubset_card_mono) auto
  with False show ?thesis by (cases p) (simp add: visit_def pending_def)
qed (cases p; simp add: visit_def)

lemma visit_seen: "fst (visit x p) = insert x (fst p)"
  "set (snd (visit x p)) = set (snd p) \<union> ({x} - fst p)"
  by (auto simp: visit_def split: prod.splits)

lemma fold_visit_seen:
  "fst (fold visit xs p) = fst p \<union> set xs"
  "set (snd (fold visit xs p)) = set (snd p) \<union> (set xs - fst p)"
  by (induction xs arbitrary: p) (auto simp: visit_seen)

lemma fold_visit_pending:
  "set xs \<subseteq> insert start (\<Union>x. set (succs x)) \<Longrightarrow> pending start (fold visit xs p) \<le> pending start p"
proof (induction xs arbitrary: p)
  case (Cons x xs)
  then have "pending start (fold visit xs (visit x p)) \<le> pending start (visit x p)" by simp
  also have "\<dots> \<le> pending start p" using Cons.prems by (intro visit_pending) simp
  finally show ?case by simp
qed simp

lemma search_inv_step:
  assumes "search_inv start (seen, queue)" "queue \<noteq> []"
  shows "search_inv start (explore_step pop succs (seen, queue))
    \<and> pending start (explore_step pop succs (seen, queue)) < pending start (seen, queue)"
proof -
  obtain x q where pop: "pop queue = (x, q)" by (cases "pop queue")
  have queue: "set queue = insert x (set q)" "length q < length queue"
    using pop_set [OF assms(2)] pop_shorter [OF assms(2)] pop by auto
  let ?p = "fold visit (succs x) (seen, q)"
  have seen: "fst ?p = seen \<union> set (succs x)" "set (snd ?p) = set q \<union> (set (succs x) - seen)"
    by (simp_all add: fold_visit_seen)
  have x: "x \<in> seen" "(start, x) \<in> (edges_by succs)\<^sup>*"
    using assms(1) queue by (auto simp: search_inv_def)
  then have reached: "set (succs x) \<subseteq> {y. (start, y) \<in> (edges_by succs)\<^sup>*}"
    by (auto simp: edges_by_def intro: rtrancl_into_rtrancl)
  have closed: "set (succs y) \<subseteq> seen \<union> set (succs x)"
    if "y \<in> seen \<union> set (succs x)" "y \<notin> set q \<union> (set (succs x) - seen)" for y
  proof (cases "y = x")
    case False
    with that queue assms(1) have "set (succs y) \<subseteq> seen" by (auto simp: search_inv_def)
    then show ?thesis by blast
  qed simp
  have "search_inv start ?p"
    using assms(1) queue reached closed unfolding search_inv_def seen by auto
  moreover have "pending start ?p \<le> pending start (seen, q)"
    by (rule fold_visit_pending) auto
  moreover have "pending start (seen, q) < pending start (seen, queue)"
    using queue by (simp add: pending_def)
  ultimately show ?thesis using pop by (simp add: explore_step_def)
qed

lemma explore_exact: "explore pop succs start = Some {x. (start, x) \<in> (edges_by succs)\<^sup>*}"
proof -
  let ?b = "\<lambda>(seen, queue). queue \<noteq> []" and ?s = "({start}, [start])"
  have step: "search_inv start (explore_step pop succs p)
      \<and> pending start (explore_step pop succs p) < pending start p"
    if "search_inv start p" "?b p" for p
    using search_inv_step [of start "fst p" "snd p"] that by (cases p) auto
  have init: "search_inv start ?s" by (simp add: search_inv_def)
  obtain p where p: "while_option ?b (explore_step pop succs) ?s = Some p"
    using measure_while_option_Some [of "search_inv start" ?b "explore_step pop succs" "pending start" ?s]
      step init by blast
  have inv: "search_inv start p"
    using while_option_rule [of "search_inv start" ?b "explore_step pop succs", OF _ p] step init by blast
  have empty: "snd p = []" using while_option_stop [OF p] by (cases p) simp
  have "x \<in> fst p" if "(start, x) \<in> (edges_by succs)\<^sup>*" for x
    using that inv empty by induction (auto simp: search_inv_def edges_by_def)
  with inv have "fst p = {x. (start, x) \<in> (edges_by succs)\<^sup>*}" by (auto simp: search_inv_def)
  with p show ?thesis by (simp add: explore_def)
qed

end

section \<open>Forwards and backwards through a function\<close>

definition next_blocks :: "bir_function \<Rightarrow> block_id \<Rightarrow> block_id list" where
  "next_blocks f b = (case block_at f b of Some blk \<Rightarrow> successors blk | None \<Rightarrow> [])"

definition predecessors :: "bir_function \<Rightarrow> block_id \<Rightarrow> block_id list" where
  "predecessors f b =
     concat (map (\<lambda>index. map (\<lambda>_. index) (filter (\<lambda>t. t = b) (successors (blocks f ! index))))
       [0..<length (blocks f)])"

definition flow_rel :: "bir_function \<Rightarrow> (block_id \<times> block_id) set" where
  "flow_rel f = edges_by (next_blocks f)"

lemma flow_rel_iff: "(a, b) \<in> flow_rel f \<longleftrightarrow> a < length (blocks f) \<and> b \<in> set (successors (blocks f ! a))"
  by (auto simp: flow_rel_def edges_by_def next_blocks_def block_at_def get_def)

lemma predecessors_converse: "edges_by (predecessors f) = (flow_rel f)\<inverse>"
proof -
  have "a \<in> set (predecessors f b) \<longleftrightarrow> (a, b) \<in> flow_rel f" for a b
    by (force simp: predecessors_def flow_rel_iff)
  then show ?thesis by (auto simp: edges_by_def)
qed

lemma finite_next_blocks: "finite (\<Union>b. set (next_blocks f b))"
proof -
  have "set (next_blocks f b) \<subseteq> (\<Union>blk \<in> set (blocks f). set (successors blk))" for b
    by (auto simp: next_blocks_def block_at_def get_def intro!: bexI [OF _ nth_mem])
  then have "(\<Union>b. set (next_blocks f b)) \<subseteq> (\<Union>blk \<in> set (blocks f). set (successors blk))" by blast
  then show ?thesis by (rule finite_subset) simp
qed

lemma finite_predecessors: "finite (\<Union>b. set (predecessors f b))"
proof -
  have "(\<Union>b. set (predecessors f b)) \<subseteq> {..<length (blocks f)}" by (auto simp: predecessors_def)
  then show ?thesis by (rule finite_subset) simp
qed

interpretation forwards: graph_search pop_front "next_blocks f" for f
  by unfold_locales (auto simp: pop_front_def finite_next_blocks neq_Nil_conv)

interpretation backwards: graph_search pop_back "predecessors f" for f
proof unfold_locales
  fix queue :: "nat list" assume "queue \<noteq> []"
  then show "set queue = insert (fst (pop_back queue)) (set (snd (pop_back queue)))"
    and "length (snd (pop_back queue)) < length queue"
    by (cases queue rule: rev_cases; simp add: pop_back_def)+
qed (rule finite_predecessors)

lemma backwards_exact:
  "explore pop_back (predecessors f) b = Some {a. (a, b) \<in> (flow_rel f)\<^sup>*}"
  using backwards.explore_exact [of f b]
  by (simp add: predecessors_converse rtrancl_converse)

lemma forwards_exact: "explore pop_front (next_blocks f) b = Some {a. (b, a) \<in> (flow_rel f)\<^sup>*}"
  using forwards.explore_exact [of f b] by (simp add: flow_rel_def)

end
