(* ===== verification/BIR_Unbound.thy ===== *)
theory BIR_Unbound
  imports BIR_Paths
begin

text \<open>
  \<^verbatim>\<open>by_ir/src/unbound_locals.rs\<close>: find the named registers some path reads without having
  written, and flag them, together with those a \<open>del\<close> can unbind, so that the emitter keeps a
  byte beside each saying whether it holds a value.
\<close>

section \<open>The pass\<close>

definition dest_written :: "nat op \<Rightarrow> nat list" where
  "dest_written op = option_list (dest op)"

text \<open>\<open>note\<close>: an operand that names a register the state says may be missing.\<close>

definition noted :: "bir_function \<Rightarrow> bool list \<Rightarrow> nat val \<Rightarrow> nat option" where
  "noted f state v =
     (case v of
        Register r \<Rightarrow>
          if get state r = Some False
             \<and> (case register_at f r of Some decl \<Rightarrow> decl_name decl \<noteq> None | None \<Rightarrow> False)
          then Some r else None
      | _ \<Rightarrow> None)"

fun noted_ops :: "bir_function \<Rightarrow> nat op list \<Rightarrow> bool list \<Rightarrow> nat list \<times> bool list" where
  "noted_ops f [] state = ([], state)"
| "noted_ops f (op # ops) state =
     (case noted_ops f ops (mark_written (dest_written op) state) of
        (rest, final) \<Rightarrow> (filter_map (noted f state) (operands op) @ rest, final))"

definition noted_block :: "bir_function \<Rightarrow> block_id \<Rightarrow> bool list option \<Rightarrow> nat list" where
  "noted_block f b before =
     (case (block_at f b, before) of
        (Some blk, Some state) \<Rightarrow>
          (case noted_ops f (block_ops blk) state of
             (found, final) \<Rightarrow>
               found @ filter_map (noted f final) (term_operands (terminator blk)))
      | _ \<Rightarrow> [])"

definition unassigned_reads :: "bir_function \<Rightarrow> nat list option" where
  "unassigned_reads f =
     (if blocks f = [] then Some []
      else (case definitely_written dest_written f of
              None \<Rightarrow> None
            | Some inc \<Rightarrow>
                let hits = concat (map (\<lambda>b. noted_block f b (inc ! b)) [0..<length inc]);
                    found = mark_written hits (replicate (length (registers f)) False)
                in Some (filter (\<lambda>index. found ! index) [0..<length (registers f)])))"

definition flag_register :: "nat \<Rightarrow> register_decl list \<Rightarrow> register_decl list" where
  "flag_register r decls =
     (if r < length decls then decls[r := (decls ! r)\<lparr>may_be_unassigned := True\<rparr>] else decls)"

definition unbound_targets :: "bir_function \<Rightarrow> nat list" where
  "unbound_targets f = concat (map (\<lambda>blk. filter_map unbinds (block_ops blk)) (blocks f))"

definition mark :: "bir_function \<Rightarrow> bir_function option" where
  "mark f = map_option
     (\<lambda>flagged. f\<lparr>registers := fold flag_register (flagged @ unbound_targets f) (registers f)\<rparr>)
     (unassigned_reads f)"

section \<open>What it finds\<close>

text \<open>
  A register is read before it is written when some path reaches an operation, or the terminator,
  that reads it, without an earlier write of it.
\<close>

definition read_at :: "basic_block \<Rightarrow> nat \<Rightarrow> nat val list" where
  "read_at blk i =
     (if i < length (block_ops blk) then operands (block_ops blk ! i)
      else term_operands (terminator blk))"

definition reads_before_write :: "bir_function \<Rightarrow> nat \<Rightarrow> bool" where
  "reads_before_write f r \<longleftrightarrow>
     (\<exists>b blk i w. reaches dest_written f b i w \<and> block_at f b = Some blk
        \<and> Register r \<in> set (read_at blk i) \<and> r \<notin> w)"

definition named_register :: "bir_function \<Rightarrow> nat \<Rightarrow> bool" where
  "named_register f r \<longleftrightarrow> (\<exists>decl. register_at f r = Some decl \<and> decl_name decl \<noteq> None)"

lemma noted_Some_iff:
  "noted f state v = Some r \<longleftrightarrow> v = Register r \<and> named_register f r \<and> get state r = Some False"
  by (cases v) (auto simp: noted_def named_register_def split: option.splits)

lemma noted_ops_final: "snd (noted_ops f ops state) = mark_written (writes_of dest_written ops) state"
  by (induction ops arbitrary: state) (simp_all add: mark_written_append case_prod_beta)

lemma noted_ops_found:
  "r \<in> set (fst (noted_ops f ops state)) \<longleftrightarrow>
     (\<exists>i < length ops. \<exists>v \<in> set (operands (ops ! i)).
        noted f (mark_written (writes_of dest_written (take i ops)) state) v = Some r)"
proof (induction ops arbitrary: state)
  case (Cons op ops)
  let ?state = "mark_written (dest_written op) state"
  have "r \<in> set (fst (noted_ops f (op # ops) state)) \<longleftrightarrow>
      (\<exists>v \<in> set (operands op). noted f state v = Some r) \<or> r \<in> set (fst (noted_ops f ops ?state))"
    by (auto simp: set_filter_map split: prod.splits)
  also have "\<dots> \<longleftrightarrow> (\<exists>i < length (op # ops). \<exists>v \<in> set (operands ((op # ops) ! i)).
        noted f (mark_written (writes_of dest_written (take i (op # ops))) state) v = Some r)"
    unfolding Cons.IH by (simp add: Ex_less_Suc2 mark_written_append)
  finally show ?case .
qed simp

lemma noted_block_found:
  assumes "block_at f b = Some blk"
  shows "r \<in> set (noted_block f b (Some state)) \<longleftrightarrow>
    (\<exists>i \<le> length (block_ops blk). \<exists>v \<in> set (read_at blk i).
       noted f (mark_written (writes_of dest_written (take i (block_ops blk))) state) v = Some r)"
proof -
  have "noted_block f b (Some state) = fst (noted_ops f (block_ops blk) state) @
      filter_map (noted f (snd (noted_ops f (block_ops blk) state))) (term_operands (terminator blk))"
    using assms by (simp add: noted_block_def case_prod_beta)
  then show ?thesis
    unfolding ex_le_iff_ex_less
    by (auto simp: noted_ops_found noted_ops_final set_filter_map read_at_def)
qed

lemma reaches_position:
  "reaches written f b i w \<Longrightarrow> block_at f b = Some blk \<Longrightarrow> i \<le> length (block_ops blk)"
  using reaches_block_path by blast

lemma reads_before_write_position:
  "reads_before_write f r \<longleftrightarrow>
     (\<exists>b blk i. block_at f b = Some blk \<and> i \<le> length (block_ops blk) \<and> Register r \<in> set (read_at blk i)
        \<and> (\<exists>w. reaches dest_written f b i w \<and> r \<notin> w))"
  unfolding reads_before_write_def using reaches_position by blast

lemma unassigned_reads_spec:
  "\<exists>rs. unassigned_reads f = Some rs \<and>
     (\<forall>r. r \<in> set rs \<longleftrightarrow> named_register f r \<and> reads_before_write f r)"
proof (cases "blocks f = []")
  case True
  then show ?thesis
    by (simp add: unassigned_reads_def reads_before_write_def block_at_def)
next
  case False
  obtain inc where inc: "definitely_written dest_written f = Some inc" "length inc = length (blocks f)"
    and exact: "\<And>b blk i r. block_at f b = Some blk \<Longrightarrow> i \<le> length (block_ops blk) \<Longrightarrow>
          r < length (registers f) \<Longrightarrow>
          ((\<exists>w. reaches dest_written f b i w \<and> r \<notin> w) \<longleftrightarrow>
           (\<exists>state. inc ! b = Some state \<and>
              \<not> mark_written (writes_of dest_written (take i (block_ops blk))) state ! r))"
    and len: "\<And>b state. b < length inc \<Longrightarrow> inc ! b = Some state \<Longrightarrow> length state = length (registers f)"
    using definitely_written_exact [of dest_written f] by blast
  let ?hits = "concat (map (\<lambda>b. noted_block f b (inc ! b)) [0..<length inc])"
  have hit: "r \<in> set ?hits \<longleftrightarrow> named_register f r \<and> reads_before_write f r" for r
  proof -
    have "r \<in> set (noted_block f b (inc ! b)) \<longleftrightarrow> named_register f r \<and>
        (\<exists>blk i. block_at f b = Some blk \<and> i \<le> length (block_ops blk) \<and> Register r \<in> set (read_at blk i)
           \<and> (\<exists>w. reaches dest_written f b i w \<and> r \<notin> w))" if b: "b < length inc" for b
    proof -
      obtain blk where blk: "block_at f b = Some blk"
        using b inc by (auto simp: block_at_def get_def)
      have reg: "named_register f r \<Longrightarrow> r < length (registers f)"
        by (auto simp: named_register_def register_at_def dest: get_SomeD)
      show ?thesis
      proof (cases "inc ! b")
        case None
        then show ?thesis
          using exact [OF blk] reg by (auto simp: noted_block_def blk)
      next
        case (Some state)
        with len [OF b] have [simp]: "length state = length (registers f)" by simp
        show ?thesis
          unfolding Some noted_block_found [OF blk] noted_Some_iff
          using exact [OF blk] reg Some blk by (auto simp: get_Some_iff)
      qed
    qed
    moreover have "block_at f b = Some blk \<Longrightarrow> b < length inc" for b blk
      using inc by (auto simp: block_at_def dest: get_SomeD)
    moreover have "r \<in> set ?hits \<longleftrightarrow> (\<exists>b < length inc. r \<in> set (noted_block f b (inc ! b)))" by auto
    ultimately show ?thesis unfolding reads_before_write_position by blast
  qed
  moreover have "r < length (registers f)" if "named_register f r" for r
    using that by (auto simp: named_register_def register_at_def dest: get_SomeD)
  ultimately show ?thesis
    using False inc by (auto simp: unassigned_reads_def Let_def nth_mark_written)
qed

section \<open>What it flags\<close>

lemma length_fold_flag [simp]: "length (fold flag_register rs decls) = length decls"
  by (induction rs arbitrary: decls) (auto simp: flag_register_def)

lemma nth_fold_flag:
  "r < length decls \<Longrightarrow> fold flag_register rs decls ! r =
     (decls ! r)\<lparr>may_be_unassigned := may_be_unassigned (decls ! r) \<or> r \<in> set rs\<rparr>"
  by (induction rs arbitrary: decls) (auto simp: flag_register_def nth_list_update)

lemma set_unbound_targets:
  "r \<in> set (unbound_targets f) \<longleftrightarrow> (\<exists>blk \<in> set (blocks f). PlaceOp (DeleteLocal r) \<in> set (block_ops blk))"
proof -
  have "unbinds op = Some r \<longleftrightarrow> op = PlaceOp (DeleteLocal r)" for op
    by (cases op rule: unbinds.cases) auto
  then show ?thesis by (auto simp: unbound_targets_def set_filter_map)
qed

lemma marking:
  "mark f = Some (f\<lparr>registers :=
     map (\<lambda>r. (registers f ! r)\<lparr>may_be_unassigned :=
            may_be_unassigned (registers f ! r)
            \<or> named_register f r \<and> reads_before_write f r
            \<or> (\<exists>blk \<in> set (blocks f). PlaceOp (DeleteLocal r) \<in> set (block_ops blk))\<rparr>)
       [0..<length (registers f)]\<rparr>)"
proof -
  obtain rs where rs: "unassigned_reads f = Some rs"
    "\<And>r. r \<in> set rs \<longleftrightarrow> named_register f r \<and> reads_before_write f r"
    using unassigned_reads_spec [of f] by auto
  have "fold flag_register (rs @ unbound_targets f) (registers f) =
      map (\<lambda>r. (registers f ! r)\<lparr>may_be_unassigned := may_be_unassigned (registers f ! r)
             \<or> r \<in> set (rs @ unbound_targets f)\<rparr>) [0..<length (registers f)]"
    by (rule nth_equalityI) (simp_all add: nth_fold_flag del: set_append fold_append)
  with rs show ?thesis by (simp add: mark_def set_unbound_targets del: fold_append)
qed

section \<open>Properties\<close>

text \<open>
  The fixpoint returns on every function, and finds exactly the named registers that some
  path from the entry, exceptions from any operation included, reads without having written.
\<close>

theorem unassigned_reads_exact:
  "\<exists>rs. unassigned_reads f = Some rs \<and>
     set rs = {r. named_register f r \<and> reads_before_write f r}"
  using unassigned_reads_spec [of f] by auto

text \<open>
  Marking changes nothing but the flags of the register table, and after it a register is
  flagged exactly if it was before, if it is a named register some path reads unwritten, or if a
  \<open>del\<close> of the function unbinds it.
\<close>

theorem mark_exact:
  "mark f = Some (f\<lparr>registers :=
     map (\<lambda>r. (registers f ! r)\<lparr>may_be_unassigned :=
            may_be_unassigned (registers f ! r)
            \<or> named_register f r \<and> reads_before_write f r
            \<or> (\<exists>blk \<in> set (blocks f). PlaceOp (DeleteLocal r) \<in> set (block_ops blk))\<rparr>)
       [0..<length (registers f)]\<rparr>)"
  by (rule marking)

end
