(* ===== verification/BIR_Verify.thy ===== *)
theory BIR_Verify
  imports BIR_Checked BIR_Search BIR_Unbound
begin

text \<open>
  The rest of \<^verbatim>\<open>by_ir/src/verify.rs\<close>: the checks of a whole function (its edges, its defaults,
  that nothing is read before it is written, that every exit releases what it must, that a borrowed
  register is only lent to) and of a module, and the properties a verified function has.

  A verification answers \<open>Some []\<close> for the source's \<open>Ok\<close>, \<open>Some es\<close> for \<open>Err(es)\<close>, and \<open>None\<close> if it
  never returns, which only a cyclic layout chain can bring about.
\<close>

section \<open>Errors\<close>

record verify_error =
  in_function :: ustr
  at_block :: "block_id option"
  says :: message
  about_the_source :: bool

definition file_under :: "bir_function \<Rightarrow> block_id option \<Rightarrow> bool \<Rightarrow> message \<Rightarrow> verify_error" where
  "file_under f b src m =
     \<lparr>in_function = fn_name f, at_block = b, says = m, about_the_source = src\<rparr>"

section \<open>Blocks and defaults\<close>

definition check_block :: "verifier \<Rightarrow> block_id \<Rightarrow> message list option" where
  "check_block v b =
     (case block_at (of_function v) b of
        None \<Rightarrow> Some []
      | Some blk \<Rightarrow>
          sequence_errors
            ([Some (case error_target blk of
                      Some target \<Rightarrow>
                        if block_at (of_function v) target = None then [MissingErrorBlock target] else []
                    | None \<Rightarrow> [])]
             @ map (check_op v) (block_ops blk)
             @ [Some (check_terminator (of_function v) (terminator blk))]))"

text \<open>Run only once \<open>param_count\<close> is known not to exceed the registers, so the slice is in range.\<close>

definition check_defaults :: "bir_function \<Rightarrow> message list" where
  "check_defaults f =
     concat (map (\<lambda>(index, default).
       case default of
         None \<Rightarrow> []
       | Some val \<Rightarrow>
           (case get (take (param_count f) (registers f)) index of
              None \<Rightarrow> [DefaultForMissing index]
            | Some param \<Rightarrow>
                if stands_as_itself_in val (decl_ty param) then []
                else [DefaultNotItself val index (decl_ty param)]))
       (enumerate 0 (defaults f)))"

section \<open>Definite assignment\<close>

definition assigned_written :: "nat op \<Rightarrow> nat list" where
  "assigned_written op = option_list (dest op) @ option_list (loop_cursor op)"

definition check_read :: "bir_function \<Rightarrow> block_id \<Rightarrow> bool list \<Rightarrow> nat val \<Rightarrow> verify_error list" where
  "check_read f b state v =
     (case v of
        Register r \<Rightarrow>
          if (case register_at f r of Some decl \<Rightarrow> may_be_unassigned decl | None \<Rightarrow> False) then []
          else (case get state r of
                  Some False \<Rightarrow>
                    (case (case register_at f r of Some decl \<Rightarrow> decl_name decl | None \<Rightarrow> None) of
                       Some name \<Rightarrow> [file_under f (Some b) True (ReadUnassigned name)]
                     | None \<Rightarrow> [file_under f (Some b) False (ReadBeforeAssigned r)])
                | _ \<Rightarrow> [])
      | _ \<Rightarrow> [])"

fun is_release :: "nat op \<Rightarrow> bool" where
  "is_release (PlaceOp (Release _ _)) = True"
| "is_release _ = False"

fun check_reads :: "bir_function \<Rightarrow> block_id \<Rightarrow> nat op list \<Rightarrow> bool list \<Rightarrow> verify_error list \<times> bool list" where
  "check_reads f b [] state = ([], state)"
| "check_reads f b (op # ops) state =
     (case check_reads f b ops (mark_written (assigned_written op) state) of
        (rest, final) \<Rightarrow>
          ((if is_release op then [] else concat (map (check_read f b state) (operands op))) @ rest, final))"

definition check_block_reads :: "bir_function \<Rightarrow> block_id \<Rightarrow> bool list option \<Rightarrow> verify_error list" where
  "check_block_reads f b before =
     (case (block_at f b, before) of
        (Some blk, Some state) \<Rightarrow>
          (case check_reads f b (block_ops blk) state of
             (es, final) \<Rightarrow>
               es @ concat (map (check_read f b final) (term_operands (terminator blk))))
      | _ \<Rightarrow> [])"

definition check_definite_assignment :: "bir_function \<Rightarrow> verify_error list option" where
  "check_definite_assignment f =
     map_option (\<lambda>inc. concat (map (\<lambda>b. check_block_reads f b (inc ! b)) [0..<length inc]))
       (definitely_written assigned_written f)"

section \<open>Release sets\<close>

definition block_dests :: "bir_function \<Rightarrow> block_id \<Rightarrow> register_id list" where
  "block_dests f b = (case block_at f b of Some blk \<Rightarrow> filter_map dest (block_ops blk) | None \<Rightarrow> [])"

definition releasable :: "bir_function \<Rightarrow> register_id \<Rightarrow> bool" where
  "releasable f r =
     (case register_at f r of
        Some decl \<Rightarrow> is_refcounted (decl_ty decl) \<and> \<not> borrowed decl
      | None \<Rightarrow> False)"

definition missing_releases :: "bir_function \<Rightarrow> register_id list \<Rightarrow> block_id set \<Rightarrow> register_id list" where
  "missing_releases f owned reaching =
     (let held = set [0..<param_count f] \<union> (\<Union>at \<in> reaching. set (block_dests f at))
      in filter (\<lambda>r. r \<notin> set owned \<and> releasable f r) (sorted_list_of_set held))"

definition check_block_releases :: "bir_function \<Rightarrow> block_id set \<Rightarrow> block_id \<Rightarrow> verify_error list option" where
  "check_block_releases f reachable index =
     (if index \<notin> reachable then Some []
      else (case block_at f index of
              None \<Rightarrow> Some []
            | Some blk \<Rightarrow>
                (case owned_at_exit blk of
                   None \<Rightarrow> Some []
                 | Some owned \<Rightarrow>
                     map_option (\<lambda>reaching.
                         map (\<lambda>r. file_under f (Some index) False (NotReleased r))
                           (missing_releases f owned reaching))
                       (explore pop_back (predecessors f) index))))"

definition check_release_sets :: "bir_function \<Rightarrow> verify_error list option" where
  "check_release_sets f =
     (case explore pop_front (next_blocks f) entry of
        None \<Rightarrow> None
      | Some reachable \<Rightarrow>
          sequence_errors (map (check_block_releases f reachable) [0..<length (blocks f)]))"

section \<open>Borrowed registers\<close>

fun lends :: "nat op \<Rightarrow> bool" where
  "lends (ScalarOp (Assign _ _)) = True"
| "lends (ContainerOp (TupleGet _ _ _)) = True"
| "lends (AttributeOp (GetField _ _ _ _)) = True"
| "lends (PlaceOp (Box _ src)) = (case src of VNone \<Rightarrow> True | VBool _ \<Rightarrow> True | VBit _ \<Rightarrow> True | _ \<Rightarrow> False)"
| "lends (PlaceOp (Unbox _ _ ty _)) = (ty = TStr \<or> ty = TList \<or> is_instance ty)"
| "lends _ = False"

definition check_borrowed_writes :: "bir_function \<Rightarrow> verify_error list" where
  "check_borrowed_writes f =
     concat (map (\<lambda>index.
       filter_map (\<lambda>op.
         case dest op of
           Some d \<Rightarrow>
             if (case register_at f d of Some decl \<Rightarrow> borrowed decl | None \<Rightarrow> False) \<and> \<not> lends op
             then Some (file_under f (Some index) False (BorrowedWritten d op)) else None
         | None \<Rightarrow> None)
         (block_ops (blocks f ! index)))
       [0..<length (blocks f)])"

section \<open>A function\<close>

definition run :: "verifier \<Rightarrow> verify_error list option" where
  "run v =
     (let f = of_function v in
      if blocks f = [] then
        Some [file_under f None False (Text ''a function needs at least an entry block'')]
      else if length (registers f) < param_count f then
        Some [file_under f None False (ParamCountExceeds (param_count f) (length (registers f)))]
      else
        sequence_errors
          (map (\<lambda>b. map_option (map (file_under f (Some b) False)) (check_block v b)) [0..<length (blocks f)]
           @ [Some (map (file_under f None False) (check_defaults f)),
              check_definite_assignment f,
              check_release_sets f,
              Some (check_borrowed_writes f)]))"

definition verify_in ::
    "bir_function \<Rightarrow> module_ir option \<Rightarrow> (ustr \<Rightarrow> ustr option) option \<Rightarrow> verify_error list option" where
  "verify_in f m bases = run \<lparr>of_function = f, of_module = m, of_bases = bases\<rparr>"

definition verify :: "bir_function \<Rightarrow> verify_error list option" where
  "verify f = verify_in f None None"

definition verify_within :: "bir_function \<Rightarrow> (ustr \<Rightarrow> ustr option) \<Rightarrow> verify_error list option" where
  "verify_within f bases = verify_in f None (Some bases)"

section \<open>A module\<close>

definition check_field_defaults :: "module_ir \<Rightarrow> verify_error list" where
  "check_field_defaults m =
     concat (map (\<lambda>c.
       filter_map (\<lambda>fd.
         case field_default fd of
           Some val \<Rightarrow>
             if stands_as_itself_in val (field_ty fd) then None
             else Some \<lparr>in_function = class_name c, at_block = None,
                        says = FieldDefaultNotItself val (field_name fd) (field_ty fd),
                        about_the_source = False\<rparr>
         | None \<Rightarrow> None)
         (class_fields c))
       (mod_classes m))"

text \<open>Collecting into a hash map: of two classes of one name the later one's base is kept.\<close>

definition base_chain :: "module_ir \<Rightarrow> ustr \<Rightarrow> ustr option" where
  "base_chain m =
     map_of (rev (filter_map (\<lambda>c.
       case class_base c of
         Some base \<Rightarrow> map_option (\<lambda>name. (class_name c, name)) (base_in_module base)
       | None \<Rightarrow> None)
       (mod_classes m)))"

text \<open>The names of the variants, which is what a discriminant tells apart.\<close>

primrec variant_scalar :: "'r scalar_op \<Rightarrow> string" where
  "variant_scalar (Assign _ _) = ''Assign''"
| "variant_scalar (IntBinary _ _ _ _ _) = ''IntBinary''"
| "variant_scalar (FloatBinary _ _ _ _) = ''FloatBinary''"
| "variant_scalar (IntCompare _ _ _ _) = ''IntCompare''"
| "variant_scalar (ObjectBinary _ _ _ _ _) = ''ObjectBinary''"
| "variant_scalar (ObjectCompare _ _ _ _) = ''ObjectCompare''"
| "variant_scalar (ObjectRichCompare _ _ _ _) = ''ObjectRichCompare''"
| "variant_scalar (StrCompare _ _ _ _) = ''StrCompare''"
| "variant_scalar (Truthy _ _) = ''Truthy''"
| "variant_scalar (FloatCompare _ _ _ _) = ''FloatCompare''"
| "variant_scalar (Unary _ _ _) = ''Unary''"
| "variant_scalar (FloatObjectBinary _ _ _ _) = ''FloatObjectBinary''"
| "variant_scalar (FloatObjectCompare _ _ _ _) = ''FloatObjectCompare''"
| "variant_scalar (Identity _ _ _ _) = ''Identity''"
| "variant_scalar (IntToFloat _ _) = ''IntToFloat''"
| "variant_scalar (TagShort _ _) = ''TagShort''"

primrec variant_place :: "'r place_op \<Rightarrow> string" where
  "variant_place (Box _ _) = ''Box''"
| "variant_place (Unbox _ _ _ _) = ''Unbox''"
| "variant_place (Release _ _) = ''Release''"
| "variant_place (Move _ _ _) = ''Move''"
| "variant_place (DeleteLocal _) = ''DeleteLocal''"
| "variant_place (IsNull _ _) = ''IsNull''"
| "variant_place (Line _) = ''Line''"

primrec variant_pattern :: "'r pattern_op \<Rightarrow> string" where
  "variant_pattern (IsInstance _ _ _) = ''IsInstance''"
| "variant_pattern (CheckSound _ _) = ''CheckSound''"
| "variant_pattern (MatchAttr _ _ _ _ _ _) = ''MatchAttr''"
| "variant_pattern (IsMissing _ _) = ''IsMissing''"
| "variant_pattern (MatchSlice _ _ _ _ _) = ''MatchSlice''"
| "variant_pattern (MatchKey _ _ _) = ''MatchKey''"
| "variant_pattern (MatchRest _ _ _) = ''MatchRest''"
| "variant_pattern (IsMapping _ _) = ''IsMapping''"
| "variant_pattern (HoldsLayout _ _ _) = ''HoldsLayout''"
| "variant_pattern (IsSequence _ _) = ''IsSequence''"
| "variant_pattern (Contains _ _ _ _) = ''Contains''"

primrec variant_licence :: "'r licence_op \<Rightarrow> string" where
  "variant_licence (MethodStands _ _ _ _) = ''MethodStands''"
| "variant_licence (BuiltinStands _ _) = ''BuiltinStands''"
| "variant_licence (LoopGuardsHold _ _ _ _) = ''LoopGuardsHold''"
| "variant_licence (ResolveFunction _ _) = ''ResolveFunction''"
| "variant_licence (FunctionStood _ _) = ''FunctionStood''"
| "variant_licence (FunctionStands _ _ _) = ''FunctionStands''"
| "variant_licence (FunctionCallee _ _ _) = ''FunctionCallee''"
| "variant_licence (AccessorStands _ _ _ _) = ''AccessorStands''"
| "variant_licence (FieldStands _ _ _ _) = ''FieldStands''"
| "variant_licence (LicenceHolds _ _ _ _) = ''LicenceHolds''"
| "variant_licence (DictShadows _ _ _ _) = ''DictShadows''"

primrec variant_call :: "'r call_op \<Rightarrow> string" where
  "variant_call (CallNative _ _ _ _) = ''CallNative''"
| "variant_call (CallUnpacked _ _ _ _) = ''CallUnpacked''"
| "variant_call (MergeKeywords _ _ _ _) = ''MergeKeywords''"
| "variant_call (CallPython _ _ _) = ''CallPython''"
| "variant_call (CallValue _ _ _) = ''CallValue''"
| "variant_call (CallThrough _ _ _ _) = ''CallThrough''"
| "variant_call (CallMethod _ _ _ _) = ''CallMethod''"
| "variant_call (NewInstance _ _ _) = ''NewInstance''"
| "variant_call (MakeClosure _ _ _ _) = ''MakeClosure''"

primrec variant_attribute :: "'r attribute_op \<Rightarrow> string" where
  "variant_attribute (GetCell _ _ _ _ _) = ''GetCell''"
| "variant_attribute (GetField _ _ _ _) = ''GetField''"
| "variant_attribute (RequireField _ _ _) = ''RequireField''"
| "variant_attribute (FieldIsSet _ _ _ _) = ''FieldIsSet''"
| "variant_attribute (SetField _ _ _ _ _ _) = ''SetField''"
| "variant_attribute (GetAttr _ _ _) = ''GetAttr''"
| "variant_attribute (SetAttr _ _ _ _) = ''SetAttr''"
| "variant_attribute (ReadAttribute _ _ _) = ''ReadAttribute''"
| "variant_attribute (WriteAttribute _ _ _ _) = ''WriteAttribute''"
| "variant_attribute (DeleteAttr _ _ _) = ''DeleteAttr''"

primrec variant_namespace :: "'r namespace_op \<Rightarrow> string" where
  "variant_namespace (LoadGlobal _ _) = ''LoadGlobal''"
| "variant_namespace (StoreGlobal _ _ _) = ''StoreGlobal''"
| "variant_namespace (DeleteGlobal _ _) = ''DeleteGlobal''"
| "variant_namespace (LoadClass _ _) = ''LoadClass''"
| "variant_namespace (ModuleDict _) = ''ModuleDict''"
| "variant_namespace (LoadEllipsis _) = ''LoadEllipsis''"
| "variant_namespace (MakeSlice _ _ _ _) = ''MakeSlice''"
| "variant_namespace (ImportModule _ _ _ _) = ''ImportModule''"
| "variant_namespace (ImportFrom _ _ _) = ''ImportFrom''"
| "variant_namespace (Warn _ _ _ _ _) = ''Warn''"

primrec variant_container :: "'r container_op \<Rightarrow> string" where
  "variant_container (TupleBuild _ _ _) = ''TupleBuild''"
| "variant_container (Unpack _ _ _) = ''Unpack''"
| "variant_container (Extend _ _ _ _) = ''Extend''"
| "variant_container (ToTuple _ _) = ''ToTuple''"
| "variant_container (TupleGet _ _ _) = ''TupleGet''"
| "variant_container (BuildList _ _ _) = ''BuildList''"
| "variant_container (BuildSet _ _) = ''BuildSet''"
| "variant_container (BuildTuple _ _ _) = ''BuildTuple''"
| "variant_container (BuildDict _ _) = ''BuildDict''"
| "variant_container (GetItem _ _ _) = ''GetItem''"
| "variant_container (DictFind _ _ _) = ''DictFind''"
| "variant_container (SetItem _ _ _ _) = ''SetItem''"
| "variant_container (DeleteItem _ _ _) = ''DeleteItem''"

primrec variant_array :: "'r array_op \<Rightarrow> string" where
  "variant_array (ArrayNew _ _) = ''ArrayNew''"
| "variant_array (ArrayGet _ _ _) = ''ArrayGet''"
| "variant_array (ArraySet _ _ _ _) = ''ArraySet''"
| "variant_array (ArrayLen _ _) = ''ArrayLen''"
| "variant_array (ArrayRead _ _ _) = ''ArrayRead''"
| "variant_array (ArrayPush _ _ _ _) = ''ArrayPush''"
| "variant_array (ArrayStoreLength _ _) = ''ArrayStoreLength''"

primrec variant_str :: "'r str_op \<Rightarrow> string" where
  "variant_str (StrGetItem _ _ _) = ''StrGetItem''"
| "variant_str (StrItemCompare _ _ _ _ _) = ''StrItemCompare''"
| "variant_str (Format _ _ _ _) = ''Format''"
| "variant_str (Len _ _) = ''Len''"
| "variant_str (StrConcat _ _ _ _ _) = ''StrConcat''"
| "variant_str (StrOfInt _ _) = ''StrOfInt''"
| "variant_str (StrConcatInt _ _ _ _) = ''StrConcatInt''"

primrec variant_control :: "'r control_op \<Rightarrow> string" where
  "variant_control (AsyncContext _ _ _ _) = ''AsyncContext''"
| "variant_control (AsyncIter _ _ _) = ''AsyncIter''"
| "variant_control (Enter _ _) = ''Enter''"
| "variant_control (BindExit _ _ _) = ''BindExit''"
| "variant_control (ExitContext _ _ _ _) = ''ExitContext''"
| "variant_control (DelegateIter _ _ _) = ''DelegateIter''"
| "variant_control (DelegateStep _ _ _) = ''DelegateStep''"
| "variant_control (RaiseWith _ _) = ''RaiseWith''"
| "variant_control (FinishFrame _) = ''FinishFrame''"
| "variant_control (FetchException _) = ''FetchException''"
| "variant_control (ExceptionMatches _ _ _) = ''ExceptionMatches''"
| "variant_control (PushHandled _ _) = ''PushHandled''"
| "variant_control (PopHandled _) = ''PopHandled''"
| "variant_control (RaiseObject _ _) = ''RaiseObject''"
| "variant_control (Reraise _) = ''Reraise''"
| "variant_control (LeaveGenerator _) = ''LeaveGenerator''"
| "variant_control (GetIter _ _ _) = ''GetIter''"
| "variant_control (IterNext _ _ _) = ''IterNext''"
| "variant_control (StopIterationValue _ _) = ''StopIterationValue''"
| "variant_control (RaiseStandard _ _) = ''RaiseStandard''"

primrec variant :: "'r op \<Rightarrow> string" where
  "variant (ScalarOp x) = variant_scalar x"
| "variant (PlaceOp x) = variant_place x"
| "variant (PatternOp x) = variant_pattern x"
| "variant (LicenceOp x) = variant_licence x"
| "variant (CallOp x) = variant_call x"
| "variant (AttributeOp x) = variant_attribute x"
| "variant (NamespaceOp x) = variant_namespace x"
| "variant (ContainerOp x) = variant_container x"
| "variant (ArrayOp x) = variant_array x"
| "variant (StrOp x) = variant_str x"
| "variant (ControlOp x) = variant_control x"

type_synonym op_shape = "string \<times> nat \<times> bool \<times> bool \<times> bool"

definition shape_of :: "nat op \<Rightarrow> op_shape" where
  "shape_of op =
     (variant op, min (length (operands op)) 3, dest op \<noteq> None, loop_cursor op \<noteq> None, unbinds op \<noteq> None)"

text \<open>What follows the first occurrence of a text in another.\<close>

fun after_first :: "ustr \<Rightarrow> ustr \<Rightarrow> ustr option" where
  "after_first pat [] = (if pat = [] then Some [] else None)"
| "after_first pat (c # cs) =
     (if take (length pat) (c # cs) = pat then Some (drop (length pat) (c # cs)) else after_first pat cs)"

lemma after_first_shorter:
  "pat \<noteq> [] \<Longrightarrow> after_first pat body = Some rest \<Longrightarrow> length rest < length body"
  by (induction pat body rule: after_first.induct)
    (auto split: if_splits simp: Suc_diff_le neq_Nil_conv)

function rendered_registers :: "ustr \<Rightarrow> nat list" where
  "rendered_registers body =
     (if after_first (lit ''RegisterId('') body = None then []
      else
        (let rest = the (after_first (lit ''RegisterId('') body);
             digits = takeWhile is_ascii_digit rest
         in (case (if digits = [] then None else parse_decimal digits 0) of
               Some n \<Rightarrow> if n < 2 ^ 64 then [n] else []
             | None \<Rightarrow> [])
            @ rendered_registers rest))"
  by pat_completeness auto
termination
proof (relation "measure length")
  fix body x
  assume "after_first (lit ''RegisterId('') body \<noteq> None"
    and "x = the (after_first (lit ''RegisterId('') body)"
  then have "after_first (lit ''RegisterId('') body = Some x" by (simp del: lit_Cons)
  then have "length x < length body" by (rule after_first_shorter [rotated]) simp
  then show "(x, body) \<in> measure length" by simp
qed simp

declare rendered_registers.simps [simp del]

text \<open>
  \<open>render\<close> stands for the \<open>Debug\<close> implementation the compiler derives for operations, and \<open>debug\<close>
  for whether debug assertions are compiled in.
\<close>

definition accessor_errors ::
    "(nat op \<Rightarrow> ustr) \<Rightarrow> bir_function \<Rightarrow> block_id \<Rightarrow> nat op \<Rightarrow> verify_error list" where
  "accessor_errors render f b op =
     (let known = filter_map register (operands op) @ option_list (dest op)
            @ option_list (loop_cursor op) @ option_list (unbinds op)
      in filter_map (\<lambda>r. if r \<in> set known then None
            else Some (file_under f (Some b) False (Unreported r op)))
          (rendered_registers (render op)))"

fun accessor_scan ::
    "(nat op \<Rightarrow> ustr) \<Rightarrow> op_shape list \<Rightarrow> (bir_function \<times> block_id \<times> nat op) list \<Rightarrow> verify_error list" where
  "accessor_scan render seen [] = []"
| "accessor_scan render seen ((f, b, op) # rest) =
     (if shape_of op \<in> set seen then accessor_scan render seen rest
      else accessor_errors render f b op @ accessor_scan render (shape_of op # seen) rest)"

definition placed_ops :: "module_ir \<Rightarrow> (bir_function \<times> block_id \<times> nat op) list" where
  "placed_ops m =
     concat (map (\<lambda>f. concat (map (\<lambda>(b, blk). map (\<lambda>op. (f, b, op)) (block_ops blk))
       (enumerate 0 (blocks f)))) (all_functions m))"

definition check_accessor_coverage :: "(nat op \<Rightarrow> ustr) \<Rightarrow> bool \<Rightarrow> module_ir \<Rightarrow> verify_error list" where
  "check_accessor_coverage render debug m =
     (if debug then accessor_scan render [] (placed_ops m) else [])"

definition verify_module :: "(nat op \<Rightarrow> ustr) \<Rightarrow> bool \<Rightarrow> module_ir \<Rightarrow> verify_error list option" where
  "verify_module render debug m =
     sequence_errors
       (map (\<lambda>f. verify_in f (Some m) (Some (base_chain m))) (all_functions m)
        @ [Some (check_accessor_coverage render debug m), Some (check_field_defaults m)])"

end
