(* ===== verification/BIR_Verified.thy ===== *)
theory BIR_Verified
  imports BIR_Verify
begin

text \<open>
  What the verifier of \<^verbatim>\<open>by_ir/src/verify.rs\<close> establishes: that it returns, which functions it
  accepts, and what acceptance means along the paths of a function.
\<close>

declare not_None_eq [simp del]

section \<open>The layout chain\<close>

definition base_rel :: "(ustr \<Rightarrow> ustr option) \<Rightarrow> (ustr \<times> ustr) set" where
  "base_rel bases = {(a, b). bases a = Some b}"

lemma base_rel_wf:
  assumes "finite (dom bases)" "acyclic (base_rel bases)"
  shows "wf ((base_rel bases)\<inverse>)"
proof -
  have "base_rel bases = (\<lambda>a. (a, the (bases a))) ` dom bases" by (force simp: base_rel_def)
  then have "finite (base_rel bases)" using assms(1) by simp
  then show ?thesis using assms(2) by (rule finite_acyclic_wf_converse)
qed

lemma chain_search_unfold:
  "chain_search bases sub declared =
     (if sub = declared then Some True
      else (case bases sub of None \<Rightarrow> Some False | Some base \<Rightarrow> chain_search bases base declared))"
  unfolding chain_search_def
  by (subst while_option_unfold, simp add: chain_step_def split: option.split)
    (subst while_option_unfold, simp)

lemma chain_search_exact:
  assumes "finite (dom bases)" "acyclic (base_rel bases)"
  shows "chain_search bases sub declared = Some ((sub, declared) \<in> (base_rel bases)\<^sup>*)"
  using base_rel_wf [OF assms]
proof (induction sub rule: wf_induct_rule)
  case (less sub)
  have step: "(sub, declared) \<in> (base_rel bases)\<^sup>* \<longleftrightarrow>
      sub = declared \<or> (\<exists>base. bases sub = Some base \<and> (base, declared) \<in> (base_rel bases)\<^sup>*)"
    by (subst rtrancl_eq_or_trancl) (auto simp: base_rel_def trancl_unfold_left)
  show ?case
  proof (cases "bases sub")
    case (Some base)
    then have "(base, sub) \<in> (base_rel bases)\<inverse>" by (simp add: base_rel_def)
    from less [OF this] Some show ?thesis
      by (subst chain_search_unfold) (auto simp: step)
  qed (subst chain_search_unfold, auto simp: step)
qed

definition chain_returns :: "verifier \<Rightarrow> bool" where
  "chain_returns v \<longleftrightarrow> (\<forall>a b. upcasts v a b \<noteq> None)"

lemma chain_returns_no_bases: "chain_returns \<lparr>of_function = f, of_module = m, of_bases = None\<rparr>"
  by (auto simp: chain_returns_def upcasts_def split: rtype.splits)

lemma chain_returns_acyclic:
  assumes "finite (dom bases)" "acyclic (base_rel bases)"
  shows "chain_returns \<lparr>of_function = f, of_module = m, of_bases = Some bases\<rparr>"
  using chain_search_exact [OF assms] by (auto simp: chain_returns_def upcasts_def split: rtype.splits)

lemma layout_returns: "chain_returns v \<Longrightarrow> names_the_receivers_layout v ty cls \<noteq> None"
  by (auto simp: chain_returns_def names_the_receivers_layout_def split: rtype.splits)

section \<open>The checks return\<close>

lemma sequence_errors_None [simp]: "sequence_errors xs = None \<longleftrightarrow> None \<in> set xs"
  by (induction xs) (auto split: option.splits)

lemma sequence_errors_mem:
  "sequence_errors xs = Some es \<Longrightarrow> e \<in> set es \<longleftrightarrow> (\<exists>ys. Some ys \<in> set xs \<and> e \<in> set ys)"
  by (induction xs arbitrary: es) (fastforce split: option.splits)+

lemma field_receiver_returns: "chain_returns v \<Longrightarrow> check_field_receiver v x cls what \<noteq> None"
  using layout_returns [of v] by (auto simp: check_field_receiver_def split: option.splits)

lemma argument_error_returns: "chain_returns v \<Longrightarrow> argument_error v callee target arg \<noteq> None"
  by (cases arg) (auto simp: chain_returns_def argument_error_def split: option.splits)

lemma check_call_returns: "chain_returns v \<Longrightarrow> check_call v own callee args \<noteq> None"
  using argument_error_returns [of v]
  by (auto simp: check_call_def image_iff split: option.splits dest: sym)

lemma check_op_returns:
  assumes "chain_returns v"
  shows "check_op v op \<noteq> None"
proof (cases op)
  case (CallOp x)
  then show ?thesis using check_call_returns [OF assms] by (cases x) (auto simp: check_call_native_def)
next
  case (AttributeOp x)
  then show ?thesis using field_receiver_returns [OF assms]
    by (cases x) (auto simp: check_get_field_def check_set_field_def)
qed simp_all

lemma check_block_returns: "chain_returns v \<Longrightarrow> check_block v b \<noteq> None"
  using check_op_returns [of v]
  by (auto simp: check_block_def image_iff split: option.splits dest: sym)

lemma check_definite_assignment_returns: "check_definite_assignment f \<noteq> None"
  using definitely_written_exact [of assigned_written f]
  by (auto simp: check_definite_assignment_def)

lemma check_release_sets_returns: "check_release_sets f \<noteq> None"
proof -
  have "check_block_releases f reachable b \<noteq> None" for reachable b
    by (auto simp: check_block_releases_def backwards_exact split: option.splits)
  then show ?thesis by (auto simp: check_release_sets_def forwards_exact dest: sym)
qed

lemma run_returns: "chain_returns v \<Longrightarrow> run v \<noteq> None"
  using check_block_returns [of v] check_definite_assignment_returns check_release_sets_returns
  by (auto simp: run_def Let_def dest: sym)

lemma finite_base_chain: "finite (dom (base_chain m))"
  by (simp add: base_chain_def finite_dom_map_of)

section \<open>What acceptance means\<close>

lemma run_accepts:
  assumes "run v = Some []"
  shows "blocks (of_function v) \<noteq> []" "param_count (of_function v) \<le> length (registers (of_function v))"
    "\<And>b. b < length (blocks (of_function v)) \<Longrightarrow> check_block v b = Some []"
    "check_defaults (of_function v) = []"
    "check_definite_assignment (of_function v) = Some []"
    "check_release_sets (of_function v) = Some []"
    "check_borrowed_writes (of_function v) = []"
  using assms by (auto simp: run_def Let_def sequence_errors_Nil_iff split: if_splits)

lemma check_block_accepts:
  assumes "check_block v b = Some []" "block_at (of_function v) b = Some blk"
  shows "\<And>op. op \<in> set (block_ops blk) \<Longrightarrow> check_op v op = Some []"
    "check_terminator (of_function v) (terminator blk) = []"
    "\<And>t. t \<in> set (successors blk) \<Longrightarrow> block_at (of_function v) t \<noteq> None"
proof -
  have accepted: "\<forall>op \<in> set (block_ops blk). check_op v op = Some []"
    "check_terminator (of_function v) (terminator blk) = []"
    "\<forall>t. error_target blk = Some t \<longrightarrow> block_at (of_function v) t \<noteq> None"
    using assms by (auto simp: check_block_def sequence_errors_Nil_iff split: option.splits if_splits)
  then show "\<And>op. op \<in> set (block_ops blk) \<Longrightarrow> check_op v op = Some []"
    "check_terminator (of_function v) (terminator blk) = []" by auto
  from accepted(2) have "\<forall>t \<in> set (term_successors (terminator blk)). block_at (of_function v) t \<noteq> None"
    unfolding check_terminator_def append_is_Nil_conv concat_eq_Nil_iff by (auto split: if_splits)
  with accepted(3) show "\<And>t. t \<in> set (successors blk) \<Longrightarrow> block_at (of_function v) t \<noteq> None"
    by (auto simp: set_successors)
qed

definition verified :: "bir_function \<Rightarrow> module_ir option \<Rightarrow> (ustr \<Rightarrow> ustr option) option \<Rightarrow> bool" where
  "verified f m bases \<longleftrightarrow> verify_in f m bases = Some []"

lemma verify_in_accepts:
  assumes "verify_in f m bases = Some []"
  shows "param_count f \<le> length (registers f)" "check_definite_assignment f = Some []"
    "check_release_sets f = Some []" "check_borrowed_writes f = []"
  using run_accepts [OF assms [unfolded verify_in_def]] by simp_all

lemma block_at_ex: "blk \<in> set (blocks f) \<Longrightarrow> \<exists>b. block_at f b = Some blk"
  by (metis block_at_def get_Some_iff in_set_conv_nth)

lemma verified_op:
  assumes "verified f m bases" "blk \<in> set (blocks f)" "op \<in> set (block_ops blk)"
  shows "check_op \<lparr>of_function = f, of_module = m, of_bases = bases\<rparr> op = Some []"
proof -
  from assms(2) obtain b where b: "b < length (blocks f)" "block_at f b = Some blk"
    by (auto simp: in_set_conv_nth block_at_def get_def)
  with assms(1) have "check_block \<lparr>of_function = f, of_module = m, of_bases = bases\<rparr> b = Some []"
    using run_accepts(3) by (simp add: verified_def verify_in_def)
  from check_block_accepts(1) [OF this _ assms(3)] b show ?thesis by simp
qed

lemma verified_terminator:
  assumes "verified f m bases" "block_at f b = Some blk"
  shows "check_terminator f (terminator blk) = []"
    "\<And>t. t \<in> set (successors blk) \<Longrightarrow> t < length (blocks f)"
proof -
  have b: "b < length (blocks f)" using assms(2) by (auto simp: block_at_def dest: get_SomeD)
  with assms(1) have "check_block \<lparr>of_function = f, of_module = m, of_bases = bases\<rparr> b = Some []"
    using run_accepts(3) by (simp add: verified_def verify_in_def)
  note accepts = check_block_accepts [OF this, simplified, OF assms(2)]
  show "check_terminator f (terminator blk) = []" by (rule accepts(2))
  show "\<And>t. t \<in> set (successors blk) \<Longrightarrow> t < length (blocks f)"
    using accepts(3) by (fastforce simp: block_at_def get_def split: if_splits)
qed

lemma register_at_declared: "register_at f r \<noteq> None \<longleftrightarrow> r < length (registers f)"
  by (auto simp: register_at_def get_def)

lemma value_type_declared: "value_type f (Register r) \<noteq> None \<longleftrightarrow> r < length (registers f)"
  by (auto simp: register_at_def get_def)

section \<open>Definite assignment against the paths\<close>

definition checked_at :: "basic_block \<Rightarrow> nat \<Rightarrow> nat val list" where
  "checked_at blk i =
     (if i < length (block_ops blk)
      then (if is_release (block_ops blk ! i) then [] else operands (block_ops blk ! i))
      else term_operands (terminator blk))"

text \<open>What the verifier files for a read of a declared, unflagged register it may find unwritten.\<close>

definition read_error :: "bir_function \<Rightarrow> block_id \<Rightarrow> nat \<Rightarrow> verify_error" where
  "read_error f b r =
     (case decl_name (registers f ! r) of
        Some name \<Rightarrow> file_under f (Some b) True (ReadUnassigned name)
      | None \<Rightarrow> file_under f (Some b) False (ReadBeforeAssigned r))"

definition unflagged :: "bir_function \<Rightarrow> nat \<Rightarrow> bool" where
  "unflagged f r \<longleftrightarrow> r < length (registers f) \<and> \<not> may_be_unassigned (registers f ! r)"

lemma set_check_read:
  assumes "length state = length (registers f)"
  shows "set (check_read f b state v) =
    {e. \<exists>r. v = Register r \<and> unflagged f r \<and> \<not> state ! r \<and> e = read_error f b r}"
  using assms
  by (cases v)
    (auto simp: check_read_def unflagged_def read_error_def register_at_def get_def
      split: option.splits bool.splits)

lemma check_reads_final: "snd (check_reads f b ops state) = mark_written (writes_of assigned_written ops) state"
  by (induction ops arbitrary: state) (simp_all add: mark_written_append case_prod_beta)

lemma check_reads_errors:
  assumes "length state = length (registers f)"
  shows "e \<in> set (fst (check_reads f b ops state)) \<longleftrightarrow>
    (\<exists>i < length ops. \<not> is_release (ops ! i) \<and> (\<exists>v \<in> set (operands (ops ! i)).
       e \<in> set (check_read f b (mark_written (writes_of assigned_written (take i ops)) state) v)))"
  using assms
proof (induction ops arbitrary: state)
  case (Cons op ops)
  let ?state = "mark_written (assigned_written op) state"
  have "e \<in> set (fst (check_reads f b (op # ops) state)) \<longleftrightarrow>
      (\<not> is_release op \<and> (\<exists>v \<in> set (operands op). e \<in> set (check_read f b state v)))
      \<or> e \<in> set (fst (check_reads f b ops ?state))"
    by (auto split: prod.splits)
  also have "\<dots> \<longleftrightarrow> (\<exists>i < length (op # ops). \<not> is_release ((op # ops) ! i) \<and>
      (\<exists>v \<in> set (operands ((op # ops) ! i)). e \<in> set (check_read f b
         (mark_written (writes_of assigned_written (take i (op # ops))) state) v)))"
    using Cons by (simp add: Ex_less_Suc2 mark_written_append)
  finally show ?case .
qed simp

lemma check_block_reads_errors:
  assumes "block_at f b = Some blk" "length state = length (registers f)"
  shows "e \<in> set (check_block_reads f b (Some state)) \<longleftrightarrow>
    (\<exists>i \<le> length (block_ops blk). \<exists>r. Register r \<in> set (checked_at blk i) \<and> unflagged f r
       \<and> \<not> mark_written (writes_of assigned_written (take i (block_ops blk))) state ! r
       \<and> e = read_error f b r)"
proof -
  have "check_block_reads f b (Some state) = fst (check_reads f b (block_ops blk) state) @
      concat (map (check_read f b (snd (check_reads f b (block_ops blk) state)))
        (term_operands (terminator blk)))"
    using assms by (simp add: check_block_reads_def case_prod_beta)
  then show ?thesis
    unfolding ex_le_iff_ex_less
    using assms(2) by (auto simp: check_reads_errors check_reads_final set_check_read checked_at_def)
qed

text \<open>The errors of the definite-assignment check are those of the paths that read too early.\<close>

lemma definite_assignment_errors:
  "\<exists>es. check_definite_assignment f = Some es \<and>
     set es = {e. \<exists>b blk i r w. block_at f b = Some blk \<and> reaches assigned_written f b i w
        \<and> Register r \<in> set (checked_at blk i) \<and> unflagged f r \<and> r \<notin> w \<and> e = read_error f b r}"
proof -
  obtain inc where inc: "definitely_written assigned_written f = Some inc" "length inc = length (blocks f)"
    and exact: "\<And>b blk i r. block_at f b = Some blk \<Longrightarrow> i \<le> length (block_ops blk) \<Longrightarrow>
          r < length (registers f) \<Longrightarrow>
          ((\<exists>w. reaches assigned_written f b i w \<and> r \<notin> w) \<longleftrightarrow>
           (\<exists>state. inc ! b = Some state \<and>
              \<not> mark_written (writes_of assigned_written (take i (block_ops blk))) state ! r))"
    and len: "\<And>b state. b < length inc \<Longrightarrow> inc ! b = Some state \<Longrightarrow> length state = length (registers f)"
    using definitely_written_exact [of assigned_written f] by blast
  let ?at = "\<lambda>b blk i r. Register r \<in> set (checked_at blk i) \<and> unflagged f r"
  have block: "e \<in> set (check_block_reads f b (inc ! b)) \<longleftrightarrow>
      (\<exists>blk i r w. block_at f b = Some blk \<and> reaches assigned_written f b i w \<and> ?at b blk i r \<and> r \<notin> w
         \<and> e = read_error f b r)" if b: "b < length inc" for b e
  proof -
    obtain blk where blk: "block_at f b = Some blk" using b inc by (auto simp: block_at_def get_def)
    have pos: "reaches assigned_written f b i w \<Longrightarrow> i \<le> length (block_ops blk)" for i w
      using reaches_position blk by blast
    have reg: "unflagged f r \<Longrightarrow> r < length (registers f)" for r by (simp add: unflagged_def)
    show ?thesis
    proof (cases "inc ! b")
      case None
      then have "\<not> (\<exists>w. reaches assigned_written f b i w \<and> r \<notin> w)" if "unflagged f r" for i r
        using exact [OF blk, of i r] pos reg [OF that] by auto
      with None blk show ?thesis by (auto simp: check_block_reads_def)
    next
      case (Some state)
      with len [OF b] have state: "length state = length (registers f)" by simp
      show ?thesis
        unfolding Some check_block_reads_errors [OF blk state]
        using exact [OF blk] pos reg Some blk by (auto; blast)
    qed
  qed
  have in_range: "block_at f b = Some blk \<Longrightarrow> b < length inc" for b blk
    using inc by (auto simp: block_at_def dest: get_SomeD)
  have "set (concat (map (\<lambda>b. check_block_reads f b (inc ! b)) [0..<length inc])) =
      {e. \<exists>b < length inc. e \<in> set (check_block_reads f b (inc ! b))}" by auto
  also have "\<dots> = {e. \<exists>b blk i r w. block_at f b = Some blk \<and> reaches assigned_written f b i w
      \<and> ?at b blk i r \<and> r \<notin> w \<and> e = read_error f b r}"
    using block in_range by blast
  finally show ?thesis using inc by (auto simp: check_definite_assignment_def)
qed

section \<open>Release sets against the paths\<close>

text \<open>What may hold a reference when block \<open>b\<close> ends, going by the flow graph alone.\<close>

definition may_hold :: "bir_function \<Rightarrow> block_id \<Rightarrow> register_id \<Rightarrow> bool" where
  "may_hold f b r \<longleftrightarrow> r < param_count f \<or> (\<exists>a. (a, b) \<in> (flow_rel f)\<^sup>* \<and> r \<in> set (block_dests f a))"

lemma finite_block_dests: "finite (\<Union>a \<in> A. set (block_dests f a))"
proof -
  have "set (block_dests f a) \<subseteq> (\<Union>blk \<in> set (blocks f). set (filter_map dest (block_ops blk)))" for a
    by (auto simp: block_dests_def block_at_def get_def intro!: bexI [OF _ nth_mem])
  then have "(\<Union>a \<in> A. set (block_dests f a)) \<subseteq> (\<Union>blk \<in> set (blocks f). set (filter_map dest (block_ops blk)))"
    by blast
  then show ?thesis by (rule finite_subset) simp
qed

lemma set_missing_releases:
  "set (missing_releases f owned {a. (a, b) \<in> (flow_rel f)\<^sup>*}) = {r. may_hold f b r \<and> releasable f r \<and> r \<notin> set owned}"
  using finite_block_dests [of f "{a. (a, b) \<in> (flow_rel f)\<^sup>*}"]
  by (auto simp: missing_releases_def may_hold_def Let_def)

lemma missing_releases_Nil:
  "missing_releases f owned {a. (a, b) \<in> (flow_rel f)\<^sup>*} = [] \<longleftrightarrow>
     (\<forall>r. may_hold f b r \<and> releasable f r \<longrightarrow> r \<in> set owned)"
  using set_missing_releases [of f owned b] by (metis (mono_tags, lifting) empty_Collect_eq set_empty)

lemma check_release_sets_Nil:
  "check_release_sets f = Some [] \<longleftrightarrow>
     (\<forall>b blk owned r. block_at f b = Some blk \<and> (entry, b) \<in> (flow_rel f)\<^sup>* \<and> owned_at_exit blk = Some owned
        \<and> may_hold f b r \<and> releasable f r \<longrightarrow> r \<in> set owned)"
proof -
  have block: "check_block_releases f {a. (entry, a) \<in> (flow_rel f)\<^sup>*} b = Some [] \<longleftrightarrow>
      (\<forall>blk owned r. block_at f b = Some blk \<and> (entry, b) \<in> (flow_rel f)\<^sup>* \<and> owned_at_exit blk = Some owned
         \<and> may_hold f b r \<and> releasable f r \<longrightarrow> r \<in> set owned)" for b
    by (auto simp: check_block_releases_def backwards_exact missing_releases_Nil split: option.splits)
  have range: "block_at f b = Some blk \<Longrightarrow> b < length (blocks f)" for b blk
    by (auto simp: block_at_def dest: get_SomeD)
  have "check_release_sets f = Some [] \<longleftrightarrow>
      (\<forall>b < length (blocks f). check_block_releases f {a. (entry, a) \<in> (flow_rel f)\<^sup>*} b = Some [])"
    by (auto simp: check_release_sets_def forwards_exact sequence_errors_Nil_iff)
  then show ?thesis unfolding block using range by blast
qed

lemma edge_writes_dest: "r \<in> set (edge_writes blk t) \<Longrightarrow> term_dest (terminator blk) = Some r"
  by (cases "written_on_edge (terminator blk)")
    (auto simp: edge_writes_def term_dest_def split: if_splits)

text \<open>Along a path only parameters, earlier destinations and terminators' destinations are written.\<close>

lemma reaches_held:
  assumes "reaches dest_written f b i w"
  shows "(entry, b) \<in> (flow_rel f)\<^sup>*
    \<and> (\<forall>r \<in> w. may_hold f b r \<or> (\<exists>a blk. block_at f a = Some blk \<and> term_dest (terminator blk) = Some r))"
  using assms
proof induction
  case start
  then show ?case by (simp add: may_hold_def)
next
  case (operation b i w blk)
  then have "set (dest_written (block_ops blk ! i)) \<subseteq> set (block_dests f b)"
    by (auto simp: block_dests_def dest_written_def set_filter_map)
  with operation.IH show ?case by (auto simp: may_hold_def)
next
  case (handler b i w blk h)
  then have "(b, h) \<in> flow_rel f"
    by (auto simp: flow_rel_def edges_by_def next_blocks_def set_successors)
  then have "may_hold f b r \<Longrightarrow> may_hold f h r" for r
    by (auto simp: may_hold_def intro: rtrancl_into_rtrancl)
  with handler.IH \<open>(b, h) \<in> flow_rel f\<close> show ?case by (blast intro: rtrancl_into_rtrancl)
next
  case (jump b blk w t)
  then have "(b, t) \<in> flow_rel f"
    by (auto simp: flow_rel_def edges_by_def next_blocks_def set_successors)
  then have "may_hold f b r \<Longrightarrow> may_hold f t r" for r
    by (auto simp: may_hold_def intro: rtrancl_into_rtrancl)
  with jump.IH \<open>(b, t) \<in> flow_rel f\<close> jump.hyps(2) show ?case
    by (blast dest: edge_writes_dest intro: rtrancl_into_rtrancl)
qed

lemma terminator_dest_fixed:
  assumes "check_terminator f term = []" "term_dest term = Some r"
  shows "r < length (registers f) \<and> is_fixed (decl_ty (registers f ! r))"
  using assms
  by (cases "term")
    (auto simp: check_terminator_def term_dest_def check_simps register_at_def get_def split: if_splits)

lemma fixed_not_releasable: "is_fixed (decl_ty (registers f ! r)) \<Longrightarrow> \<not> releasable f r"
  by (cases "decl_ty (registers f ! r)" rule: is_fixed.cases)
    (auto simp: releasable_def register_at_def get_def)

section \<open>After marking\<close>

lemma reaches_cong:
  assumes "blocks g = blocks f" "param_count g = param_count f" "length (registers g) = length (registers f)"
  shows "reaches written g b i w = reaches written f b i w"
proof -
  have "reaches written f b i w"
    if "reaches written g b i w" "blocks g = blocks f" "param_count g = param_count f"
      "length (registers g) = length (registers f)" for f g :: bir_function
    using that
  proof induction
    case start
    then show ?case using reaches.start [of written f] by simp
  next
    case (operation b i w blk)
    then show ?case using reaches.operation [of written f b i w blk] by (simp add: block_at_def)
  next
    case (handler b i w blk h)
    then show ?case using reaches.handler [of written f b i w blk h] by (simp add: block_at_def)
  next
    case (jump b blk w t)
    then show ?case using reaches.jump [of written f b blk w t] by (simp add: block_at_def)
  qed
  with assms show ?thesis by metis
qed

lemma reaches_mono:
  assumes "reaches larger f b i w" "\<And>op. set (smaller op) \<subseteq> set (larger op)"
  shows "\<exists>w' \<subseteq> w. reaches smaller f b i w'"
  using assms(1)
proof induction
  case start
  then show ?case using reaches.start by blast
next
  case (operation b i w blk)
  then obtain w' where "w' \<subseteq> w" "reaches smaller f b i w'" by blast
  with reaches.operation [OF this(2) operation.hyps(2,3)] assms(2) [of "block_ops blk ! i"] show ?case
    by (intro exI [of _ "w' \<union> set (smaller (block_ops blk ! i))"]) auto
next
  case (handler b i w blk h)
  then show ?case using reaches.handler by meson
next
  case (jump b blk w t)
  then obtain w' where "w' \<subseteq> w" "reaches smaller f b (length (block_ops blk)) w'" by blast
  with reaches.jump [OF this(2) jump.hyps(2-4)] show ?case
    by (intro exI [of _ "w' \<union> set (edge_writes blk t)"]) auto
qed

lemma checked_at_read_at: "set (checked_at blk i) \<subseteq> set (read_at blk i)"
  by (simp add: checked_at_def read_at_def)

lemma marked_unflagged:
  assumes "mark f = Some g" "unflagged g r" "decl_name (registers g ! r) \<noteq> None"
  shows "\<not> reads_before_write f r"
proof
  assume reads: "reads_before_write f r"
  from assms(1) have g: "g = f\<lparr>registers := registers g\<rparr>" "length (registers g) = length (registers f)"
    "\<And>r. r < length (registers f) \<Longrightarrow> registers g ! r = (registers f ! r)\<lparr>may_be_unassigned :=
        may_be_unassigned (registers g ! r)\<rparr>"
    "\<And>r. r < length (registers f) \<Longrightarrow> named_register f r \<Longrightarrow> reads_before_write f r \<Longrightarrow>
        may_be_unassigned (registers g ! r)"
    unfolding marking by auto
  from assms(2) g(2) have r: "r < length (registers f)" by (simp add: unflagged_def)
  with assms(3) g(3) [OF r] have "decl_name (registers f ! r) \<noteq> None"
    by (metis (no_types, lifting) register_decl.select_convs(1) register_decl.surjective
        register_decl.update_convs(4))
  with r have "named_register f r" by (auto simp: named_register_def register_at_def get_def)
  with g(4) [OF r] reads assms(2) show False by (simp add: unflagged_def)
qed

lemma filed_not_source [simp]: "about_the_source (file_under f b src x) = src"
  by (simp add: file_under_def)

lemma release_errors_not_source:
  assumes "check_release_sets f = Some es" "e \<in> set es"
  shows "\<not> about_the_source e"
proof -
  from assms obtain b ys where "check_block_releases f {a. (entry, a) \<in> (flow_rel f)\<^sup>*} b = Some ys" "e \<in> set ys"
    by (auto simp: check_release_sets_def forwards_exact sequence_errors_mem) metis
  then show ?thesis by (auto simp: check_block_releases_def split: if_splits option.splits)
qed

lemma borrowed_errors_not_source: "e \<in> set (check_borrowed_writes f) \<Longrightarrow> \<not> about_the_source e"
proof -
  have filed: "(case x of Some d \<Rightarrow> if P d then Some (file_under f b False (g d)) else None | None \<Rightarrow> None) = Some e
      \<Longrightarrow> \<not> about_the_source e" for x :: "nat option" and P b g
    by (cases x) (auto split: if_splits)
  show "e \<in> set (check_borrowed_writes f) \<Longrightarrow> \<not> about_the_source e"
    by (auto simp: check_borrowed_writes_def set_filter_map dest!: filed)
qed

lemma source_errors_are_reads:
  assumes "about_the_source e" "verify_in g m bases = Some es" "e \<in> set es"
    and "check_definite_assignment g = Some ds"
  shows "e \<in> set ds"
proof (cases "blocks g = [] \<or> length (registers g) < param_count g")
  case True
  with assms show ?thesis by (auto simp: verify_in_def run_def split: if_splits)
next
  case False
  let ?v = "\<lparr>of_function = g, of_module = m, of_bases = bases\<rparr>"
  from False assms(2) have "sequence_errors
      (map (\<lambda>b. map_option (map (file_under g (Some b) False)) (check_block ?v b)) [0..<length (blocks g)]
       @ [Some (map (file_under g None False) (check_defaults g)), check_definite_assignment g,
          check_release_sets g, Some (check_borrowed_writes g)]) = Some es"
    by (simp add: verify_in_def run_def)
  from sequence_errors_mem [OF this] assms(3) obtain ys where "e \<in> set ys" and
    "(\<exists>b. Some ys = map_option (map (file_under g (Some b) False)) (check_block ?v b))
     \<or> ys = map (file_under g None False) (check_defaults g) \<or> Some ys = check_definite_assignment g
     \<or> Some ys = check_release_sets g \<or> ys = check_borrowed_writes g"
    by auto
  then show ?thesis
    using assms(1,4) release_errors_not_source [of g ys e] borrowed_errors_not_source [of e g]
    by (auto simp: eq_commute [of "Some ys"])
qed

section \<open>A function to look at\<close>

text \<open>\<open>def join(s): t = s + "x"; return t\<close>, as it stands once ownership has been decided.\<close>

definition plain_function :: bir_function where
  "plain_function =
     \<lparr>fn_name = lit ''join'', frame_name = lit ''join'', param_count = 1, ret = TStr, convention = Native,
      registers =
        [\<lparr>decl_name = Some (lit ''s''), decl_ty = TStr, borrowed = False, may_be_unassigned = False\<rparr>,
         \<lparr>decl_name = None, decl_ty = TStr, borrowed = False, may_be_unassigned = False\<rparr>,
         \<lparr>decl_name = Some (lit ''t''), decl_ty = TStr, borrowed = False, may_be_unassigned = False\<rparr>],
      blocks =
        [\<lparr>block_ops =
            [StrOp (StrConcat 1 (Register 0) (VStr (lit ''x'')) False (Operator Fresh)),
             PlaceOp (Move 2 (Register 1) [])],
          terminator = Return (Register 2), owned_at_exit = Some [0, 1, 2], block_range = None,
          block_position = None, error_target = None\<rparr>],
      exported = True, owner = None, vararg = False, kwarg = False, posonly = 0, kwonly = 0,
      defaults = [None], fn_range = None, deferring = [], computed_defaults = [], held_by = Twin,
      defaults_are_markers = False, decorators = [], fn_binding = BindInstance, coroutine_body = None,
      doc = None, takes_a_weak_reference = False, weak_referents = [], nested = None\<rparr>"

lemma plain_function_verifies: "verify_in plain_function None None = Some []"
  by code_simp

lemma plain_function_block:
  "blocks plain_function ! 0 \<in> set (blocks plain_function)"
  "block_at plain_function 0 = Some (blocks plain_function ! 0)"
  by (simp_all add: plain_function_def block_at_def get_def)

section \<open>Properties\<close>

lemma terminator_reads_declared:
  assumes "check_terminator f term = []" "v \<in> set (term_operands term)"
  shows "value_type f v \<noteq> None"
  using assms
  by (cases "term") (auto simp: check_terminator_def check_return_def check_simps dest: fits_in_declared)

lemma terminator_mentions:
  "set_terminator t = (\<Union>v \<in> set (term_operands t). set_val v) \<union> set_option (term_dest t)"
  by (cases t) (auto simp: term_dest_def)

lemma check_op_mentions_declared:
  assumes "check_op v op = Some []" "\<not> unchecked_dest op"
  shows "set_op op \<subseteq> {..<length (registers (of_function v))}"
proof -
  have reads: "r < length (registers (of_function v))" if "Register r \<in> set (operands op)" for r
    using check_op_reads [OF assms(1)] that value_type_declared unfolding reads_declared_def by blast
  have dests: "r < length (registers (of_function v))" if "dest op = Some r \<or> loop_cursor op = Some r" for r
    using check_op_writes [OF assms(1)] assms(2) that register_at_declared [of "of_function v" r]
    by (auto simp: writes_declared_def)
  from reads dests show ?thesis
    unfolding mentioned_reported [OF check_op_exits_paired [OF assms(1)]] reported_def
    by (auto simp: set_val_register register_eq_Some_iff dest!: unbinds_dest)
qed

lemma verified_checked_at:
  assumes "verified f m bases" "block_at f b = Some blk" "v \<in> set (checked_at blk i)"
  shows "value_type f v \<noteq> None"
proof (cases "i < length (block_ops blk)")
  case True
  have "blk \<in> set (blocks f)" using assms(2) by (auto simp: block_at_def dest: get_SomeD)
  from check_op_reads [OF verified_op [OF assms(1) this nth_mem [OF True]]] assms(3) True
  show ?thesis by (auto simp: reads_declared_def checked_at_def split: if_splits)
next
  case False
  with assms(3) terminator_reads_declared [OF verified_terminator(1) [OF assms(1,2)]] show ?thesis
    by (simp add: checked_at_def)
qed


text \<open>
  C1. In a verified function no path reads a register it has not written, unless the register is
  flagged as one whose reads test whether it holds a value; and the register is a declared one.
\<close>

theorem verified_reads_are_assigned:
  assumes "verify_in f m bases = Some []" "block_at f b = Some blk"
    and "reaches assigned_written f b i w" "Register r \<in> set (checked_at blk i)"
    and "\<not> may_be_unassigned (registers f ! r)"
  shows "r < length (registers f) \<and> r \<in> w"
proof -
  have ok: "verified f m bases" using assms(1) by (simp add: verified_def)
  from verified_checked_at [OF ok assms(2,4)] have r: "r < length (registers f)"
    using value_type_declared by blast
  have "check_definite_assignment f = Some []" using verify_in_accepts(2) [OF assms(1)] .
  moreover have "unflagged f r" using r assms(5) by (simp add: unflagged_def)
  ultimately have "r \<in> w" using definite_assignment_errors [of f] assms(2-4) by fastforce
  with r show ?thesis ..
qed

theorem verified_reads_are_assigned_witness:
  "reaches assigned_written plain_function 0 1 {0, 1} \<and> Register 1 \<in> set (checked_at (blocks plain_function ! 0) 1)
   \<and> (1 :: nat) < length (registers plain_function) \<and> 1 \<in> {0 :: nat, 1}"
proof -
  have "reaches assigned_written plain_function 0 0 {0}"
    using reaches.start [of assigned_written plain_function]
    by (simp add: plain_function_def entry_def Collect_conv_if less_Suc_eq conj_commute cong: conj_cong)
  from reaches.operation [OF this plain_function_block(2)]
  have path: "reaches assigned_written plain_function 0 1 {0, 1}"
    by (simp add: plain_function_def assigned_written_def insert_commute)
  from verified_reads_are_assigned
    [OF plain_function_verifies plain_function_block(2) path, of 1]
  show ?thesis using path by (simp add: plain_function_def checked_at_def)
qed

text \<open>
  C2. In a verified function whose release sets have been filled in, every register that some path
  to a block, up to any of its operations, has written is in the block's release set, if it is
  refcounted and not borrowed: leaving the function from there leaks nothing.
\<close>

theorem verified_exits_release:
  assumes "verify_in f m bases = Some []" "block_at f b = Some blk"
    and "owned_at_exit blk = Some owned" "reaches dest_written f b i w"
    and "r \<in> w" "releasable f r"
  shows "r \<in> set owned"
proof -
  have ok: "verified f m bases" using assms(1) by (simp add: verified_def)
  have "\<not> (\<exists>a blk. block_at f a = Some blk \<and> term_dest (terminator blk) = Some r)"
    using terminator_dest_fixed [OF verified_terminator(1) [OF ok]] fixed_not_releasable assms(6) by blast
  with reaches_held [OF assms(4)] assms(5) have "(entry, b) \<in> (flow_rel f)\<^sup>*" "may_hold f b r" by auto
  moreover have "check_release_sets f = Some []" using verify_in_accepts(3) [OF assms(1)] .
  ultimately show ?thesis using assms(2,3,6) unfolding check_release_sets_Nil by blast
qed

theorem verified_exits_release_witness:
  "owned_at_exit (blocks plain_function ! 0) = Some [0, 1, 2] \<and> releasable plain_function 0 \<and> (0 :: nat) \<in> set [0, 1, 2]"
proof -
  have "reaches dest_written plain_function 0 0 {0}"
    using reaches.start [of dest_written plain_function]
    by (simp add: plain_function_def entry_def Collect_conv_if less_Suc_eq conj_commute cong: conj_cong)
  from verified_exits_release [OF plain_function_verifies plain_function_block(2) _ this, of "[0, 1, 2]" 0]
  show ?thesis by (simp add: plain_function_def releasable_def register_at_def)
qed

text \<open>
  C21. Every edge of a verified function, exception edges included, leads to a block it has; every
  register its operations and terminators mention is one it declares, except the destination of a
  \<open>del\<close>, of an attribute read and of an unpacking, which the verifier does not look at; and its
  \<open>__aexit__\<close> calls are paired, so the accessors see all of every operation.
\<close>

theorem verified_is_well_scoped:
  assumes "verify_in f m bases = Some []" "blk \<in> set (blocks f)"
  shows "set (successors blk) \<subseteq> {..<length (blocks f)}
    \<and> set_terminator (terminator blk) \<subseteq> {..<length (registers f)}
    \<and> (\<forall>op \<in> set (block_ops blk). set_op op = reported op \<and>
         (unchecked_dest op \<or> set_op op \<subseteq> {..<length (registers f)}))"
proof (intro conjI ballI)
  have ok: "verified f m bases" using assms(1) by (simp add: verified_def)
  from assms(2) obtain b where b: "block_at f b = Some blk" using block_at_ex by blast
  note ends = verified_terminator [OF ok b]
  show "set (successors blk) \<subseteq> {..<length (blocks f)}" using ends(2) by auto
  have "r < length (registers f)" if "Register r \<in> set (term_operands (terminator blk))" for r
    using terminator_reads_declared [OF ends(1) that] value_type_declared by blast
  then show "set_terminator (terminator blk) \<subseteq> {..<length (registers f)}"
    unfolding terminator_mentions using terminator_dest_fixed [OF ends(1)]
    by (auto simp: set_val_register register_eq_Some_iff)
  fix op assume op: "op \<in> set (block_ops blk)"
  note check = verified_op [OF ok assms(2) op]
  have paired: "exits_paired op" using check by (rule check_op_exits_paired)
  then show "set_op op = reported op" by (rule mentioned_reported)
  have "set_op op \<subseteq> {..<length (registers f)}" if "\<not> unchecked_dest op"
    using check_op_mentions_declared [OF check that] by simp
  then show "unchecked_dest op \<or> set_op op \<subseteq> {..<length (registers f)}" by blast
qed

theorem verified_is_well_scoped_witness:
  "set_terminator (terminator (blocks plain_function ! 0)) \<subseteq> {..<length (registers plain_function)}"
  using verified_is_well_scoped [OF plain_function_verifies plain_function_block(1)] by blast

text \<open>
  C22. Wherever an operation of a verified function takes a reference out of a register (a move, an
  item handed to a display, a moving store, a consuming concatenation), the register is declared,
  refcounted, not borrowed and not a parameter: the reference is the frame's own to give.
\<close>

theorem verified_gives_what_it_owns:
  assumes "verify_in f m bases = Some []" "blk \<in> set (blocks f)"
    and "op \<in> set (block_ops blk)" "x \<in> set (emptied op)"
  shows "owns_what_it_gives f x"
  using check_op_gives [OF verified_op [OF _ assms(2,3)] assms(4)] assms(1) by (simp add: verified_def)

theorem verified_gives_what_it_owns_witness: "owns_what_it_gives plain_function (Register 1)"
  by (rule verified_gives_what_it_owns
      [OF plain_function_verifies plain_function_block(1), of "PlaceOp (Move 2 (Register 1) [])"])
    (simp_all add: plain_function_def)

text \<open>
  Where the layout chain has no cycle, an upcast costs nothing exactly from a class to itself
  and to what it stands on through bases of the module, and asking returns.
\<close>

theorem upcasts_exact:
  assumes "of_bases v = Some bases" "finite (dom bases)" "acyclic {(a, b). bases a = Some b}"
  shows "upcasts v (Instance sub ex) (Instance declared ex') =
    Some ((sub, declared) \<in> {(a, b). bases a = Some b}\<^sup>*)"
  using chain_search_exact [of bases sub declared] assms
  by (simp add: upcasts_def base_rel_def)

definition two_classes :: "ustr \<Rightarrow> ustr option" where
  "two_classes = [lit ''B'' \<mapsto> lit ''A'']"

lemma two_classes_acyclic: "acyclic {(a, b). two_classes a = Some b}"
proof -
  have "{(a, b). two_classes a = Some b} = {(lit ''B'', lit ''A'')}"
    by (auto simp: two_classes_def split: if_splits)
  moreover have "wf {(lit ''B'', lit ''A'')}" by (rule wf_insert [THEN iffD2]) auto
  ultimately show ?thesis using wf_acyclic by metis
qed

theorem upcasts_exact_witness:
  "upcasts \<lparr>of_function = plain_function, of_module = None, of_bases = Some two_classes\<rparr>
     (Instance (lit ''B'') True) (Instance (lit ''A'') False) =
   Some ((lit ''B'', lit ''A'') \<in> {(a, b). two_classes a = Some b}\<^sup>*)"
proof (rule upcasts_exact)
  have "dom two_classes \<subseteq> {lit ''B''}" by (auto simp: two_classes_def split: if_splits)
  then show "finite (dom two_classes)" by (rule finite_subset) simp
qed (simp_all add: two_classes_acyclic)

text \<open>
  C32. The verifier returns on every module whose in-module bases do not run in a circle, whatever
  is in its functions: the two searches, the worklist and the walks along the bases all end.
\<close>

theorem verify_module_returns:
  assumes "acyclic {(a, b). base_chain m a = Some b}"
  shows "\<exists>es. verify_module render debug m = Some es"
proof -
  have "chain_returns \<lparr>of_function = f, of_module = Some m, of_bases = Some (base_chain m)\<rparr>" for f
    using chain_returns_acyclic [OF finite_base_chain] assms by (simp add: base_rel_def)
  then have "verify_in f (Some m) (Some (base_chain m)) \<noteq> None" for f
    by (simp add: verify_in_def run_returns)
  then have "verify_module render debug m \<noteq> None"
    unfolding verify_module_def sequence_errors_None by (auto dest: sym)
  then show ?thesis by blast
qed

theorem verify_module_returns_witness:
  "\<exists>es. verify_module (\<lambda>_. []) True \<lparr>mod_functions = [plain_function], mod_classes = []\<rparr> = Some es"
  by (rule verify_module_returns) (simp add: base_chain_def acyclic_def)

text \<open>
  A function the unbound-locals pass has marked gives the verifier nothing to say about the
  program: whatever it reports is a fault of the lowering, not a local read before assignment.
\<close>

theorem marked_function_has_no_source_error:
  assumes "mark f = Some g" "verify_in g m bases = Some es" "e \<in> set es"
  shows "\<not> about_the_source e"
proof
  assume source: "about_the_source e"
  obtain ds where ds: "check_definite_assignment g = Some ds"
    "set ds = {e. \<exists>b blk i r w. block_at g b = Some blk \<and> reaches assigned_written g b i w
        \<and> Register r \<in> set (checked_at blk i) \<and> unflagged g r \<and> r \<notin> w \<and> e = read_error g b r}"
    using definite_assignment_errors [of g] by blast
  from source assms(2,3) ds(1) have "e \<in> set ds" by (rule source_errors_are_reads)
  then obtain b blk i r w where read: "block_at g b = Some blk" "reaches assigned_written g b i w"
    "Register r \<in> set (checked_at blk i)" "unflagged g r" "r \<notin> w" "e = read_error g b r"
    unfolding ds(2) by blast
  from assms(1) have g: "blocks g = blocks f" "param_count g = param_count f"
    "length (registers g) = length (registers f)" unfolding marking by auto
  have "reaches assigned_written f b i w" using read(2) reaches_cong [OF g] by blast
  then obtain w' where "w' \<subseteq> w" "reaches dest_written f b i w'"
    using reaches_mono [of assigned_written f b i w dest_written]
    by (auto simp: assigned_written_def dest_written_def)
  moreover have "block_at f b = Some blk" using read(1) g(1) by (simp add: block_at_def)
  ultimately have "reads_before_write f r"
    unfolding reads_before_write_def using read(3,5) checked_at_read_at [of blk i] by blast
  moreover have "decl_name (registers g ! r) \<noteq> None"
    using source read(6) by (auto simp: read_error_def file_under_def split: option.splits)
  ultimately show False using marked_unflagged [OF assms(1) read(4)] by blast
qed

text \<open>\<open>def early(): return x\<close> with \<open>x\<close> a local no path assigns, declared to return a \<open>str\<close>.\<close>

definition early_function :: bir_function where
  "early_function = plain_function\<lparr>fn_name := lit ''early'', param_count := 0, defaults := [],
     registers := [\<lparr>decl_name = Some (lit ''x''), decl_ty = TInt, borrowed = False, may_be_unassigned = False\<rparr>],
     blocks := [\<lparr>block_ops = [], terminator = Return (Register 0), owned_at_exit = None, block_range = None,
       block_position = None, error_target = None\<rparr>]\<rparr>"

definition early_marked :: bir_function where
  "early_marked = early_function\<lparr>registers :=
     [\<lparr>decl_name = Some (lit ''x''), decl_ty = TInt, borrowed = False, may_be_unassigned = True\<rparr>]\<rparr>"

theorem marked_function_has_no_source_error_witness:
  "verify_in early_function None None =
     Some [file_under early_function (Some 0) False (Expects ''return'' TStr TInt),
           file_under early_function (Some 0) True (ReadUnassigned (lit ''x''))]
   \<and> \<not> about_the_source (file_under early_function (Some 0) False (Expects ''return'' TStr TInt))"
proof (intro conjI)
  show "verify_in early_function None None =
     Some [file_under early_function (Some 0) False (Expects ''return'' TStr TInt),
           file_under early_function (Some 0) True (ReadUnassigned (lit ''x''))]"
    by code_simp
  have "mark early_function = Some early_marked" by code_simp
  moreover have "verify_in early_marked None None =
      Some [file_under early_function (Some 0) False (Expects ''return'' TStr TInt)]"
    by code_simp
  ultimately show "\<not> about_the_source (file_under early_function (Some 0) False (Expects ''return'' TStr TInt))"
    by (rule marked_function_has_no_source_error) simp
qed

text \<open>
  The verifier accepts a function of one register in which a \<open>del\<close>, an attribute read and an
  unpacking write to registers 7, 8 and 9.
\<close>

theorem undeclared_destinations_verify:
  "let f = plain_function\<lparr>
       registers := [\<lparr>decl_name = Some (lit ''s''), decl_ty = TStr, borrowed = False, may_be_unassigned = False\<rparr>],
       blocks := [\<lparr>block_ops =
         [PlaceOp (DeleteLocal 7), AttributeOp (ReadAttribute 8 (Register 0) (lit ''n'')),
          ContainerOp (Unpack 9 (Register 0) None)],
         terminator = Return (Register 0), owned_at_exit = None, block_range = None,
         block_position = None, error_target = None\<rparr>]\<rparr>
   in verify f = Some [] \<and> length (registers f) = 1 \<and> block_dests f 0 = [7, 8, 9]"
  by code_simp

section \<open>Accessor coverage\<close>

lemma accessor_errors_Nil:
  assumes "exits_paired op" "set (rendered_registers (render op)) \<subseteq> set_op op"
  shows "accessor_errors render f b op = []"
proof -
  have "set_op op = set (filter_map register (operands op) @ option_list (dest op)
      @ option_list (loop_cursor op) @ option_list (unbinds op))"
    using mentioned_reported [OF assms(1)]
    by (auto simp: reported_def set_filter_map set_val_register)
  moreover have "filter_map (\<lambda>r. if r \<in> set known then None else Some (g r)) xs = []"
    if "set xs \<subseteq> set known" for g :: "nat \<Rightarrow> verify_error" and known xs
    using that by (induction xs) auto
  ultimately show ?thesis using assms(2) unfolding accessor_errors_def Let_def by metis
qed

lemma accessor_scan_Nil:
  "(\<And>f b op. (f, b, op) \<in> set ops \<Longrightarrow> accessor_errors render f b op = []) \<Longrightarrow> accessor_scan render seen ops = []"
  by (induction render seen ops rule: accessor_scan.induct) auto

text \<open>
  On operations whose \<open>__aexit__\<close> calls are paired, the coverage check finds nothing, as long as
  the text an operation is rendered as names no register the operation does not mention: no
  accessor has forgotten a field of any of the variants.
\<close>

theorem accessor_coverage_is_silent:
  assumes "\<And>f b op. (f, b, op) \<in> set (placed_ops m) \<Longrightarrow>
      exits_paired op \<and> set (rendered_registers (render op)) \<subseteq> set_op op"
  shows "check_accessor_coverage render debug m = []"
  using assms accessor_errors_Nil
  by (auto simp: check_accessor_coverage_def intro!: accessor_scan_Nil)

theorem accessor_coverage_is_silent_witness:
  "check_accessor_coverage
     (\<lambda>op. lit ''Shape { dest: RegisterId('' @ decimal (the (dest op)) @ lit '') }'') True
     \<lparr>mod_functions = [plain_function], mod_classes = []\<rparr> = []"
proof (rule accessor_coverage_is_silent)
  let ?render = "\<lambda>op. lit ''Shape { dest: RegisterId('' @ decimal (the (dest op)) @ lit '') }''"
  have "rendered_registers (lit ''Shape { dest: RegisterId('' @ decimal 1 @ lit '') }'') = [1]"
    "rendered_registers (lit ''Shape { dest: RegisterId('' @ decimal 2 @ lit '') }'') = [2]"
    by (simp_all add: rendered_registers.simps is_ascii_digit_def decimal_def radix_digits.simps digit_char_def)
  then show "exits_paired op \<and> set (rendered_registers (?render op)) \<subseteq> set_op op"
    if "(f, b, op) \<in> set (placed_ops \<lparr>mod_functions = [plain_function], mod_classes = []\<rparr>)" for f b op
    using that by (auto simp: placed_ops_def all_functions_def plain_function_def enumerate_eq_zip)
qed

text \<open>
  A string constant can name a register: an assignment of the text \<open>RegisterId(7)\<close> to register
  0, rendered the way the derived \<open>Debug\<close> renders it, is reported as mentioning a register 7 no
  accessor knows of.
\<close>

theorem coverage_mistakes_a_string_for_a_register:
  "let render = (\<lambda>_ :: nat op. lit ''Assign { dest: RegisterId(0), src: Str('' @ [34] @
         lit ''RegisterId(7)'' @ [34] @ lit '') }'');
       op = ScalarOp (Assign 0 (VStr (lit ''RegisterId(7)'')))
   in accessor_errors render plain_function 0 op = [file_under plain_function (Some 0) False (Unreported 7 op)]
      \<and> set_op op = {0}"
proof -
  have "rendered_registers (lit ''Assign { dest: RegisterId(0), src: Str('' @ [34] @
         lit ''RegisterId(7)'' @ [34] @ lit '') }'') = [0, 7]"
    by (simp add: rendered_registers.simps is_ascii_digit_def)
  then show ?thesis by (simp add: Let_def accessor_errors_def del: lit_Cons append.simps)
qed

end
