(* ===== verification/BIR_Preserve.thy ===== *)
theory BIR_Preserve
  imports BIR_Verified
begin

text \<open>
  What a pass has to show to keep a function verified when it changes nothing but its blocks: the
  new operations pass their own checks, read and write as the old ones did, and the blocks keep
  their edges. The release sets are the pass's own business.
\<close>

section \<open>The checks of an operation do not look at the blocks\<close>

lemma register_at_blocks [simp]: "register_at (f\<lparr>blocks := bs\<rparr>) r = register_at f r"
  by (simp add: register_at_def)

lemma value_type_blocks [simp]: "value_type (f\<lparr>blocks := bs\<rparr>) v = value_type f v"
  by (cases v) (simp_all add: value_type_def)

lemma dangling_blocks [simp]: "dangling (f\<lparr>blocks := bs\<rparr>) = dangling f"
  by (rule ext) (simp add: dangling_def)

lemma expect_blocks [simp]: "expect (f\<lparr>blocks := bs\<rparr>) = expect f"
  by (intro ext) (simp add: expect_def)

lemma expect_all_blocks [simp]: "expect_all (f\<lparr>blocks := bs\<rparr>) = expect_all f"
  by (intro ext) (simp add: expect_all_def)

lemma expect_dest_blocks [simp]: "expect_dest (f\<lparr>blocks := bs\<rparr>) = expect_dest f"
  by (intro ext) (simp add: expect_dest_def)

lemma expect_misc_blocks [simp]:
  "expect_index (f\<lparr>blocks := bs\<rparr>) v = expect_index f v"
  "expect_attribute_receiver (f\<lparr>blocks := bs\<rparr>) v = expect_attribute_receiver f v"
  "hands_over (f\<lparr>blocks := bs\<rparr>) v = hands_over f v"
  "expect_cursor (f\<lparr>blocks := bs\<rparr>) r = expect_cursor f r"
  "check_pair (f\<lparr>blocks := bs\<rparr>) d result lhs rhs ty what = check_pair f d result lhs rhs ty what"
  "expect_borrowed (f\<lparr>blocks := bs\<rparr>) v what = expect_borrowed f v what"
  "check_exactness (f\<lparr>blocks := bs\<rparr>) = check_exactness f"
  "check_subscript_index (f\<lparr>blocks := bs\<rparr>) v machine = check_subscript_index f v machine"
  "check_str_index (f\<lparr>blocks := bs\<rparr>) v machine = check_str_index f v machine"
  "with_element (f\<lparr>blocks := bs\<rparr>) v rest = with_element f v rest"
  "array_element_errors (f\<lparr>blocks := bs\<rparr>) v = array_element_errors f v"
  by (simp_all add: expect_index_def expect_attribute_receiver_def hands_over_def expect_cursor_def
      check_pair_def expect_borrowed_def check_exactness_def fun_eq_iff check_subscript_index_def
      check_str_index_def with_element_def array_element_errors_def array_element_def
      cong: if_cong option.case_cong rtype.case_cong val.case_cong)

lemma expect_moves_blocks [simp]: "expect_moves (f\<lparr>blocks := bs\<rparr>) items moves what = expect_moves f items moves what"
  by (simp add: expect_moves_def cong: if_cong option.case_cong)

lemma tuple_item_types_blocks [simp]:
  "tuple_item_types (f\<lparr>blocks := bs\<rparr>) declared index items = tuple_item_types f declared index items"
  by (induction f declared index items rule: tuple_item_types.induct)
    (simp_all add: Let_def split: option.splits prod.splits)

lemma check_scalar_blocks [simp]: "check_scalar (f\<lparr>blocks := bs\<rparr>) x = check_scalar f x"
  by (cases x) (simp_all add: check_assign_def check_int_binary_def int_width_of_def check_float_binary_def
      check_int_compare_def check_float_object_compare_def one_float_one_object_def
      check_float_object_binary_def check_unary_def cong: if_cong option.case_cong unary_op.case_cong)

lemma check_place_blocks [simp]: "check_place (f\<lparr>blocks := bs\<rparr>) x = check_place f x"
  by (cases x) (simp_all add: check_box_def check_unbox_def check_release_def check_move_def moved_element_def
      cong: if_cong option.case_cong val.case_cong)

lemma check_pattern_blocks [simp]: "check_pattern (f\<lparr>blocks := bs\<rparr>) x = check_pattern f x"
  by (cases x) simp_all

lemma check_licence_blocks [simp]: "check_licence (f\<lparr>blocks := bs\<rparr>) x = check_licence f x"
  by (cases x) simp_all

lemma check_container_blocks [simp]: "check_container (f\<lparr>blocks := bs\<rparr>) x = check_container f x"
  by (cases x) (simp_all add: check_tuple_build_def check_unpack_def check_tuple_get_def
      cong: if_cong option.case_cong rtype.case_cong)

lemma check_array_blocks [simp]: "check_array (f\<lparr>blocks := bs\<rparr>) x = check_array f x"
  by (cases x) (simp_all add: check_array_new_def check_array_len_def check_array_read_def
      cong: if_cong option.case_cong rtype.case_cong)

lemma check_str_blocks [simp]: "check_str (f\<lparr>blocks := bs\<rparr>) x = check_str f x"
  by (cases x) (simp_all add: check_str_concat_def cong: if_cong val.case_cong bool.case_cong prod.case_cong)

lemma check_control_blocks [simp]: "check_control (f\<lparr>blocks := bs\<rparr>) x = check_control f x"
  by (cases x) (simp_all add: check_async_context_def cong: if_cong option.case_cong)

lemma check_op_blocks:
  "check_op \<lparr>of_function = f\<lparr>blocks := bs\<rparr>, of_module = m, of_bases = bases\<rparr> op =
   check_op \<lparr>of_function = f, of_module = m, of_bases = bases\<rparr> op" (is "check_op ?g op = check_op ?f op")
proof -
  have up: "upcasts ?g = upcasts ?f" by (intro ext) (simp add: upcasts_def cong: if_cong option.case_cong rtype.case_cong)
  then have layout: "names_the_receivers_layout ?g = names_the_receivers_layout ?f"
    by (intro ext) (simp add: names_the_receivers_layout_def cong: if_cong option.case_cong rtype.case_cong)
  have receiver: "check_field_receiver ?g = check_field_receiver ?f"
    by (intro ext) (simp add: check_field_receiver_def layout cong: if_cong option.case_cong rtype.case_cong)
  have argument: "argument_error ?g = argument_error ?f" by (intro ext) (simp add: argument_error_def up cong: if_cong option.case_cong rtype.case_cong)
  have call: "check_call ?g = check_call ?f"
    unfolding fun_eq_iff check_call_def argument verifier.select_convs by blast
  have emitted: "expect_emitted_class ?g = expect_emitted_class ?f"
    by (intro ext) (simp add: expect_emitted_class_def)
  show ?thesis
  proof (cases op)
    case (CallOp x)
    then show ?thesis
      by (cases x) (simp_all add: check_call_native_def call check_new_instance_def emitted check_make_closure_def
          cong: if_cong option.case_cong)
  next
    case (AttributeOp x)
    then show ?thesis
      by (cases x) (simp_all add: check_get_cell_def check_get_field_def check_set_field_def receiver
          check_read_attribute_def check_write_attribute_def cong: if_cong option.case_cong)
  next
    case (NamespaceOp x)
    then show ?thesis by (cases x) (simp_all add: emitted)
  qed simp_all
qed

lemma check_terminator_blocks:
  "length bs = length (blocks f) \<Longrightarrow> check_terminator (f\<lparr>blocks := bs\<rparr>) t = check_terminator f t"
  by (cases t) (simp_all add: check_terminator_def check_return_def block_at_def get_def
      cong: if_cong option.case_cong)

section \<open>Functions that read and write alike\<close>

definition op_alike :: "nat op \<Rightarrow> nat op \<Rightarrow> bool" where
  "op_alike a b \<longleftrightarrow> dest a = dest b \<and> loop_cursor a = loop_cursor b \<and> operands a = operands b
     \<and> is_release a = is_release b \<and> lends a = lends b"

definition block_alike :: "basic_block \<Rightarrow> basic_block \<Rightarrow> bool" where
  "block_alike a b \<longleftrightarrow> list_all2 op_alike (block_ops a) (block_ops b)
     \<and> terminator a = terminator b \<and> error_target a = error_target b"

definition alike :: "bir_function \<Rightarrow> bir_function \<Rightarrow> bool" where
  "alike f g \<longleftrightarrow> g = f\<lparr>blocks := blocks g\<rparr> \<and> list_all2 block_alike (blocks f) (blocks g)"

lemma op_alike_refl [simp]: "op_alike op op"
  by (simp add: op_alike_def)

lemma op_alike_sym: "op_alike a b \<Longrightarrow> op_alike b a"
  by (simp add: op_alike_def)

lemma block_alike_sym: "block_alike a b \<Longrightarrow> block_alike b a"
  by (auto simp: block_alike_def list_all2_conv_all_nth op_alike_sym)

lemma alike_parts:
  assumes "alike f g"
  shows "registers g = registers f" "param_count g = param_count f" "fn_name g = fn_name f"
    "defaults g = defaults f" "length (blocks g) = length (blocks f)"
    "register_at g = register_at f" "releasable g = releasable f" "unflagged g = unflagged f"
proof -
  from assms have g: "g = f\<lparr>blocks := blocks g\<rparr>" and len: "length (blocks g) = length (blocks f)"
    by (auto simp: alike_def list_all2_lengthD)
  show regs: "registers g = registers f" "param_count g = param_count f" "fn_name g = fn_name f"
    "defaults g = defaults f" by (subst g, simp)+
  show "length (blocks g) = length (blocks f)" by (fact len)
  show "register_at g = register_at f" by (rule ext) (simp add: register_at_def regs)
  then show "releasable g = releasable f" by (intro ext) (simp add: releasable_def)
  show "unflagged g = unflagged f" by (rule ext) (simp add: unflagged_def regs)
qed

lemma alike_sym:
  assumes "alike f g"
  shows "alike g f"
proof -
  have "g = f\<lparr>blocks := blocks g\<rparr>" using assms by (simp add: alike_def)
  then have "f = g\<lparr>blocks := blocks f\<rparr>"
    by (metis bir_function.surjective bir_function.update_convs(7))
  with assms show ?thesis
    by (auto simp: alike_def list_all2_conv_all_nth block_alike_sym)
qed

lemma alike_block:
  assumes "alike f g" "block_at f b = Some blk"
  shows "\<exists>blk'. block_at g b = Some blk' \<and> block_alike blk blk'"
  using assms by (auto simp: alike_def block_at_def get_Some_iff list_all2_conv_all_nth)

lemma block_alike_parts:
  assumes "block_alike a b"
  shows "length (block_ops b) = length (block_ops a)" "terminator b = terminator a"
    "error_target b = error_target a" "successors b = successors a"
    "\<And>i. i < length (block_ops a) \<Longrightarrow> op_alike (block_ops a ! i) (block_ops b ! i)"
  using assms by (auto simp: block_alike_def list_all2_conv_all_nth successors_def)

lemma alike_reaches:
  assumes "alike f g" "\<And>a b. op_alike a b \<Longrightarrow> written a = written b" "reaches written f b i w"
  shows "reaches written g b i w"
  using assms(3)
proof induction
  case start
  then show ?case using reaches.start [of written g] alike_parts [OF assms(1)] by simp
next
  case (operation b i w blk)
  obtain blk' where blk': "block_at g b = Some blk'" "block_alike blk blk'"
    using alike_block [OF assms(1) operation.hyps(2)] by blast
  note parts = block_alike_parts [OF blk'(2)]
  from reaches.operation [OF operation.IH blk'(1)] operation.hyps(3) assms(2) [OF parts(5)] parts(1)
  show ?case by simp
next
  case (handler b i w blk h)
  obtain blk' where blk': "block_at g b = Some blk'" "block_alike blk blk'"
    using alike_block [OF assms(1) handler.hyps(2)] by blast
  from reaches.handler [OF handler.IH blk'(1)] handler.hyps alike_parts(5) [OF assms(1)]
    block_alike_parts [OF blk'(2)] show ?case by simp
next
  case (jump b blk w t)
  obtain blk' where blk': "block_at g b = Some blk'" "block_alike blk blk'"
    using alike_block [OF assms(1) jump.hyps(2)] by blast
  note parts = block_alike_parts [OF blk'(2)]
  have "edge_writes blk' t = edge_writes blk t" by (simp add: edge_writes_def parts)
  with reaches.jump [of written g b blk' w t] jump.IH jump.hyps blk'(1) alike_parts(5) [OF assms(1)] parts
  show ?case by simp
qed

section \<open>Verified before, verified after\<close>

lemma alike_written:
  "op_alike a b \<Longrightarrow> dest_written a = dest_written b"
  "op_alike a b \<Longrightarrow> assigned_written a = assigned_written b"
  by (simp_all add: op_alike_def dest_written_def assigned_written_def)

lemma alike_checked_at: "block_alike a b \<Longrightarrow> i \<le> length (block_ops a) \<Longrightarrow> checked_at b i = checked_at a i"
  using block_alike_parts [of a b] by (auto simp: checked_at_def op_alike_def)

lemma alike_definite_assignment:
  assumes "alike f g" "check_definite_assignment f = Some []"
  shows "check_definite_assignment g = Some []"
proof -
  obtain es where es: "check_definite_assignment g = Some es"
    "set es = {e. \<exists>b blk i r w. block_at g b = Some blk \<and> reaches assigned_written g b i w
        \<and> Register r \<in> set (checked_at blk i) \<and> unflagged g r \<and> r \<notin> w \<and> e = read_error g b r}"
    using definite_assignment_errors [of g] by blast
  have "False" if "block_at g b = Some blk" "reaches assigned_written g b i w"
    "Register r \<in> set (checked_at blk i)" "unflagged g r" "r \<notin> w" for b blk i r w
  proof -
    note flip = alike_sym [OF assms(1)] and at = that
    obtain blk' where blk': "block_at f b = Some blk'" "block_alike blk blk'"
      using alike_block [OF flip at(1)] by blast
    have "checked_at blk' i = checked_at blk i"
      using alike_checked_at [OF blk'(2)] reaches_position [OF that(2,1)] by simp
    moreover have "reaches assigned_written f b i w"
      using alike_reaches [OF flip alike_written(2) that(2)] .
    ultimately have "\<exists>e. \<exists>b blk i r w. block_at f b = Some blk \<and> reaches assigned_written f b i w
        \<and> Register r \<in> set (checked_at blk i) \<and> unflagged f r \<and> r \<notin> w \<and> e = read_error f b r"
      using blk'(1) that(3,4,5) alike_parts(8) [OF flip] by metis
    then show False using definite_assignment_errors [of f] assms(2) by fastforce
  qed
  then have "set es = {}" unfolding es(2) by blast
  with es(1) show ?thesis by simp
qed

lemma alike_next_blocks: "alike f g \<Longrightarrow> next_blocks g = next_blocks f"
proof (rule ext)
  fix b assume alike: "alike f g"
  show "next_blocks g b = next_blocks f b"
  proof (cases "block_at f b")
    case None
    then show ?thesis using alike_parts(5) [OF alike]
      by (simp add: next_blocks_def block_at_def get_None_iff get_def split: if_splits)
  next
    case (Some blk)
    with alike_block [OF alike Some] block_alike_parts(4) show ?thesis by (auto simp: next_blocks_def)
  qed
qed

lemma alike_block_dests:
  assumes "alike f g"
  shows "block_dests g b = block_dests f b"
proof (cases "block_at f b")
  case None
  then show ?thesis using alike_parts(5) [OF assms]
    by (simp add: block_dests_def block_at_def get_None_iff get_def split: if_splits)
next
  case (Some blk)
  then obtain blk' where blk': "block_at g b = Some blk'" "list_all2 op_alike (block_ops blk) (block_ops blk')"
    using alike_block [OF assms Some] by (auto simp: block_alike_def)
  from blk'(2) have "filter_map dest (block_ops blk) = filter_map dest (block_ops blk')"
    by induction (auto simp: op_alike_def split: option.splits)
  with Some blk'(1) show ?thesis by (simp add: block_dests_def)
qed

lemma alike_may_hold:
  assumes "alike f g"
  shows "may_hold g b r = may_hold f b r" "flow_rel g = flow_rel f"
  using alike_next_blocks [OF assms] alike_block_dests [OF assms] alike_parts(2) [OF assms]
  by (simp_all add: may_hold_def flow_rel_def)

lemma check_borrowed_writes_Nil:
  "check_borrowed_writes f = [] \<longleftrightarrow>
     (\<forall>b blk op d. block_at f b = Some blk \<and> op \<in> set (block_ops blk) \<and> dest op = Some d
        \<and> (\<exists>decl. register_at f d = Some decl \<and> borrowed decl) \<longrightarrow> lends op)"
proof -
  have nil: "filter_map g xs = [] \<longleftrightarrow> (\<forall>x \<in> set xs. g x = None)" for g :: "nat op \<Rightarrow> verify_error option" and xs
    by (induction xs) (auto split: option.splits)
  have "check_borrowed_writes f = [] \<longleftrightarrow> (\<forall>b < length (blocks f). \<forall>op \<in> set (block_ops (blocks f ! b)). \<forall>d.
      dest op = Some d \<longrightarrow> \<not> ((case register_at f d of Some decl \<Rightarrow> borrowed decl | None \<Rightarrow> False) \<and> \<not> lends op))"
    unfolding check_borrowed_writes_def concat_eq_Nil_iff nil set_upt atLeast0LessThan Ball_def lessThan_iff
    by (auto split: option.splits if_splits)
  also have "\<dots> \<longleftrightarrow> (\<forall>b blk op d. block_at f b = Some blk \<and> op \<in> set (block_ops blk) \<and> dest op = Some d
      \<and> (\<exists>decl. register_at f d = Some decl \<and> borrowed decl) \<longrightarrow> lends op)"
    by (auto simp: block_at_def get_Some_iff split: option.splits)
  finally show ?thesis .
qed

lemma alike_borrowed_writes:
  assumes "alike f g" "check_borrowed_writes f = []"
  shows "check_borrowed_writes g = []"
  unfolding check_borrowed_writes_Nil
proof (intro allI impI, elim conjE exE)
  fix b blk op d decl
  assume blk: "block_at g b = Some blk" and op: "op \<in> set (block_ops blk)" and d: "dest op = Some d"
    and decl: "register_at g d = Some decl" "borrowed decl"
  obtain blk' where blk': "block_at f b = Some blk'" "block_alike blk blk'"
    using alike_block [OF alike_sym [OF assms(1)] blk] by blast
  obtain i where i: "i < length (block_ops blk)" "op = block_ops blk ! i" using op by (auto simp: in_set_conv_nth)
  have same: "op_alike op (block_ops blk' ! i)" using block_alike_parts(5) [OF blk'(2) i(1)] i(2) by simp
  have "block_ops blk' ! i \<in> set (block_ops blk')" using i(1) block_alike_parts(1) [OF blk'(2)] by simp
  moreover have "dest (block_ops blk' ! i) = Some d" using same d by (simp add: op_alike_def)
  moreover have "register_at f d = Some decl" using decl alike_parts(6) [OF assms(1)] by simp
  ultimately have "lends (block_ops blk' ! i)"
    using assms(2) [unfolded check_borrowed_writes_Nil] blk'(1) decl(2) by blast
  with same show "lends op" by (simp add: op_alike_def)
qed

lemma alike_verified:
  assumes "alike f g" "verify_in f m bases = Some []" "check_release_sets g = Some []"
    and ops: "\<And>blk op. blk \<in> set (blocks g) \<Longrightarrow> op \<in> set (block_ops blk) \<Longrightarrow>
      check_op \<lparr>of_function = f, of_module = m, of_bases = bases\<rparr> op = Some []"
  shows "verify_in g m bases = Some []"
proof -
  let ?f = "\<lparr>of_function = f, of_module = m, of_bases = bases\<rparr>"
  let ?g = "\<lparr>of_function = g, of_module = m, of_bases = bases\<rparr>"
  have g: "g = f\<lparr>blocks := blocks g\<rparr>" using assms(1) by (simp add: alike_def)
  note parts = alike_parts [OF assms(1)]
  note accepts = run_accepts [OF assms(2) [unfolded verify_in_def], simplified]
  have "check_block ?g b = Some []" for b
  proof (cases "block_at g b")
    case (Some blk)
    then obtain blk' where blk': "block_at f b = Some blk'" "block_alike blk blk'"
      using alike_block [OF alike_sym [OF assms(1)]] by blast
    have b: "b < length (blocks f)" using blk'(1) by (auto simp: block_at_def dest: get_SomeD)
    note old = check_block_accepts [OF accepts(3) [OF b], simplified, OF blk'(1)]
    have "check_op ?g op = Some []" if "op \<in> set (block_ops blk)" for op
    proof -
      have "blk \<in> set (blocks g)" using Some by (auto simp: block_at_def dest: get_SomeD)
      with ops that have "check_op ?f op = Some []" by blast
      then show ?thesis by (subst g) (simp add: check_op_blocks)
    qed
    moreover have "check_terminator g (terminator blk) = []"
      using old(2) block_alike_parts(2) [OF blk'(2)] check_terminator_blocks [of "blocks g" f] parts(5) g
      by metis
    moreover have "block_at g t \<noteq> None" if "error_target blk = Some t" for t
    proof -
      have "t \<in> set (successors blk')"
        using that block_alike_parts(3) [OF blk'(2)] by (simp add: set_successors)
      from old(3) [OF this] parts(5) show ?thesis by (auto simp: block_at_def get_def split: if_splits)
    qed
    ultimately show ?thesis
      using Some by (auto simp: check_block_def sequence_errors_Nil_iff split: option.splits)
  qed (simp add: check_block_def)
  moreover have "check_defaults g = []"
    using accepts(4) parts by (simp add: check_defaults_def)
  ultimately show ?thesis
    using accepts(1,2) parts assms(3) alike_definite_assignment [OF assms(1) accepts(5)]
      alike_borrowed_writes [OF assms(1) accepts(7)]
    by (auto simp: verify_in_def run_def Let_def sequence_errors_Nil_iff)
qed

end
