(* ===== verification/Opt_Liveness.thy ===== *)
theory Opt_Liveness
  imports BIR_Verified
begin

text \<open>
  \<^verbatim>\<open>by_opt/src/liveness.rs\<close>: which registers, or which parts of registers, are still going to be
  read, at the start of each block. A \<open>HashSet\<close> is a set; \<open>reads\<close> and \<open>whole\<close> are the source's two
  function arguments.
\<close>

section \<open>The analysis\<close>

definition read_registers :: "nat op \<Rightarrow> register_id list" where
  "read_registers op = filter_map register (operands op) @ option_list (unbinds op)"

definition live_out_by :: "(register_id \<Rightarrow> 'p list) \<Rightarrow> basic_block \<Rightarrow> 'p set list \<Rightarrow> 'p set" where
  "live_out_by whole blk live_in =
     (\<Union>t \<in> set (successors blk). case get live_in t of Some live \<Rightarrow> live | None \<Rightarrow> {})
     \<union> set (concat (map whole (filter_map register (term_operands (terminator blk)))))"

definition live_out :: "basic_block \<Rightarrow> register_id set list \<Rightarrow> register_id set" where
  "live_out = live_out_by (\<lambda>r. [r])"

definition error_live :: "basic_block \<Rightarrow> 'p set list \<Rightarrow> 'p set" where
  "error_live blk live_in =
     (case error_target blk of
        Some h \<Rightarrow> (case get live_in h of Some live \<Rightarrow> live | None \<Rightarrow> {})
      | None \<Rightarrow> {})"

definition overwritten :: "(register_id \<Rightarrow> 'p list) \<Rightarrow> nat op \<Rightarrow> 'p list" where
  "overwritten whole op = (case dest op of Some d \<Rightarrow> whole d | None \<Rightarrow> [])"

text \<open>What is live before a run of operations, from what is live after it; the loop runs backwards.\<close>

fun live_before :: "(nat op \<Rightarrow> 'p list) \<Rightarrow> (register_id \<Rightarrow> 'p list) \<Rightarrow> 'p set \<Rightarrow> nat op list \<Rightarrow> 'p set \<Rightarrow> 'p set" where
  "live_before reads whole handler [] live = live"
| "live_before reads whole handler (op # ops) live =
     (live_before reads whole handler ops live \<union> handler) - set (overwritten whole op) \<union> set (reads op)"

definition live_step ::
    "(nat op \<Rightarrow> 'p list) \<Rightarrow> (register_id \<Rightarrow> 'p list) \<Rightarrow> bir_function \<Rightarrow> block_id \<Rightarrow> 'p set list \<Rightarrow>
     'p set list \<times> bool" where
  "live_step reads whole f index live_in =
     (case block_at f index of
        None \<Rightarrow> (live_in, False)
      | Some blk \<Rightarrow>
          let live = live_before reads whole (error_live blk live_in) (block_ops blk)
                (live_out_by whole blk live_in)
          in if live \<noteq> live_in ! index then (live_in[index := live], True) else (live_in, False))"

definition live_in_by ::
    "(nat op \<Rightarrow> 'p list) \<Rightarrow> (register_id \<Rightarrow> 'p list) \<Rightarrow> bir_function \<Rightarrow> 'p set list option" where
  "live_in_by reads whole f =
     settle (live_step reads whole f) (rev [0..<length (blocks f)]) (replicate (length (blocks f)) {})"

definition live_in :: "(nat op \<Rightarrow> register_id list) \<Rightarrow> bir_function \<Rightarrow> register_id set list option" where
  "live_in reads f = live_in_by reads (\<lambda>r. [r]) f"

section \<open>What it computes\<close>

text \<open>
  \<open>live_at\<close> follows the analysis: an operation that fails hands its handler everything but what the
  operation writes. \<open>needed_at\<close> is what a register machine does: an operation that fails has not
  written its destination, so its handler can read the old value.
\<close>

inductive live_at :: "(nat op \<Rightarrow> 'p list) \<Rightarrow> (register_id \<Rightarrow> 'p list) \<Rightarrow> bir_function \<Rightarrow> block_id \<Rightarrow> nat \<Rightarrow> 'p \<Rightarrow> bool"
  for reads whole f where
  read: "block_at f b = Some blk \<Longrightarrow> i < length (block_ops blk) \<Longrightarrow> p \<in> set (reads (block_ops blk ! i)) \<Longrightarrow>
    live_at reads whole f b i p"
| onward: "block_at f b = Some blk \<Longrightarrow> i < length (block_ops blk) \<Longrightarrow>
    p \<notin> set (overwritten whole (block_ops blk ! i)) \<Longrightarrow> live_at reads whole f b (Suc i) p \<Longrightarrow>
    live_at reads whole f b i p"
| fails: "block_at f b = Some blk \<Longrightarrow> i < length (block_ops blk) \<Longrightarrow>
    p \<notin> set (overwritten whole (block_ops blk ! i)) \<Longrightarrow> error_target blk = Some h \<Longrightarrow>
    live_at reads whole f h 0 p \<Longrightarrow> live_at reads whole f b i p"
| ends: "block_at f b = Some blk \<Longrightarrow> Register r \<in> set (term_operands (terminator blk)) \<Longrightarrow>
    p \<in> set (whole r) \<Longrightarrow> live_at reads whole f b (length (block_ops blk)) p"
| leaves: "block_at f b = Some blk \<Longrightarrow> t \<in> set (successors blk) \<Longrightarrow> live_at reads whole f t 0 p \<Longrightarrow>
    live_at reads whole f b (length (block_ops blk)) p"

inductive needed_at :: "(nat op \<Rightarrow> 'p list) \<Rightarrow> (register_id \<Rightarrow> 'p list) \<Rightarrow> bir_function \<Rightarrow> block_id \<Rightarrow> nat \<Rightarrow> 'p \<Rightarrow> bool"
  for reads whole f where
  read: "block_at f b = Some blk \<Longrightarrow> i < length (block_ops blk) \<Longrightarrow> p \<in> set (reads (block_ops blk ! i)) \<Longrightarrow>
    needed_at reads whole f b i p"
| onward: "block_at f b = Some blk \<Longrightarrow> i < length (block_ops blk) \<Longrightarrow>
    p \<notin> set (overwritten whole (block_ops blk ! i)) \<Longrightarrow> needed_at reads whole f b (Suc i) p \<Longrightarrow>
    needed_at reads whole f b i p"
| fails: "block_at f b = Some blk \<Longrightarrow> i < length (block_ops blk) \<Longrightarrow> error_target blk = Some h \<Longrightarrow>
    needed_at reads whole f h 0 p \<Longrightarrow> needed_at reads whole f b i p"
| ends: "block_at f b = Some blk \<Longrightarrow> Register r \<in> set (term_operands (terminator blk)) \<Longrightarrow>
    p \<in> set (whole r) \<Longrightarrow> needed_at reads whole f b (length (block_ops blk)) p"
| leaves: "block_at f b = Some blk \<Longrightarrow> t \<in> set (successors blk) \<Longrightarrow> needed_at reads whole f t 0 p \<Longrightarrow>
    needed_at reads whole f b (length (block_ops blk)) p"

definition block_live ::
    "(nat op \<Rightarrow> 'p list) \<Rightarrow> (register_id \<Rightarrow> 'p list) \<Rightarrow> basic_block \<Rightarrow> nat \<Rightarrow> 'p set list \<Rightarrow> 'p set" where
  "block_live reads whole blk i l =
     live_before reads whole (error_live blk l) (drop i (block_ops blk)) (live_out_by whole blk l)"

lemma live_before_mono:
  "handler \<subseteq> handler' \<Longrightarrow> live \<subseteq> live' \<Longrightarrow>
     live_before reads whole handler ops live \<subseteq> live_before reads whole handler' ops live'"
  by (induction ops) auto

definition pointwise :: "'p set list \<Rightarrow> 'p set list \<Rightarrow> bool" where
  "pointwise l l' \<longleftrightarrow> length l = length l' \<and> (\<forall>b < length l. l ! b \<subseteq> l' ! b)"

lemma block_live_mono:
  assumes "pointwise l l'"
  shows "block_live reads whole blk i l \<subseteq> block_live reads whole blk i l'"
  unfolding block_live_def
proof (rule live_before_mono)
  have at: "(case get l t of Some live \<Rightarrow> live | None \<Rightarrow> {}) \<subseteq> (case get l' t of Some live \<Rightarrow> live | None \<Rightarrow> {})" for t
    using assms by (auto simp: pointwise_def get_def)
  show "error_live blk l \<subseteq> error_live blk l'"
    using at by (auto simp: error_live_def split: option.splits)
  show "live_out_by whole blk l \<subseteq> live_out_by whole blk l'"
    unfolding live_out_by_def using at by blast
qed

lemma live_step_alt:
  "block_at f b = Some blk \<Longrightarrow> live_step reads whole f b l =
     (if block_live reads whole blk 0 l \<noteq> l ! b then (l[b := block_live reads whole blk 0 l], True) else (l, False))"
  by (simp add: live_step_def block_live_def Let_def)

definition described :: "(nat op \<Rightarrow> 'p list) \<Rightarrow> (register_id \<Rightarrow> 'p list) \<Rightarrow> bir_function \<Rightarrow> 'p set list \<Rightarrow> bool" where
  "described reads whole f l \<longleftrightarrow> length l = length (blocks f)
     \<and> (\<forall>b < length l. l ! b \<subseteq> {p. live_at reads whole f b 0 p})"

lemma described_get:
  "described reads whole f l \<Longrightarrow> p \<in> (case get l t of Some live \<Rightarrow> live | None \<Rightarrow> {}) \<Longrightarrow> live_at reads whole f t 0 p"
  by (auto simp: described_def get_def split: if_splits)

lemma block_live_sound:
  assumes "described reads whole f l" "block_at f b = Some blk" "i \<le> length (block_ops blk)"
    and "p \<in> block_live reads whole blk i l"
  shows "live_at reads whole f b i p"
  using assms(3,4)
proof (induction "length (block_ops blk) - i" arbitrary: i)
  case 0
  then have i: "i = length (block_ops blk)" by simp
  with 0 have "p \<in> live_out_by whole blk l" by (simp add: block_live_def)
  then show ?case
    using assms(1,2) described_get [OF assms(1)]
    unfolding i live_out_by_def
    by (auto simp: set_filter_map register_eq_Some_iff intro: live_at.ends live_at.leaves)
next
  case (Suc n)
  then have i: "i < length (block_ops blk)" by simp
  let ?op = "block_ops blk ! i"
  have "drop i (block_ops blk) = ?op # drop (Suc i) (block_ops blk)" using i by (simp add: Cons_nth_drop_Suc)
  with Suc.prems have "p \<in> (block_live reads whole blk (Suc i) l \<union> error_live blk l) - set (overwritten whole ?op)
      \<union> set (reads ?op)" by (simp add: block_live_def)
  then consider "p \<in> set (reads ?op)"
    | "p \<notin> set (overwritten whole ?op)" "p \<in> block_live reads whole blk (Suc i) l"
    | "p \<notin> set (overwritten whole ?op)" "p \<in> error_live blk l" by blast
  then show ?case
  proof cases
    case 1
    then show ?thesis by (rule live_at.read [OF assms(2) i])
  next
    case 2
    have "live_at reads whole f b (Suc i) p" using Suc.hyps(1) [of "Suc i"] Suc.hyps(2) i 2 by simp
    with 2 show ?thesis by (intro live_at.onward [OF assms(2) i])
  next
    case 3
    then obtain h where "error_target blk = Some h" "live_at reads whole f h 0 p"
      using described_get [OF assms(1)] by (auto simp: error_live_def split: option.splits)
    with 3 show ?thesis by (intro live_at.fails [OF assms(2) i])
  qed
qed

text \<open>Where no step changes anything, everything \<open>live_at\<close> says is there.\<close>

lemma stable_complete:
  assumes "length l = length (blocks f)"
    and stable: "\<And>b blk. block_at f b = Some blk \<Longrightarrow> block_live reads whole blk 0 l = l ! b"
    and "live_at reads whole f b i p"
  shows "\<exists>blk. block_at f b = Some blk \<and> i \<le> length (block_ops blk) \<and> p \<in> block_live reads whole blk i l"
  using assms(3)
proof induction
  case (read b blk i p)
  then show ?case by (auto simp: block_live_def Cons_nth_drop_Suc [symmetric])
next
  case (onward b blk i p)
  then show ?case by (auto simp: block_live_def Cons_nth_drop_Suc [symmetric])
next
  case (fails b blk i p h)
  then obtain hblk where h: "block_at f h = Some hblk" "p \<in> block_live reads whole hblk 0 l" by auto
  with stable [OF h(1)] have "p \<in> l ! h" by simp
  moreover have "h < length l" using h(1) assms(1) by (auto simp: block_at_def dest: get_SomeD)
  ultimately have "p \<in> error_live blk l" using fails by (simp add: error_live_def get_def)
  with fails show ?case by (auto simp: block_live_def Cons_nth_drop_Suc [symmetric])
next
  case (ends b blk r p)
  then show ?case
    by (auto simp: block_live_def live_out_by_def set_filter_map intro!: bexI [of _ "Register r"])
next
  case (leaves b blk t p)
  then obtain tblk where t: "block_at f t = Some tblk" "p \<in> block_live reads whole tblk 0 l" by auto
  with stable [OF t(1)] have "p \<in> l ! t" by simp
  moreover have "t < length l" using t(1) assms(1) by (auto simp: block_at_def dest: get_SomeD)
  ultimately have "p \<in> live_out_by whole blk l"
    using leaves by (auto simp: live_out_by_def get_def intro!: bexI [of _ t])
  with leaves show ?case by (auto simp: block_live_def)
qed

section \<open>The loop ends there\<close>

definition read_parts :: "(nat op \<Rightarrow> 'p list) \<Rightarrow> (register_id \<Rightarrow> 'p list) \<Rightarrow> bir_function \<Rightarrow> 'p set" where
  "read_parts reads whole f = (\<Union>blk \<in> set (blocks f).
     (\<Union>op \<in> set (block_ops blk). set (reads op))
     \<union> set (concat (map whole (filter_map register (term_operands (terminator blk))))))"

definition ascending :: "(nat op \<Rightarrow> 'p list) \<Rightarrow> (register_id \<Rightarrow> 'p list) \<Rightarrow> bir_function \<Rightarrow> 'p set list \<Rightarrow> bool" where
  "ascending reads whole f l \<longleftrightarrow> described reads whole f l
     \<and> (\<forall>b blk. block_at f b = Some blk \<longrightarrow> l ! b \<subseteq> block_live reads whole blk 0 l)"

definition live_rank :: "(nat op \<Rightarrow> 'p list) \<Rightarrow> (register_id \<Rightarrow> 'p list) \<Rightarrow> bir_function \<Rightarrow> 'p set list \<Rightarrow> nat" where
  "live_rank reads whole f l = sum_list (map (\<lambda>live. card (read_parts reads whole f - live)) l)"

lemma finite_read_parts: "finite (read_parts reads whole f)"
  by (simp add: read_parts_def)

lemma live_at_read_parts: "live_at reads whole f b i p \<Longrightarrow> p \<in> read_parts reads whole f"
proof (induction rule: live_at.induct)
  case (read b blk i p)
  then have "blk \<in> set (blocks f)" by (auto simp: block_at_def dest: get_SomeD)
  with read show ?case by (force simp: read_parts_def)
next
  case (ends b blk r p)
  then have "blk \<in> set (blocks f)" by (auto simp: block_at_def dest: get_SomeD)
  with ends show ?case
    by (auto simp: read_parts_def set_filter_map intro!: bexI [of _ blk] bexI [of _ "Register r"])
qed

lemma ascending_step:
  assumes "ascending reads whole f l" "block_at f b = Some blk"
  shows "ascending reads whole f (l[b := block_live reads whole blk 0 l])" (is "ascending _ _ _ ?l")
proof -
  have b: "b < length l" using assms by (auto simp: ascending_def described_def block_at_def dest: get_SomeD)
  have new: "live_at reads whole f b 0 p" if "p \<in> block_live reads whole blk 0 l" for p
    using block_live_sound [OF _ assms(2) _ that] assms(1) by (simp add: ascending_def)
  have up: "pointwise l ?l"
    using assms b by (auto simp: pointwise_def ascending_def nth_list_update)
  have "described reads whole f ?l"
    using assms b new by (auto simp: ascending_def described_def nth_list_update split: if_splits)
  moreover have "?l ! c \<subseteq> block_live reads whole cblk 0 ?l" if "block_at f c = Some cblk" for c cblk
    using that assms b block_live_mono [OF up, of reads whole cblk 0]
    by (cases "c = b") (auto simp: ascending_def)
  ultimately show ?thesis by (simp add: ascending_def)
qed

lemma live_rank_step:
  assumes "ascending reads whole f l" "block_at f b = Some blk" "block_live reads whole blk 0 l \<noteq> l ! b"
  shows "live_rank reads whole f (l[b := block_live reads whole blk 0 l]) < live_rank reads whole f l"
proof -
  let ?u = "read_parts reads whole f" and ?new = "block_live reads whole blk 0 l"
  have b: "b < length l" using assms by (auto simp: ascending_def described_def block_at_def dest: get_SomeD)
  have new: "?new \<subseteq> ?u"
  proof
    fix p assume p: "p \<in> ?new"
    have "live_at reads whole f b 0 p"
      using block_live_sound [OF _ assms(2) _ p] assms(1) by (simp add: ascending_def)
    then show "p \<in> ?u" by (rule live_at_read_parts)
  qed
  have "l ! b \<subset> ?new" using assms by (auto simp: ascending_def)
  with new have "?u - ?new \<subset> ?u - l ! b" by blast
  then have less: "card (?u - ?new) < card (?u - l ! b)"
    by (intro psubset_card_mono) (simp_all add: finite_read_parts)
  have "card (?u - l ! b) \<le> sum_list (map (\<lambda>live. card (?u - live)) l)"
    using elem_le_sum_list [of b "map (\<lambda>live. card (?u - live)) l"] b by simp
  with less b show ?thesis by (simp add: live_rank_def map_update sum_list_update)
qed

interpretation liveness: chaotic_iteration "live_step reads whole f" "rev [0..<length (blocks f)]"
  "ascending reads whole f" "live_rank reads whole f" for reads whole f
proof unfold_locales
  fix s k assume good: "ascending reads whole f s" and k: "k \<in> set (rev [0..<length (blocks f)])"
  then obtain blk where blk: "block_at f k = Some blk" by (auto simp: block_at_def get_def)
  show "ascending reads whole f (fst (live_step reads whole f k s))"
    using good ascending_step [OF good blk] by (simp add: live_step_alt [OF blk])
  show "\<not> snd (live_step reads whole f k s) \<Longrightarrow> fst (live_step reads whole f k s) = s"
    by (simp add: live_step_alt [OF blk] split: if_splits)
  show "snd (live_step reads whole f k s) \<Longrightarrow>
      live_rank reads whole f (fst (live_step reads whole f k s)) < live_rank reads whole f s"
    using live_rank_step [OF good blk] by (simp add: live_step_alt [OF blk] split: if_splits)
qed

lemma live_in_by_stable:
  "\<exists>l. live_in_by reads whole f = Some l \<and> described reads whole f l
     \<and> (\<forall>b blk. block_at f b = Some blk \<longrightarrow> block_live reads whole blk 0 l = l ! b)"
proof -
  have "ascending reads whole f (replicate (length (blocks f)) {})"
    by (auto simp: ascending_def described_def block_at_def dest: get_SomeD)
  from liveness.settles [OF this] obtain l where l: "live_in_by reads whole f = Some l"
    "liveness.settled reads whole f l" unfolding live_in_by_def by blast
  then have good: "described reads whole f l"
    and fixed: "\<And>b. b < length (blocks f) \<Longrightarrow> fst (live_step reads whole f b l) = l"
    by (auto simp: liveness.settled_def ascending_def)
  then have len: "length l = length (blocks f)" by (simp add: described_def)
  have "block_live reads whole blk 0 l = l ! b" if blk: "block_at f b = Some blk" for b blk
  proof -
    have b: "b < length (blocks f)" using blk by (auto simp: block_at_def dest: get_SomeD)
    with fixed [OF b] len show ?thesis
      by (metis fst_conv live_step_alt [OF blk] nth_list_update_eq)
  qed
  with l(1) good show ?thesis by blast
qed

text \<open>At every position of every block, the sets the loop ends with describe exactly what is live.\<close>

lemma block_live_exact:
  assumes "live_in_by reads whole f = Some l" "block_at f b = Some blk" "i \<le> length (block_ops blk)"
  shows "block_live reads whole blk i l = {p. live_at reads whole f b i p}"
proof -
  from live_in_by_stable [of reads whole f] assms(1) have good: "described reads whole f l"
    and stable: "\<And>b blk. block_at f b = Some blk \<Longrightarrow> block_live reads whole blk 0 l = l ! b" by auto
  then have len: "length l = length (blocks f)" by (simp add: described_def)
  show ?thesis
  proof (intro set_eqI iffI CollectI)
    fix p assume "p \<in> block_live reads whole blk i l"
    then show "live_at reads whole f b i p" by (rule block_live_sound [OF good assms(2,3)])
  next
    fix p assume "p \<in> {p. live_at reads whole f b i p}"
    then have "live_at reads whole f b i p" by simp
    from stable_complete [OF len stable this] assms(2) show "p \<in> block_live reads whole blk i l" by auto
  qed
qed

lemma live_in_by_exact:
  "live_in_by reads whole f = Some (map (\<lambda>b. {p. live_at reads whole f b 0 p}) [0..<length (blocks f)])"
proof -
  from live_in_by_stable [of reads whole f] obtain l where l: "live_in_by reads whole f = Some l"
    "described reads whole f l" "\<And>b blk. block_at f b = Some blk \<Longrightarrow> block_live reads whole blk 0 l = l ! b"
    by blast
  then have len: "length l = length (blocks f)" by (simp add: described_def)
  have "l ! b = {p. live_at reads whole f b 0 p}" if "b < length (blocks f)" for b
  proof -
    have blk: "block_at f b = Some (blocks f ! b)" using that by (simp add: block_at_def get_def)
    show ?thesis using block_live_exact [OF l(1) blk, of 0] l(3) [OF blk] by simp
  qed
  with len l(1) show ?thesis by (auto intro: nth_equalityI)
qed

text \<open>What the handler of a block reads.\<close>

lemma error_live_exact:
  assumes "live_in_by reads whole f = Some l"
  shows "p \<in> error_live blk l \<longleftrightarrow> (\<exists>h. error_target blk = Some h \<and> live_at reads whole f h 0 p)"
proof -
  have "h < length (blocks f)" if "live_at reads whole f h 0 p" for h
    using that by cases (auto simp: block_at_def dest: get_SomeD)
  then show ?thesis
    using assms live_in_by_exact [of reads whole f] by (auto simp: error_live_def get_def split: option.splits)
qed

section \<open>Against what is needed\<close>

lemma live_at_needed: "live_at reads whole f b i p \<Longrightarrow> needed_at reads whole f b i p"
  by (induction rule: live_at.induct) (auto intro: needed_at.intros)

text \<open>No block begins with an operation that overwrites what its handler needs.\<close>

definition first_writes_spare_handlers ::
    "(nat op \<Rightarrow> 'p list) \<Rightarrow> (register_id \<Rightarrow> 'p list) \<Rightarrow> bir_function \<Rightarrow> bool" where
  "first_writes_spare_handlers reads whole f \<longleftrightarrow>
     (\<forall>b blk h op ops p. block_at f b = Some blk \<and> error_target blk = Some h \<and> block_ops blk = op # ops
        \<and> p \<in> set (overwritten whole op) \<longrightarrow> \<not> needed_at reads whole f h 0 p)"

lemma needed_at_live:
  assumes "first_writes_spare_handlers reads whole f" "needed_at reads whole f b i p"
  shows "live_at reads whole f b i p \<or>
    0 < i \<and> (\<exists>blk h. block_at f b = Some blk \<and> error_target blk = Some h \<and> live_at reads whole f h 0 p)"
  using assms(2)
proof induction
  case (onward b blk i p)
  then show ?case using live_at.onward live_at.fails by (metis option.inject)
next
  case (fails b blk i h p)
  then have live: "live_at reads whole f h 0 p" by simp
  show ?case
  proof (cases "p \<in> set (overwritten whole (block_ops blk ! i))")
    case True
    have "0 < i"
    proof (rule ccontr)
      assume "\<not> 0 < i"
      then obtain op ops where "block_ops blk = op # ops" "op = block_ops blk ! i"
        using fails.hyps(2) by (cases "block_ops blk") auto
      with True assms(1) fails.hyps show False unfolding first_writes_spare_handlers_def by blast
    qed
    with live fails.hyps show ?thesis by blast
  next
    case False
    show ?thesis by (rule disjI1, rule live_at.fails [OF fails.hyps(1,2) False fails.hyps(3) live])
  qed
next
  case (read b blk i p)
  then show ?case by (intro disjI1 live_at.read)
next
  case (ends b blk r p)
  then show ?case by (intro disjI1 live_at.ends)
next
  case (leaves b blk t p)
  then have "live_at reads whole f t 0 p" by simp
  with leaves.hyps show ?case by (intro disjI1 live_at.leaves)
qed

text \<open>
  \<open>def retry(z): s = z; y = s + z\<close>, then \<open>try: s = f"{z}"\<close> with a handler that returns \<open>s\<close>,
  and otherwise \<open>y\<close> returned: block 1 starts with a write of register 1 that can fail, and its
  handler, block 2, reads register 1.
\<close>

definition retry_function :: bir_function where
  "retry_function = plain_function\<lparr>fn_name := lit ''retry'',
     registers :=
       [\<lparr>decl_name = Some (lit ''z''), decl_ty = TStr, borrowed = False, may_be_unassigned = False\<rparr>,
        \<lparr>decl_name = Some (lit ''s''), decl_ty = TStr, borrowed = False, may_be_unassigned = False\<rparr>,
        \<lparr>decl_name = Some (lit ''y''), decl_ty = TStr, borrowed = False, may_be_unassigned = False\<rparr>],
     blocks :=
       [\<lparr>block_ops =
           [ScalarOp (Assign 1 (Register 0)),
            StrOp (StrConcat 2 (Register 1) (Register 0) False (Operator Fresh))],
         terminator = Goto 1, owned_at_exit = None, block_range = None, block_position = None,
         error_target = None\<rparr>,
        \<lparr>block_ops = [StrOp (Format 1 (Register 0) None ConvStr)],
         terminator = Return (Register 2), owned_at_exit = None, block_range = None, block_position = None,
         error_target = Some 2\<rparr>,
        \<lparr>block_ops = [], terminator = Return (Register 1), owned_at_exit = None, block_range = None,
         block_position = None, error_target = None\<rparr>]\<rparr>"

lemma retry_blocks:
  "block_at retry_function 1 = Some (blocks retry_function ! 1)"
  "block_at retry_function 2 = Some (blocks retry_function ! 2)"
  "0 < length (block_ops (blocks retry_function ! 1))"
  "error_target (blocks retry_function ! 1) = Some 2"
  "block_ops (blocks retry_function ! 2) = []"
  "terminator (blocks retry_function ! 2) = Return (Register 1)"
  by (simp_all add: retry_function_def block_at_def)

lemma retry_needs_s: "needed_at read_registers (\<lambda>r. [r]) retry_function 1 0 1"
proof -
  have "needed_at read_registers (\<lambda>r. [r]) retry_function 2
      (length (block_ops (blocks retry_function ! 2))) 1"
    by (rule needed_at.ends [OF retry_blocks(2), of 1]) (simp_all add: retry_blocks)
  then have "needed_at read_registers (\<lambda>r. [r]) retry_function 2 0 1" by (simp add: retry_blocks)
  from needed_at.fails [OF retry_blocks(1,3,4) this] show ?thesis .
qed

section \<open>Properties\<close>


text \<open>
  Where no block with a handler begins with an operation that overwrites what the handler
  needs, the sets are exactly what the paths need, a failing operation leaving its destination as
  it was.
\<close>

theorem liveness_is_need:
  assumes "first_writes_spare_handlers reads whole f" "live_in_by reads whole f = Some l"
    and "b < length (blocks f)"
  shows "p \<in> l ! b \<longleftrightarrow> needed_at reads whole f b 0 p"
  using live_in_by_exact [of reads whole f] assms needed_at_live [OF assms(1), of b 0 p] live_at_needed
  by auto

theorem liveness_is_need_witness:
  "(0 :: nat) \<in> {0} \<longleftrightarrow> needed_at read_registers (\<lambda>r. [r]) plain_function 0 0 0"
proof -
  have "first_writes_spare_handlers read_registers (\<lambda>r. [r]) plain_function"
    by (auto simp: first_writes_spare_handlers_def block_at_def plain_function_def get_def split: if_splits)
  moreover have "live_in_by read_registers (\<lambda>r. [r]) plain_function = Some [{0}]" by code_simp
  ultimately show ?thesis
    using liveness_is_need [of read_registers "\<lambda>r. [r]" plain_function "[{0}]" 0 0]
    by (simp add: plain_function_def)
qed

text \<open>
  On a function the verifier accepts, the analysis leaves out a register a handler reads: at
  the start of block 1 of the function above register 1 is needed, since the block's only
  operation may fail before it writes register 1, and the set does not have it.
\<close>

theorem liveness_misses_a_handlers_read:
  "verify retry_function = Some []
   \<and> live_in read_registers retry_function = Some [{0}, {0, 2}, {1}]
   \<and> needed_at read_registers (\<lambda>r. [r]) retry_function 1 0 1"
proof (intro conjI)
  show "verify retry_function = Some []" by code_simp
  show "live_in read_registers retry_function = Some [{0}, {0, 2}, {1}]" by code_simp
qed (rule retry_needs_s)

end
