(* ===== verification/Opt_Pass.thy ===== *)
theory Opt_Pass
  imports BIR_Preserve
begin

text \<open>
  What the optimizer's passes share. A pass is a function over a whole module that rewrites each
  function of it (\<^verbatim>\<open>by_opt/src/lib.rs\<close>); one whose loops are proved to return is a partial function on
  functions. The locale \<open>function_pass\<close> is the contract the pipeline relies on between passes: the
  pass returns, leaves alone what callers see of a function, and gives back a function the verifier
  accepts. From the contract follows what the pipeline checks after every pass: the module still
  verifies.
\<close>

section \<open>Running a pass on a module\<close>

definition try_functions :: "(bir_function \<Rightarrow> bir_function option) \<Rightarrow> module_ir \<Rightarrow> module_ir option" where
  "try_functions pass m =
     (if list_all (\<lambda>f. pass f \<noteq> None) (all_functions m)
      then Some (map_functions (\<lambda>f. the (pass f)) m) else None)"

section \<open>What a call site sees of a module\<close>

definition seen_of :: "register_decl \<Rightarrow> ustr option \<times> rtype" where
  "seen_of decl = (decl_name decl, decl_ty decl)"

definition same_interface :: "bir_function \<Rightarrow> bir_function \<Rightarrow> bool" where
  "same_interface f g \<longleftrightarrow> fn_name g = fn_name f \<and> owner g = owner f \<and> nested g = nested f \<and> param_count g = param_count f
     \<and> (\<forall>r < param_count f. map_option seen_of (register_at g r) = map_option seen_of (register_at f r))"

lemma same_interface_refl [simp]: "same_interface f f"
  by (simp add: same_interface_def)

lemma alike_same_interface:
  assumes "alike f g"
  shows "same_interface f g"
proof -
  have "g = f\<lparr>blocks := blocks g\<rparr>" using assms by (simp add: alike_def)
  moreover have "owner (f\<lparr>blocks := bs\<rparr>) = owner f \<and> nested (f\<lparr>blocks := bs\<rparr>) = nested f" for bs by simp
  ultimately have "owner g = owner f \<and> nested g = nested f" by metis
  with alike_parts [OF assms] show ?thesis by (simp add: same_interface_def)
qed

text \<open>Two modules of the same classes whose functions look alike from a call.\<close>

definition class_seen :: "class_ir \<Rightarrow> class_ir \<Rightarrow> bool" where
  "class_seen c d \<longleftrightarrow> class_name d = class_name c \<and> list_all2 same_interface (methods c) (methods d)"

definition same_seen :: "module_ir \<Rightarrow> module_ir \<Rightarrow> bool" where
  "same_seen m n \<longleftrightarrow> list_all2 class_seen (mod_classes m) (mod_classes n)
     \<and> list_all2 same_interface (all_functions m) (all_functions n)"

lemma find_same_interface:
  assumes "list_all2 same_interface fs gs"
  shows "rel_option same_interface
    (List.find (\<lambda>c. fn_name c = callee \<and> owner c = own) fs)
    (List.find (\<lambda>c. fn_name c = callee \<and> owner c = own) gs)"
  using assms by induction (auto simp: same_interface_def)

lemma argument_error_same:
  assumes "same_interface f g" "i < param_count f"
  shows "argument_error v callee g (i, arg) = argument_error v callee f (i, arg)"
proof -
  have "map_option seen_of (get (registers g) i) = map_option seen_of (get (registers f) i)"
    using assms by (simp add: same_interface_def register_at_def)
  then show ?thesis
    by (cases "get (registers f) i"; cases "get (registers g) i") (auto simp: argument_error_def seen_of_def cong: option.case_cong if_cong map_option_cong)
qed

lemma upcasts_module [simp]: "upcasts (v\<lparr>of_module := n\<rparr>) = upcasts v"
  by (intro ext) (simp add: upcasts_def cong: rtype.case_cong option.case_cong)

lemma names_the_receivers_layout_module [simp]:
  "names_the_receivers_layout (v\<lparr>of_module := n\<rparr>) = names_the_receivers_layout v"
  by (intro ext) (simp add: names_the_receivers_layout_def cong: rtype.case_cong if_cong)

lemma argument_error_module [simp]: "argument_error (v\<lparr>of_module := n\<rparr>) = argument_error v"
  by (intro ext) (simp add: argument_error_def cong: option.case_cong if_cong)

lemma check_call_seen:
  assumes "same_seen m n" "of_module v = Some m"
  shows "check_call (v\<lparr>of_module := Some n\<rparr>) own callee args = check_call v own callee args"
proof -
  let ?find = "List.find (\<lambda>c. fn_name c = callee \<and> owner c = own)"
  have rel: "rel_option same_interface (?find (all_functions m)) (?find (all_functions n))"
    using find_same_interface assms(1) by (simp add: same_seen_def)
  show ?thesis
  proof (cases "?find (all_functions m)")
    case None
    with rel show ?thesis using assms(2) by (simp add: check_call_def)
  next
    case (Some target)
    then obtain target' where target': "?find (all_functions n) = Some target'" "same_interface target target'"
      using rel by (cases "?find (all_functions n)") auto
    have "map (argument_error v callee target') (enumerate 0 args) = map (argument_error v callee target) (enumerate 0 args)"
      if "length args = param_count target"
      using that argument_error_same [OF target'(2)] by (auto simp: in_set_enumerate_eq)
    moreover have "param_count target' = param_count target" using target'(2) by (simp add: same_interface_def)
    ultimately show ?thesis using Some target'(1) assms(2) by (simp add: check_call_def del: map_eq_conv)
  qed
qed

lemma closure_seen:
  assumes "list_all2 class_seen cs ds"
  shows "list_ex (\<lambda>candidate. fn_name candidate = nm \<and> nested candidate \<noteq> None)
      (concat (map methods (filter (\<lambda>candidate. class_name candidate = cls) ds)))
    \<longleftrightarrow> list_ex (\<lambda>candidate. fn_name candidate = nm \<and> nested candidate \<noteq> None)
      (concat (map methods (filter (\<lambda>candidate. class_name candidate = cls) cs)))"
proof -
  have one: "list_ex (\<lambda>f. fn_name f = nm \<and> nested f \<noteq> None) gs \<longleftrightarrow> list_ex (\<lambda>f. fn_name f = nm \<and> nested f \<noteq> None) fs"
    if "list_all2 same_interface fs gs" for fs gs using that by induction (auto simp: same_interface_def)
  from assms show ?thesis
  proof induction
    case (Cons c cs d ds)
    with one [of "methods c" "methods d"] show ?case by (auto simp: class_seen_def)
  qed simp
qed

lemma check_op_seen:
  assumes "same_seen m n" "of_module v = Some m"
  shows "check_op (v\<lparr>of_module := Some n\<rparr>) op = check_op v op"
proof -
  have emitted: "expect_emitted_class (v\<lparr>of_module := Some n\<rparr>) cls what = expect_emitted_class v cls what"
    for cls what
  proof -
    have "list_ex (\<lambda>c. class_name c = cls) ds \<longleftrightarrow> list_ex (\<lambda>c. class_name c = cls) cs"
      if "list_all2 class_seen cs ds" for cs ds using that by induction (auto simp: class_seen_def)
    then have "list_ex (\<lambda>c. class_name c = cls) (mod_classes n) \<longleftrightarrow> list_ex (\<lambda>c. class_name c = cls) (mod_classes m)"
      using assms(1) by (simp add: same_seen_def)
    with assms(2) show ?thesis by (simp add: expect_emitted_class_def)
  qed
  have classes: "list_all2 class_seen (mod_classes m) (mod_classes n)" using assms(1) by (simp add: same_seen_def)
  note module = check_call_seen [OF assms] emitted closure_seen [OF classes] assms(2)
  show ?thesis
  proof (cases op)
    case (CallOp x)
    then show ?thesis
      by (cases x) (simp_all add: module check_call_native_def check_new_instance_def check_make_closure_def
          cong: option.case_cong if_cong)
  next
    case (AttributeOp x)
    then show ?thesis
      by (cases x) (simp_all add: check_field_receiver_def check_get_field_def check_set_field_def
          cong: option.case_cong)
  next
    case (NamespaceOp x)
    then show ?thesis by (cases x) (simp_all add: module)
  qed simp_all
qed

lemma verify_in_seen:
  assumes "same_seen m n"
  shows "verify_in f (Some n) bases = verify_in f (Some m) bases"
proof -
  have "check_op \<lparr>of_function = f, of_module = Some n, of_bases = bases\<rparr>
      = check_op \<lparr>of_function = f, of_module = Some m, of_bases = bases\<rparr>"
    using check_op_seen [OF assms, of "\<lparr>of_function = f, of_module = Some m, of_bases = bases\<rparr>"]
    by (intro ext) simp
  then have "check_block \<lparr>of_function = f, of_module = Some n, of_bases = bases\<rparr>
      = check_block \<lparr>of_function = f, of_module = Some m, of_bases = bases\<rparr>"
    by (intro ext) (simp add: check_block_def cong: option.case_cong if_cong)
  then show ?thesis by (simp add: verify_in_def run_def)
qed

section \<open>Passes that only change operations\<close>

lemma block_of_mem: "blk \<in> set (blocks f) \<Longrightarrow> \<exists>b. block_at f b = Some blk"
  by (metis block_at_def get_Some_iff in_set_conv_nth)

lemma alike_release_sets:
  assumes "alike f g" "check_release_sets f = Some []"
    and "\<And>b old new. block_at f b = Some old \<Longrightarrow> block_at g b = Some new \<Longrightarrow> owned_at_exit new = owned_at_exit old"
  shows "check_release_sets g = Some []"
  unfolding check_release_sets_Nil
proof (intro allI impI, elim conjE)
  fix b new owned r
  assume at: "block_at g b = Some new" "(entry, b) \<in> (flow_rel g)\<^sup>*" "owned_at_exit new = Some owned"
    "may_hold g b r" "releasable g r"
  obtain old where old: "block_at f b = Some old"
    using alike_block [OF alike_sym [OF assms(1)] at(1)] by blast
  with assms(3) [OF old at(1)] at alike_may_hold [OF assms(1)] alike_parts(7) [OF assms(1)]
    assms(2) [unfolded check_release_sets_Nil]
  show "r \<in> set owned" by simp
qed

section \<open>The contract of a pass\<close>

lemma all_functions_try:
  "try_functions pass m = Some n \<Longrightarrow> list_all2 (\<lambda>f g. pass f = Some g) (all_functions m) (all_functions n)"
  by (auto simp: try_functions_def all_functions_map_functions list_all2_conv_all_nth list_all_length
      split: if_splits)

lemma all_functions_origin:
  assumes "try_functions pass m = Some n" "g \<in> set (all_functions n)"
  shows "\<exists>f \<in> set (all_functions m). pass f = Some g"
proof -
  obtain i where "i < length (all_functions n)" "g = all_functions n ! i"
    using assms(2) by (metis in_set_conv_nth)
  with all_functions_try [OF assms(1)] have "i < length (all_functions m)" "pass (all_functions m ! i) = Some g"
    by (auto simp: list_all2_conv_all_nth)
  then show ?thesis by (meson nth_mem)
qed

lemma try_functions_classes:
  assumes "try_functions pass m = Some n"
  shows "list_all2 (\<lambda>c d. class_name d = class_name c \<and> list_all2 (\<lambda>f g. pass f = Some g) (methods c) (methods d))
      (mod_classes m) (mod_classes n)"
    "base_chain n = base_chain m" "check_field_defaults n = check_field_defaults m"
  using assms
  by (auto simp: try_functions_def map_functions_def all_functions_def list_all_iff list_all2_map2
      list_all2_same base_chain_def check_field_defaults_def filter_map_map
      o_def split: if_splits cong: option.case_cong if_cong)
    (rule option.collapse [symmetric], blast)

locale function_pass =
  fixes pass :: "bir_function \<Rightarrow> bir_function option"
  assumes returns: "pass f \<noteq> None"
    and interface: "pass f = Some g \<Longrightarrow> same_interface f g"
    and keeps_verified: "pass f = Some g \<Longrightarrow> verify_in f m bases = Some [] \<Longrightarrow> verify_in g m bases = Some []"
begin

lemma pass_returns: "\<exists>n. try_functions pass m = Some n"
  by (simp add: try_functions_def list_all_iff returns)

lemma pass_verified:
  assumes "try_functions pass m = Some n" "verify_module render False m = Some []"
  shows "verify_module render False n = Some []"
proof -
  note fs = all_functions_try [OF assms(1)]
  have "list_all2 same_interface (all_functions m) (all_functions n)"
    using fs by (rule list_all2_mono) (rule interface)
  moreover have "list_all2 class_seen (mod_classes m) (mod_classes n)"
    using try_functions_classes(1) [OF assms(1)]
    by (rule list_all2_mono) (auto simp: class_seen_def intro: list_all2_mono interface)
  ultimately have seen: "same_seen m n" by (simp add: same_seen_def)
  have "verify_in g (Some n) (Some (base_chain n)) = Some []" if "g \<in> set (all_functions n)" for g
  proof -
    obtain f where "f \<in> set (all_functions m)" "pass f = Some g"
      using all_functions_origin [OF assms(1) \<open>g \<in> _\<close>] by blast
    moreover from this assms(2) have "verify_in f (Some m) (Some (base_chain m)) = Some []"
      by (auto simp: verify_module_def sequence_errors_Nil_iff)
    ultimately show ?thesis
      using keeps_verified verify_in_seen [OF seen] try_functions_classes [OF assms(1)] by simp
  qed
  with assms(2) try_functions_classes [OF assms(1)] show ?thesis
    by (auto simp: verify_module_def sequence_errors_Nil_iff check_accessor_coverage_def)
qed

end

text \<open>One pass after another keeps the contract.\<close>

lemma function_pass_comp:
  assumes "function_pass p" "function_pass q"
  shows "function_pass (\<lambda>f. Option.bind (p f) q)"
proof
  fix f g m bases
  show "Option.bind (p f) q \<noteq> None"
    using function_pass.returns [OF assms(1), of f] function_pass.returns [OF assms(2)] by (cases "p f") auto
  assume "Option.bind (p f) q = Some g"
  then obtain h where "p f = Some h" "q h = Some g" by (auto simp: bind_eq_Some_conv)
  with function_pass.interface [OF assms(1)] function_pass.interface [OF assms(2)]
    function_pass.keeps_verified [OF assms(1)] function_pass.keeps_verified [OF assms(2)]
  show "same_interface f g" "verify_in f m bases = Some [] \<Longrightarrow> verify_in g m bases = Some []"
    by (fastforce simp: same_interface_def)+
qed

end
