(* ===== verification/Opt_Refcount.thy ===== *)
theory Opt_Refcount
  imports Opt_Pass
begin

text \<open>
  \<^verbatim>\<open>by_opt/src/refcount.rs\<close>: the registers an exit has to release, as a forward analysis of what may
  have been written. A \<open>HashSet\<close> is a set, a \<open>BTreeSet\<close> the sorted list of one. The sets are shown to
  be what the paths fill, to satisfy the verifier, and to be the least that do.
\<close>

section \<open>The pass\<close>

definition block_writes :: "basic_block \<Rightarrow> register_id set" where
  "block_writes blk = set (filter_map dest (block_ops blk))"

text \<open>One successor: its slot takes in what the block lets out, and a slot that grew is a change.\<close>

definition push_out ::
    "register_id set \<Rightarrow> block_id \<Rightarrow> register_id set list \<times> bool \<Rightarrow> register_id set list \<times> bool" where
  "push_out outgoing t = (\<lambda>(incoming, changed).
     case get incoming t of
       None \<Rightarrow> (incoming, changed)
     | Some slot \<Rightarrow>
         (incoming[t := slot \<union> outgoing], changed \<or> card (slot \<union> outgoing) \<noteq> card slot))"

definition release_step ::
    "bir_function \<Rightarrow> block_id \<Rightarrow> register_id set list \<Rightarrow> register_id set list \<times> bool" where
  "release_step f index incoming =
     (case block_at f index of
        None \<Rightarrow> (incoming, False)
      | Some blk \<Rightarrow> fold (push_out (incoming ! index \<union> block_writes blk)) (successors blk) (incoming, False))"

definition first_incoming :: "bir_function \<Rightarrow> register_id set list" where
  "first_incoming f = (replicate (length (blocks f)) {})[0 := set [0..<param_count f]]"

definition release_sets :: "bir_function \<Rightarrow> register_id list list option" where
  "release_sets f =
     map_option (\<lambda>incoming.
         map (\<lambda>index. sorted_list_of_set (incoming ! index \<union>
             (case block_at f index of Some blk \<Rightarrow> block_writes blk | None \<Rightarrow> {})))
           [0..<length (blocks f)])
       (settle (release_step f) [0..<length (blocks f)] (first_incoming f))"

definition with_release_sets :: "register_id list list \<Rightarrow> bir_function \<Rightarrow> bir_function" where
  "with_release_sets sets f =
     f\<lparr>blocks := map (\<lambda>(blk, owned). blk\<lparr>owned_at_exit := Some owned\<rparr>) (zip (blocks f) sets)
         @ drop (length sets) (blocks f)\<rparr>"

definition refcount_function :: "bir_function \<Rightarrow> bir_function option" where
  "refcount_function f = map_option (\<lambda>sets. with_release_sets sets f) (release_sets f)"

definition refcount_run :: "module_ir \<Rightarrow> module_ir option" where
  "refcount_run = try_functions refcount_function"

section \<open>What arrives at a block\<close>

definition arrives_with :: "bir_function \<Rightarrow> block_id \<Rightarrow> register_id set" where
  "arrives_with f b =
     {r. (entry, b) \<in> (flow_rel f)\<^sup>* \<and> r < param_count f}
     \<union> {r. \<exists>a. (a, b) \<in> (flow_rel f)\<^sup>+ \<and> r \<in> set (block_dests f a)}"

lemma block_writes_dests: "block_at f b = Some blk \<Longrightarrow> block_writes blk = set (block_dests f b)"
  by (simp add: block_writes_def block_dests_def)

lemma arrives_with_edge:
  assumes "(b, t) \<in> flow_rel f"
  shows "arrives_with f b \<union> set (block_dests f b) \<subseteq> arrives_with f t"
  using assms by (auto simp: arrives_with_def intro: rtrancl_into_rtrancl trancl_into_trancl)

lemma finite_arrives_with: "finite (arrives_with f b)"
proof -
  have "arrives_with f b \<subseteq> {..<param_count f} \<union> (\<Union>a \<in> UNIV. set (block_dests f a))"
    by (auto simp: arrives_with_def)
  then show ?thesis by (rule finite_subset) (simp add: finite_block_dests)
qed

section \<open>The loop ends there\<close>

definition bounded :: "bir_function \<Rightarrow> register_id set list \<Rightarrow> bool" where
  "bounded f l \<longleftrightarrow> length l = length (blocks f) \<and> (\<forall>b < length l. l ! b \<subseteq> arrives_with f b)
     \<and> (l \<noteq> [] \<longrightarrow> set [0..<param_count f] \<subseteq> l ! 0)"

definition room :: "bir_function \<Rightarrow> register_id set list \<Rightarrow> nat" where
  "room f l = (\<Sum>b < length l. card (arrives_with f b - l ! b))"

lemma bounded_subset: "bounded f l \<Longrightarrow> b < length (blocks f) \<Longrightarrow> l ! b \<subseteq> arrives_with f b"
  by (simp add: bounded_def)

lemma push_out_alt:
  assumes "t < length l" "outgoing \<subseteq> arrives_with f t" "bounded f l"
  shows "push_out outgoing t (l, c) = (l[t := l ! t \<union> outgoing], c \<or> \<not> outgoing \<subseteq> l ! t)"
proof -
  have fin: "finite (l ! t \<union> outgoing)"
    using assms finite_subset [OF _ finite_arrives_with [of f t]] by (auto simp: bounded_def)
  have "card (l ! t \<union> outgoing) \<noteq> card (l ! t) \<longleftrightarrow> \<not> outgoing \<subseteq> l ! t"
    using card_subset_eq [OF fin, of "l ! t"] by (auto simp: Un_absorb2)
  with assms(1) show ?thesis by (simp add: push_out_def get_def)
qed

lemma room_grows:
  assumes "bounded f l" "t < length l" "outgoing \<subseteq> arrives_with f t" "\<not> outgoing \<subseteq> l ! t"
  shows "room f (l[t := l ! t \<union> outgoing]) < room f l"
proof -
  let ?g = "\<lambda>l b. card (arrives_with f b - l ! b)" and ?l = "l[t := l ! t \<union> outgoing]"
  have "?g ?l t < ?g l t"
    using assms by (intro psubset_card_mono) (auto simp: finite_arrives_with)
  moreover have "?g ?l b \<le> ?g l b" for b
    using assms(2) by (intro card_mono) (cases "b = t"; auto simp: finite_arrives_with)+
  ultimately have "sum (?g ?l) {..<length l} < sum (?g l) {..<length l}"
    using assms(2) by (intro sum_strict_mono_ex1) (auto intro!: bexI [of _ t])
  then show ?thesis by (simp add: room_def)
qed

lemma bounded_push:
  assumes "bounded f l" "t < length l" "outgoing \<subseteq> arrives_with f t"
  shows "bounded f (l[t := l ! t \<union> outgoing])"
  using assms by (cases t) (auto simp: bounded_def nth_list_update)

lemma push_all:
  assumes "bounded f l" "\<And>t. t \<in> set ts \<Longrightarrow> t < length l \<Longrightarrow> outgoing \<subseteq> arrives_with f t"
    and "fold (push_out outgoing) ts (l, c) = (l', c')"
  shows "bounded f l' \<and> room f l' \<le> room f l \<and> (c \<longrightarrow> c') \<and> (c' \<and> \<not> c \<longrightarrow> room f l' < room f l)
    \<and> (\<not> c' \<longrightarrow> l' = l)
    \<and> (\<forall>t \<in> set ts. t < length l \<longrightarrow> outgoing \<subseteq> l' ! t) \<and> (\<forall>b < length l. l ! b \<subseteq> l' ! b)"
  using assms
proof (induction ts arbitrary: l c)
  case (Cons t ts)
  show ?case
  proof (cases "t < length l")
    case False
    then have "push_out outgoing t (l, c) = (l, c)" by (simp add: push_out_def get_def)
    with Cons.prems False Cons.IH [OF Cons.prems(1), of c] show ?thesis by simp
  next
    case True
    let ?l = "l[t := l ! t \<union> outgoing]" and ?c = "c \<or> \<not> outgoing \<subseteq> l ! t"
    have into: "outgoing \<subseteq> arrives_with f t" using Cons.prems(2) True by simp
    have step: "push_out outgoing t (l, c) = (?l, ?c)" by (rule push_out_alt [OF True into Cons.prems(1)])
    have less: "\<not> outgoing \<subseteq> l ! t \<Longrightarrow> room f ?l < room f l" by (rule room_grows [OF Cons.prems(1) True into])
    have same: "outgoing \<subseteq> l ! t \<Longrightarrow> ?l = l" by (simp add: Un_absorb2)
    have rest: "fold (push_out outgoing) ts (?l, ?c) = (l', c')" using Cons.prems(3) step by simp
    note ih = Cons.IH [OF bounded_push [OF Cons.prems(1) True into] _ rest]
    have ih': "bounded f l'" "room f l' \<le> room f ?l" "?c \<longrightarrow> c'" "c' \<and> \<not> ?c \<longrightarrow> room f l' < room f ?l"
      "\<not> c' \<longrightarrow> l' = ?l" "\<And>u. u \<in> set ts \<Longrightarrow> u < length l \<Longrightarrow> outgoing \<subseteq> l' ! u"
      "\<And>b. b < length l \<Longrightarrow> ?l ! b \<subseteq> l' ! b"
      using ih Cons.prems(2) by auto
    have grown: "l ! b \<subseteq> l' ! b" if "b < length l" for b
      using ih'(7) [OF that] that by (cases "b = t") auto
    have "outgoing \<subseteq> l' ! t" using ih'(7) [OF True] True by auto
    with ih' less same grown show ?thesis by (cases "outgoing \<subseteq> l ! t") auto
  qed
qed auto

interpretation releases: chaotic_iteration "release_step f" "[0..<length (blocks f)]" "bounded f" "room f" for f
proof unfold_locales
  fix l k assume good: "bounded f l" and k: "k \<in> set [0..<length (blocks f)]"
  then obtain blk where blk: "block_at f k = Some blk" by (auto simp: block_at_def get_def)
  obtain l' c' where res: "release_step f k l = (l', c')" by (cases "release_step f k l")
  have "l ! k \<union> block_writes blk \<subseteq> arrives_with f t" if "t \<in> set (successors blk)" for t
  proof -
    have "(k, t) \<in> flow_rel f" using that blk by (simp add: flow_rel_def edges_by_def next_blocks_def)
    from arrives_with_edge [OF this] bounded_subset [OF good, of k] k show ?thesis
      by (auto simp: block_writes_dests [OF blk])
  qed
  from push_all [OF good this] res blk
  have "bounded f l' \<and> (c' \<longrightarrow> room f l' < room f l) \<and> (\<not> c' \<longrightarrow> l' = l)" by (auto simp: release_step_def)
  with res show "bounded f (fst (release_step f k l))"
    "\<not> snd (release_step f k l) \<Longrightarrow> fst (release_step f k l) = l"
    "snd (release_step f k l) \<Longrightarrow> room f (fst (release_step f k l)) < room f l" by auto
qed

text \<open>A state no step changes hands every block's registers on along every edge.\<close>

lemma settled_edge:
  assumes "bounded f l" "fst (release_step f b l) = l" "(b, t) \<in> flow_rel f" "t < length l"
  shows "l ! b \<union> set (block_dests f b) \<subseteq> l ! t"
proof -
  from assms(3) obtain blk where blk: "block_at f b = Some blk" and t: "t \<in> set (successors blk)"
    by (cases "block_at f b") (auto simp: flow_rel_def edges_by_def next_blocks_def)
  let ?out = "l ! b \<union> block_writes blk"
  have b: "b < length (blocks f)" using blk by (auto simp: block_at_def dest: get_SomeD)
  have into: "?out \<subseteq> arrives_with f u" if "u \<in> set (successors blk)" for u
  proof -
    have "(b, u) \<in> flow_rel f" using that blk by (simp add: flow_rel_def edges_by_def next_blocks_def)
    from arrives_with_edge [OF this] bounded_subset [OF assms(1) b] show ?thesis
      by (auto simp: block_writes_dests [OF blk])
  qed
  obtain l' c' where fold: "fold (push_out ?out) (successors blk) (l, False) = (l', c')" by fastforce
  from push_all [OF assms(1) into fold] have "?out \<subseteq> l' ! t" using t assms(4) by simp
  moreover have "l' = l" using fold assms(2) blk by (simp add: release_step_def)
  ultimately show ?thesis by (simp add: block_writes_dests [OF blk])
qed

lemma settled_complete:
  assumes "bounded f l" "\<And>b. b < length l \<Longrightarrow> fst (release_step f b l) = l" "b < length l"
  shows "l ! b = arrives_with f b"
proof
  show "l ! b \<subseteq> arrives_with f b" using assms by (simp add: bounded_def)
  have source: "x < length l" if "(x, y) \<in> flow_rel f" for x y
    using that assms(1) by (simp add: flow_rel_iff bounded_def)
  have edge: "l ! x \<union> set (block_dests f x) \<subseteq> l ! y" if "(x, y) \<in> flow_rel f" "y < length l" for x y
    using settled_edge [OF assms(1) _ that] assms(2) source [OF that(1)] by simp
  have params: "set [0..<param_count f] \<subseteq> l ! x" if "(entry, x) \<in> (flow_rel f)\<^sup>*" "x < length l" for x
    using that
  proof (induction rule: rtrancl_induct)
    case base
    then show ?case using assms(1) by (cases l) (auto simp: bounded_def entry_def)
  next
    case (step y z)
    then show ?case using edge [OF step.hyps(2)] source [OF step.hyps(2)] by auto
  qed
  have dests: "set (block_dests f a) \<subseteq> l ! x" if "(a, x) \<in> (flow_rel f)\<^sup>+" "x < length l" for a x
    using that
  proof (induction rule: trancl_induct)
    case (base y)
    then show ?case using edge by blast
  next
    case (step y z)
    then show ?case using edge [OF step.hyps(2)] source [OF step.hyps(2)] by auto
  qed
  show "arrives_with f b \<subseteq> l ! b"
    using params [OF _ assms(3)] dests [OF _ assms(3)] by (fastforce simp: arrives_with_def)
qed

definition holds_at :: "bir_function \<Rightarrow> block_id \<Rightarrow> register_id set" where
  "holds_at f b = arrives_with f b \<union> set (block_dests f b)"

lemma finite_holds_at: "finite (holds_at f b)"
  by (simp add: holds_at_def finite_arrives_with)

lemma release_sets_are:
  "release_sets f = Some (map (\<lambda>b. sorted_list_of_set (holds_at f b)) [0..<length (blocks f)])"
proof -
  have "bounded f (first_incoming f)"
    by (cases "blocks f") (auto simp: bounded_def first_incoming_def arrives_with_def entry_def nth_Cons' split: if_splits)
  from releases.settles [OF this] obtain l where
    l: "settle (release_step f) [0..<length (blocks f)] (first_incoming f) = Some l" "releases.settled f l"
    by blast
  then have "bounded f l" and fixed: "\<And>b. b < length (blocks f) \<Longrightarrow> fst (release_step f b l) = l"
    by (auto simp: releases.settled_def)
  moreover from this have len: "length l = length (blocks f)" by (simp add: bounded_def)
  ultimately have "l ! b = arrives_with f b" if "b < length (blocks f)" for b
    using settled_complete [of f l b] that by simp
  then have "l ! b \<union> (case block_at f b of Some blk \<Rightarrow> block_writes blk | None \<Rightarrow> {}) = holds_at f b"
    if "b < length (blocks f)" for b
    using that block_writes_dests [of f b]
    by (auto simp: holds_at_def block_dests_def split: option.splits)
  with l(1) show ?thesis by (auto simp: release_sets_def)
qed

lemma holds_at_may_hold:
  assumes "(entry, b) \<in> (flow_rel f)\<^sup>*"
  shows "r \<in> holds_at f b \<longleftrightarrow> may_hold f b r"
  using assms by (auto simp: holds_at_def arrives_with_def may_hold_def rtrancl_eq_or_trancl)

section \<open>The pass keeps the contract\<close>

lemma refcount_function_is:
  "refcount_function f = Some (f\<lparr>blocks :=
     map (\<lambda>b. (blocks f ! b)\<lparr>owned_at_exit := Some (sorted_list_of_set (holds_at f b))\<rparr>) [0..<length (blocks f)]\<rparr>)"
proof -
  have "map (\<lambda>(blk, owned). blk\<lparr>owned_at_exit := Some owned\<rparr>)
      (zip (blocks f) (map (\<lambda>b. sorted_list_of_set (holds_at f b)) [0..<length (blocks f)]))
    = map (\<lambda>b. (blocks f ! b)\<lparr>owned_at_exit := Some (sorted_list_of_set (holds_at f b))\<rparr>) [0..<length (blocks f)]"
    by (rule nth_equalityI) simp_all
  then show ?thesis by (simp add: refcount_function_def release_sets_are with_release_sets_def)
qed

lemma refcount_block:
  assumes "refcount_function f = Some g" "block_at f b = Some blk"
  shows "block_at g b = Some (blk\<lparr>owned_at_exit := Some (sorted_list_of_set (holds_at f b))\<rparr>)"
  using assms by (auto simp: refcount_function_is block_at_def get_def split: if_splits)

lemma refcount_alike: "refcount_function f = Some g \<Longrightarrow> alike f g"
  by (auto simp: refcount_function_is alike_def list_all2_conv_all_nth block_alike_def)

lemma refcount_satisfies:
  assumes "refcount_function f = Some g"
  shows "check_release_sets g = Some []"
  unfolding check_release_sets_Nil
proof (intro allI impI, elim conjE)
  fix b blk owned r
  assume at: "block_at g b = Some blk" "(entry, b) \<in> (flow_rel g)\<^sup>*" "owned_at_exit blk = Some owned"
    "may_hold g b r" "releasable g r"
  note alike = refcount_alike [OF assms]
  obtain old where "block_at f b = Some old" using alike_block [OF alike_sym [OF alike] at(1)] by blast
  from refcount_block [OF assms this] at have "owned = sorted_list_of_set (holds_at f b)" by simp
  with at holds_at_may_hold [of b f r] alike_may_hold [OF alike] show "r \<in> set owned"
    by (simp add: finite_holds_at)
qed

lemma refcount_ops:
  assumes "refcount_function f = Some g" "blk \<in> set (blocks g)" "op \<in> set (block_ops blk)"
  shows "\<exists>old \<in> set (blocks f). op \<in> set (block_ops old)"
  using assms nth_mem by (force simp: refcount_function_is)

interpretation refcount: function_pass refcount_function
proof
  fix f g m bases
  show "refcount_function f \<noteq> None" by (simp add: refcount_function_is)
  assume g: "refcount_function f = Some g"
  show "same_interface f g" by (rule alike_same_interface [OF refcount_alike [OF g]])
  assume ok: "verify_in f m bases = Some []"
  show "verify_in g m bases = Some []"
  proof (rule alike_verified [OF refcount_alike [OF g] ok refcount_satisfies [OF g]])
    fix blk op assume "blk \<in> set (blocks g)" "op \<in> set (block_ops blk)"
    then obtain old where "old \<in> set (blocks f)" "op \<in> set (block_ops old)" using refcount_ops [OF g] by blast
    then show "check_op \<lparr>of_function = f, of_module = m, of_bases = bases\<rparr> op = Some []"
      using verified_op ok by (simp add: verified_def)
  qed
qed

section \<open>Properties\<close>


text \<open>
  The release sets are the least the verifier accepts: in any function that has the same
  blocks, reads and writes and whose release sets the verifier accepts, the set of a block the entry
  reaches has every register with something to release that the pass puts into it.
\<close>

theorem release_sets_least:
  assumes "refcount_function f = Some g" "alike f h" "check_release_sets h = Some []"
    and "(entry, b) \<in> (flow_rel f)\<^sup>*" "block_at g b = Some mine" "block_at h b = Some theirs"
    and "owned_at_exit mine = Some owned" "owned_at_exit theirs = Some other" "r \<in> set owned" "releasable f r"
  shows "r \<in> set other"
proof -
  obtain old where "block_at f b = Some old"
    using alike_block [OF alike_sym [OF assms(2)] assms(6)] by blast
  from refcount_block [OF assms(1) this] assms(5,7) have "owned = sorted_list_of_set (holds_at f b)" by simp
  with assms(9) holds_at_may_hold [OF assms(4)] have "may_hold h b r"
    by (simp add: finite_holds_at alike_may_hold(1) [OF assms(2)])
  moreover have "releasable h r" "(entry, b) \<in> (flow_rel h)\<^sup>*"
    using assms(4,10) alike_parts(7) [OF assms(2)] alike_may_hold(2) [OF assms(2)] by simp_all
  ultimately show ?thesis
    using assms(3,6,8) unfolding check_release_sets_Nil by blast
qed

theorem release_sets_least_witness:
  "refcount_function plain_function = Some plain_function \<and> check_release_sets plain_function = Some []
   \<and> releasable plain_function 2 \<and> (2 :: nat) \<in> set [0, 1, 2]"
proof -
  have g: "refcount_function plain_function = Some plain_function"
  proof -
    have "holds_at plain_function 0 = {0, 1, 2}"
      by (auto simp: holds_at_def arrives_with_def plain_function_def entry_def block_dests_def block_at_def
          flow_rel_def edges_by_def next_blocks_def get_def trancl_unfold_left successors_def)
    then show ?thesis by (simp add: refcount_function_is plain_function_def)
  qed
  have "alike plain_function plain_function"
    by (simp add: alike_def list_all2_same block_alike_def)
  moreover have "check_release_sets plain_function = Some []" "releasable plain_function 2" by code_simp+
  ultimately show ?thesis
    using g release_sets_least [OF g, of plain_function 0 "blocks plain_function ! 0" "blocks plain_function ! 0"
        "[0, 1, 2]" "[0, 1, 2]" 2] plain_function_block(2)
    by (simp add: plain_function_def entry_def)
qed

text \<open>
  On every module the refcount pass returns, and a module that verifies still does, every
  block now carrying its release set.
\<close>

theorem refcount_keeps_verified:
  assumes "verify_module render False m = Some []"
  shows "\<exists>n. refcount_run m = Some n \<and> verify_module render False n = Some []
    \<and> (\<forall>f \<in> set (all_functions n). \<forall>blk \<in> set (blocks f). owned_at_exit blk \<noteq> None)"
proof -
  obtain n where n: "try_functions refcount_function m = Some n" using refcount.pass_returns by blast
  have "owned_at_exit blk \<noteq> None" if "f \<in> set (all_functions n)" "blk \<in> set (blocks f)" for f blk
  proof -
    obtain old where "refcount_function old = Some f"
      using all_functions_origin [OF n \<open>f \<in> _\<close>] by blast
    with \<open>blk \<in> _\<close> show ?thesis by (auto simp: refcount_function_is)
  qed
  with refcount.pass_verified [OF n assms] n show ?thesis by (auto simp: refcount_run_def)
qed

theorem refcount_keeps_verified_witness:
  "\<exists>n. refcount_run \<lparr>mod_functions = [plain_function], mod_classes = []\<rparr> = Some n
    \<and> verify_module (\<lambda>_. []) False n = Some []
    \<and> (\<forall>f \<in> set (all_functions n). \<forall>blk \<in> set (blocks f). owned_at_exit blk \<noteq> None)"
proof (rule refcount_keeps_verified)
  show "verify_module (\<lambda>_. []) False \<lparr>mod_functions = [plain_function], mod_classes = []\<rparr> = Some []"
    by code_simp
qed

end
