(* ===== verification/Opt_StrAppend.thy ===== *)
theory Opt_StrAppend
  imports Opt_Pass Opt_Liveness
begin

text \<open>
  \<^verbatim>\<open>by_opt/src/str_append.rs\<close>: a string concatenation whose left operand dies there takes the
  operand's reference over and grows the string in place. The pass is characterised by the liveness
  of the operand, shown safe wherever liveness is, and shown to empty a register a handler reads
  where it is not.
\<close>

section \<open>The pass\<close>

definition may_hand_over :: "bir_function \<Rightarrow> register_id \<Rightarrow> bool" where
  "may_hand_over f r =
     (if r < param_count f then False
      else (case register_at f r of Some decl \<Rightarrow> \<not> borrowed decl | None \<Rightarrow> False))"

text \<open>The test of one operation, with what its handler reads and what is live after it.\<close>

fun operand_dies :: "bir_function \<Rightarrow> register_id set \<Rightarrow> register_id set \<Rightarrow> nat op \<Rightarrow> bool" where
  "operand_dies f handler live (StrOp (StrConcat d (Register source) rhs consumes cat)) =
     (let read_again = source \<in> live \<and> d \<noteq> source
      in \<not> read_again \<and> source \<notin> handler \<and> rhs \<noteq> Register source \<and> may_hand_over f source)"
| "operand_dies f handler live op = False"

text \<open>Backwards through the operations of a block from a position on: what is consumed, and what is live.\<close>

fun dying_from ::
    "bir_function \<Rightarrow> register_id set \<Rightarrow> register_id set \<Rightarrow> nat \<Rightarrow> nat op list \<Rightarrow> nat list \<times> register_id set" where
  "dying_from f handler out position [] = ([], out)"
| "dying_from f handler out position (op # ops) =
     (case dying_from f handler out (Suc position) ops of
        (found, after) \<Rightarrow>
          let live = after \<union> handler
          in (found @ (if operand_dies f handler live op then [position] else []),
              (live - set (option_list (dest op))) \<union> set (read_registers op)))"

definition dying_operands :: "bir_function \<Rightarrow> register_id set list \<Rightarrow> (block_id \<times> nat) list" where
  "dying_operands f live =
     concat (map (\<lambda>(index, blk).
       map (Pair index) (fst (dying_from f (error_live blk live) (live_out blk live) 0 (block_ops blk))))
       (enumerate 0 (blocks f)))"

fun set_consumes_lhs :: "nat op \<Rightarrow> nat op" where
  "set_consumes_lhs (StrOp (StrConcat d lhs rhs consumes cat)) = StrOp (StrConcat d lhs rhs True cat)"
| "set_consumes_lhs op = op"

definition consume_at :: "block_id \<times> nat \<Rightarrow> basic_block list \<Rightarrow> basic_block list" where
  "consume_at = (\<lambda>(b, position) bs.
     case get bs b of
       None \<Rightarrow> bs
     | Some blk \<Rightarrow>
         (case get (block_ops blk) position of
            None \<Rightarrow> bs
          | Some op \<Rightarrow> bs[b := blk\<lparr>block_ops := (block_ops blk)[position := set_consumes_lhs op]\<rparr>]))"

definition consume_dying_operands :: "bir_function \<Rightarrow> bir_function option" where
  "consume_dying_operands f =
     map_option (\<lambda>live. f\<lparr>blocks := fold consume_at (dying_operands f live) (blocks f)\<rparr>)
       (live_in read_registers f)"

definition str_append_run :: "module_ir \<Rightarrow> module_ir option" where
  "str_append_run = try_functions consume_dying_operands"

section \<open>Which operations it marks\<close>

lemma dying_from_live:
  "snd (dying_from f handler out position ops) = live_before read_registers (\<lambda>r. [r]) handler ops out"
  by (induction ops arbitrary: position)
    (auto simp: case_prod_beta Let_def overwritten_def split: option.splits)

lemma dying_from_found:
  "set (fst (dying_from f handler out position ops)) =
     {position + i | i. i < length ops
        \<and> operand_dies f handler (live_before read_registers (\<lambda>r. [r]) handler (drop (Suc i) ops) out \<union> handler) (ops ! i)}"
proof (induction ops arbitrary: position)
  case (Cons op ops)
  let ?dies = "\<lambda>op rest. operand_dies f handler (live_before read_registers (\<lambda>r. [r]) handler rest out \<union> handler) op"
  have "{position + i | i. i < length (op # ops) \<and> ?dies ((op # ops) ! i) (drop (Suc i) (op # ops))}
      = (if ?dies op ops then {position} else {}) \<union> {Suc position + i | i. i < length ops \<and> ?dies (ops ! i) (drop (Suc i) ops)}"
    (is "?l = ?r")
  proof (intro set_eqI iffI)
    fix p assume "p \<in> ?l"
    then obtain i where "p = position + i" "i < length (op # ops)" "?dies ((op # ops) ! i) (drop (Suc i) (op # ops))" by blast
    then show "p \<in> ?r" by (cases i) auto
  next
    fix p assume "p \<in> ?r"
    then consider "p = position" "?dies op ops" | i where "p = position + Suc i" "i < length ops" "?dies (ops ! i) (drop (Suc i) ops)"
      by (auto split: if_splits)
    then show "p \<in> ?l"
    proof cases
      case 1
      then show ?thesis by (auto intro!: exI [of _ 0])
    next
      case 2
      then show ?thesis by (auto intro!: exI [of _ "Suc i"])
    qed
  qed
  with Cons.IH [of "Suc position"] dying_from_live [of f handler out "Suc position" ops] show ?case
    by (auto simp: Let_def split: prod.splits if_splits)
qed simp

text \<open>
  The test read off the paths: the left operand is a register of the frame's own, not the right
  operand too, no path reads it after this operation unless the operation overwrites it, and no path
  through the handler reads it.
\<close>

definition consumable :: "bir_function \<Rightarrow> block_id \<Rightarrow> nat \<Rightarrow> bool" where
  "consumable f b i \<longleftrightarrow>
     (\<exists>blk d s rhs consumes cat. block_at f b = Some blk \<and> i < length (block_ops blk)
        \<and> block_ops blk ! i = StrOp (StrConcat d (Register s) rhs consumes cat)
        \<and> (live_at read_registers (\<lambda>r. [r]) f b (Suc i) s \<longrightarrow> d = s)
        \<and> (\<forall>h. error_target blk = Some h \<longrightarrow> \<not> live_at read_registers (\<lambda>r. [r]) f h 0 s)
        \<and> rhs \<noteq> Register s \<and> may_hand_over f s)"

lemma operand_dies_iff:
  "operand_dies f handler live op \<longleftrightarrow>
     (\<exists>d s rhs consumes cat. op = StrOp (StrConcat d (Register s) rhs consumes cat)
        \<and> (s \<in> live \<longrightarrow> d = s) \<and> s \<notin> handler \<and> rhs \<noteq> Register s \<and> may_hand_over f s)"
  by (induction f handler live op rule: operand_dies.induct) auto

lemma dying_operands_exact:
  assumes "live_in read_registers f = Some live"
  shows "set (dying_operands f live) = {(b, i). consumable f b i}"
proof -
  have sol: "live_in_by read_registers (\<lambda>r. [r]) f = Some live" using assms by (simp add: live_in_def)
  have here: "i \<in> set (fst (dying_from f (error_live blk live) (live_out blk live) 0 (block_ops blk))) \<longleftrightarrow> consumable f b i"
    if blk: "block_at f b = Some blk" for b blk i
  proof (cases "i < length (block_ops blk)")
    case True
    have "live_before read_registers (\<lambda>r. [r]) (error_live blk live) (drop (Suc i) (block_ops blk)) (live_out blk live)
        = {p. live_at read_registers (\<lambda>r. [r]) f b (Suc i) p}"
      using block_live_exact [OF sol blk, of "Suc i"] True by (simp add: block_live_def live_out_def)
    with True blk show ?thesis
      by (auto simp: dying_from_found operand_dies_iff consumable_def error_live_exact [OF sol])
  qed (auto simp: dying_from_found consumable_def blk)
  have "(b, i) \<in> set (dying_operands f live) \<longleftrightarrow> (\<exists>blk. block_at f b = Some blk
      \<and> i \<in> set (fst (dying_from f (error_live blk live) (live_out blk live) 0 (block_ops blk))))" for b i
    by (force simp: dying_operands_def in_set_enumerate_eq block_at_def get_Some_iff)
  moreover have "consumable f b i \<Longrightarrow> \<exists>blk. block_at f b = Some blk" for b i by (auto simp: consumable_def)
  ultimately have "(b, i) \<in> set (dying_operands f live) \<longleftrightarrow> consumable f b i" for b i using here by metis
  then show ?thesis by auto
qed

lemma get_consume_at:
  "get (consume_at (b, p) bs) a =
     map_option (\<lambda>blk. blk\<lparr>block_ops := if a = b \<and> p < length (block_ops blk)
       then (block_ops blk)[p := set_consumes_lhs (block_ops blk ! p)] else block_ops blk\<rparr>) (get bs a)"
  by (auto simp: consume_at_def get_def split: option.splits)

definition consume_where :: "(nat \<Rightarrow> bool) \<Rightarrow> nat op list \<Rightarrow> nat op list" where
  "consume_where P ops = map (\<lambda>i. if P i then set_consumes_lhs (ops ! i) else ops ! i) [0..<length ops]"

lemma set_consumes_lhs_idem [simp]: "set_consumes_lhs (set_consumes_lhs op) = set_consumes_lhs op"
  by (induction op rule: set_consumes_lhs.induct) simp_all

lemma fold_consume_at:
  "get (fold consume_at ps bs) b =
     map_option (\<lambda>blk. blk\<lparr>block_ops := consume_where (\<lambda>i. (b, i) \<in> set ps) (block_ops blk)\<rparr>) (get bs b)"
proof (induction ps arbitrary: bs)
  case Nil
  have "consume_where (\<lambda>_. False) ops = ops" for ops
    by (simp add: consume_where_def map_nth)
  then show ?case by (simp add: option.map_ident_strong)
next
  case (Cons p ps)
  obtain a i where p: "p = (a, i)" by (cases p)
  have "consume_where (\<lambda>j. (b, j) \<in> set ps)
      (if b = a \<and> i < length ops then ops[i := set_consumes_lhs (ops ! i)] else ops)
    = consume_where (\<lambda>j. (b, j) \<in> set (p # ps)) ops" for ops
    by (rule nth_equalityI) (auto simp: consume_where_def p nth_list_update)
  then show ?case by (simp add: Cons.IH p get_consume_at option.map_comp comp_def)
qed

lemma length_fold_consume_at [simp]: "length (fold consume_at ps bs) = length bs"
proof (induction ps arbitrary: bs)
  case (Cons p ps)
  have "length (consume_at p bs) = length bs" for bs
    by (cases p) (simp add: consume_at_def split: option.splits)
  with Cons show ?case by simp
qed simp

lemma consume_dying_operands_is:
  "\<exists>g. consume_dying_operands f = Some g \<and> g = f\<lparr>blocks := blocks g\<rparr>
     \<and> length (blocks g) = length (blocks f)
     \<and> (\<forall>b. block_at g b =
           map_option (\<lambda>blk. blk\<lparr>block_ops := consume_where (consumable f b) (block_ops blk)\<rparr>) (block_at f b))"
proof -
  obtain live where live: "live_in read_registers f = Some live"
    using live_in_by_exact [of read_registers "\<lambda>r. [r]" f] by (simp add: live_in_def)
  from dying_operands_exact [OF live] have "\<And>b. (\<lambda>i. (b, i) \<in> set (dying_operands f live)) = consumable f b" by auto
  with live show ?thesis by (simp add: consume_dying_operands_def block_at_def fold_consume_at)
qed

section \<open>What it consumes is dead\<close>

lemma consumed_dead:
  assumes "first_writes_spare_handlers read_registers (\<lambda>r. [r]) f" "consumable f b i" "block_at f b = Some blk"
    and "block_ops blk ! i = StrOp (StrConcat d (Register s) rhs consumes cat)"
  shows "(needed_at read_registers (\<lambda>r. [r]) f b (Suc i) s \<longrightarrow> d = s)
    \<and> (\<forall>h. error_target blk = Some h \<longrightarrow> \<not> needed_at read_registers (\<lambda>r. [r]) f h 0 s)"
proof -
  from assms(2-4) have dies: "live_at read_registers (\<lambda>r. [r]) f b (Suc i) s \<Longrightarrow> d = s"
    and handler: "\<And>h. error_target blk = Some h \<Longrightarrow> \<not> live_at read_registers (\<lambda>r. [r]) f h 0 s"
    by (auto simp: consumable_def)
  show ?thesis
    using needed_at_live [OF assms(1), of b "Suc i" s] needed_at_live [OF assms(1), of _ 0 s] dies handler assms(3)
    by fastforce
qed

section \<open>The pass keeps the contract\<close>

lemma set_consumes_lhs_alike: "op_alike op (set_consumes_lhs op)"
  by (induction op rule: set_consumes_lhs.induct) (simp_all add: op_alike_def)

lemma consume_alike:
  assumes "consume_dying_operands f = Some g"
  shows "alike f g"
proof -
  note g = consume_dying_operands_is [of f, unfolded assms]
  have "block_alike (blocks f ! b) (blocks g ! b)" if "b < length (blocks f)" for b
    using g that
    by (auto simp: block_at_def get_def block_alike_def consume_where_def list_all2_conv_all_nth set_consumes_lhs_alike
        dest!: spec [of _ b])
  with g show ?thesis by (simp add: alike_def list_all2_conv_all_nth)
qed

lemma consume_where_mem:
  "op \<in> set (consume_where P ops) \<Longrightarrow> \<exists>i < length ops. op = (if P i then set_consumes_lhs (ops ! i) else ops ! i)"
  by (auto simp: consume_where_def)

lemma consumable_check_op:
  assumes "consumable f b i" "block_at f b = Some blk"
    and "check_op \<lparr>of_function = f, of_module = m, of_bases = bases\<rparr> (block_ops blk ! i) = Some []"
  shows "check_op \<lparr>of_function = f, of_module = m, of_bases = bases\<rparr> (set_consumes_lhs (block_ops blk ! i)) = Some []"
proof -
  from assms(1,2) obtain d s rhs consumes cat where
    op: "block_ops blk ! i = StrOp (StrConcat d (Register s) rhs consumes cat)"
    and s: "rhs \<noteq> Register s" "may_hand_over f s" by (auto simp: consumable_def)
  from s have "\<not> s < param_count f" "map_option borrowed (register_at f s) \<noteq> Some True"
    by (auto simp: may_hand_over_def split: if_splits option.splits)
  with assms(3) s(1) show ?thesis by (auto simp: op check_str_concat_def split: if_splits)
qed

interpretation str_append: function_pass consume_dying_operands
proof
  fix f g m bases
  show "consume_dying_operands f \<noteq> None" using consume_dying_operands_is [of f] by auto
  assume g: "consume_dying_operands f = Some g"
  note result = consume_dying_operands_is [of f, unfolded g]
  show "same_interface f g" by (rule alike_same_interface [OF consume_alike [OF g]])
  assume ok: "verify_in f m bases = Some []"
  have "check_release_sets f = Some []"
    using run_accepts(6) [OF ok [unfolded verify_in_def]] by simp
  then have "check_release_sets g = Some []"
    by (rule alike_release_sets [OF consume_alike [OF g]]) (use result in auto)
  then show "verify_in g m bases = Some []"
  proof (rule alike_verified [OF consume_alike [OF g] ok])
    fix blk op assume "blk \<in> set (blocks g)" and op: "op \<in> set (block_ops blk)"
    then obtain b where "block_at g b = Some blk" using block_of_mem by blast
    then obtain old where old: "block_at f b = Some old" "block_ops blk = consume_where (consumable f b) (block_ops old)"
      using result by auto
    then obtain i where i: "i < length (block_ops old)"
      "op = (if consumable f b i then set_consumes_lhs (block_ops old ! i) else block_ops old ! i)"
      using consume_where_mem op by metis
    have "old \<in> set (blocks f)" using old(1) by (auto simp: block_at_def dest: get_SomeD)
    with i(1) ok have "check_op \<lparr>of_function = f, of_module = m, of_bases = bases\<rparr> (block_ops old ! i) = Some []"
      using verified_op [of f m bases old] nth_mem by (simp add: verified_def)
    with consumable_check_op [OF _ old(1)] i(2)
    show "check_op \<lparr>of_function = f, of_module = m, of_bases = bases\<rparr> op = Some []" by (auto split: if_splits)
  qed
qed

section \<open>A function to look at\<close>

text \<open>\<open>def join(z): s = z; y = s + z; return y\<close>: the concatenation is the last reader of \<open>s\<close>.\<close>

definition joined_function :: bir_function where
  "joined_function = retry_function\<lparr>blocks :=
     [\<lparr>block_ops =
         [ScalarOp (Assign 1 (Register 0)),
          StrOp (StrConcat 2 (Register 1) (Register 0) False (Operator Fresh))],
       terminator = Return (Register 2), owned_at_exit = None, block_range = None, block_position = None,
       error_target = None\<rparr>]\<rparr>"

lemma joined_consumable: "consumable joined_function 0 1"
proof -
  have "live_in read_registers joined_function = Some [{0}]" by code_simp
  from dying_operands_exact [OF this] have "consumable joined_function 0 1 \<longleftrightarrow> (0, 1) \<in> set (dying_operands joined_function [{0}])"
    by simp
  moreover have "(0, 1) \<in> set (dying_operands joined_function [{0}])" by code_simp
  ultimately show ?thesis by simp
qed

section \<open>Properties\<close>

text \<open>
  The pass returns on every function and marks exactly the concatenations whose left operand is
  a register of the frame's own that dies there: the operations at the places the liveness of the
  paths allows, and nothing else in the function, changes.
\<close>

theorem consume_exact:
  "\<exists>g. consume_dying_operands f = Some g
     \<and> g = f\<lparr>blocks := map (\<lambda>b. (blocks f ! b)\<lparr>block_ops := consume_where (consumable f b) (block_ops (blocks f ! b))\<rparr>)
         [0..<length (blocks f)]\<rparr>"
proof -
  obtain g where g: "consume_dying_operands f = Some g" "g = f\<lparr>blocks := blocks g\<rparr>"
    "length (blocks g) = length (blocks f)"
    "\<And>b. block_at g b =
       map_option (\<lambda>blk. blk\<lparr>block_ops := consume_where (consumable f b) (block_ops blk)\<rparr>) (block_at f b)"
    using consume_dying_operands_is [of f] by blast
  have "blocks g = map (\<lambda>b. (blocks f ! b)\<lparr>block_ops := consume_where (consumable f b) (block_ops (blocks f ! b))\<rparr>)
      [0..<length (blocks f)]"
  proof (intro nth_equalityI)
    fix b assume "b < length (blocks g)"
    with g(3) g(4) [of b] show "blocks g ! b = map (\<lambda>b. (blocks f ! b)\<lparr>block_ops :=
        consume_where (consumable f b) (block_ops (blocks f ! b))\<rparr>) [0..<length (blocks f)] ! b"
      by (simp add: block_at_def get_def)
  qed (simp add: g(3))
  with g(1,2) show ?thesis by metis
qed

text \<open>
  Where no block with a handler begins by overwriting what the handler needs, a consumed operand
  is needed by nobody: neither by the code after the concatenation, unless the concatenation puts its
  own result there, nor by the handler it goes to when it fails.
\<close>

theorem consumed_operands_are_dead:
  assumes "first_writes_spare_handlers read_registers (\<lambda>r. [r]) f" "consumable f b i" "block_at f b = Some blk"
    and "block_ops blk ! i = StrOp (StrConcat d (Register s) rhs consumes cat)"
  shows "(needed_at read_registers (\<lambda>r. [r]) f b (Suc i) s \<longrightarrow> d = s)
    \<and> (\<forall>h. error_target blk = Some h \<longrightarrow> \<not> needed_at read_registers (\<lambda>r. [r]) f h 0 s)"
  by (rule consumed_dead [OF assms])

theorem consumed_operands_are_dead_witness:
  "consumable joined_function 0 1 \<and> \<not> needed_at read_registers (\<lambda>r. [r]) joined_function 0 2 1"
proof -
  have "first_writes_spare_handlers read_registers (\<lambda>r. [r]) joined_function"
    by (auto simp: first_writes_spare_handlers_def joined_function_def block_at_def get_def split: if_splits)
  from consumed_operands_are_dead [OF this joined_consumable, of "blocks joined_function ! 0" 2 1 "Register 0" False "Operator Fresh"]
  show ?thesis using joined_consumable by (simp add: joined_function_def block_at_def numeral_2_eq_2)
qed

text \<open>
  The pass returns on every module, and a module that verifies still does.
\<close>

theorem str_append_keeps_verified:
  assumes "verify_module render False m = Some []"
  shows "\<exists>n. str_append_run m = Some n \<and> verify_module render False n = Some []"
  using str_append.pass_returns [of m] str_append.pass_verified [OF _ assms] by (auto simp: str_append_run_def)

theorem str_append_keeps_verified_witness:
  "\<exists>n. str_append_run \<lparr>mod_functions = [retry_function], mod_classes = []\<rparr> = Some n
    \<and> verify_module (\<lambda>_. []) False n = Some []"
proof (rule str_append_keeps_verified)
  show "verify_module (\<lambda>_. []) False \<lparr>mod_functions = [retry_function], mod_classes = []\<rparr> = Some []"
    by code_simp
qed

text \<open>
  Elsewhere it empties a register a handler reads: in the function of the liveness theory, which
  the verifier accepts, the concatenation of block 0 takes register 1 over, and the handler of block
  1 still needs what register 1 held.
\<close>

theorem str_append_empties_a_handlers_register:
  "verify retry_function = Some []
   \<and> map_option (\<lambda>g. block_ops (blocks g ! 0) ! 1) (consume_dying_operands retry_function)
       = Some (StrOp (StrConcat 2 (Register 1) (Register 0) True (Operator Fresh)))
   \<and> needed_at read_registers (\<lambda>r. [r]) retry_function 0 2 1"
proof (intro conjI)
  show "verify retry_function = Some []" by code_simp
  show "map_option (\<lambda>g. block_ops (blocks g ! 0) ! 1) (consume_dying_operands retry_function)
       = Some (StrOp (StrConcat 2 (Register 1) (Register 0) True (Operator Fresh)))" by code_simp
  have "block_at retry_function 0 = Some (blocks retry_function ! 0)"
    "length (block_ops (blocks retry_function ! 0)) = 2" "1 \<in> set (successors (blocks retry_function ! 0))"
    by (simp_all add: retry_function_def block_at_def successors_def)
  from needed_at.leaves [OF this(1,3) retry_needs_s] this(2)
  show "needed_at read_registers (\<lambda>r. [r]) retry_function 0 2 1" by simp
qed

end
