(* ===== verification/BIR_Semantics.thy ===== *)
theory BIR_Semantics
  imports BIR_Preserve
begin

text \<open>
  What a function does, as far as the optimizer relies on it, so that a pass can be shown to change
  nothing. What an operation computes is the emitted C's affair and a parameter here, a \<open>machine\<close>: it
  is handed the operation with its registers and operands taken out, the values of the operands, and
  the world, and either gives a value for the destination or fails. What the intermediate
  representation itself says is written out: which registers are read and written, that an operation
  that fails has not written its destination, where control goes then, and which registers an
  operation that takes references over leaves empty. A run is counted in blocks, so that two
  functions behave alike if they give the same answer for every number of blocks.
\<close>

section \<open>The machine\<close>

datatype ('v, 'w) outcome =
    Done 'v 'v 'w  \<comment> \<open>the result, the loop cursor, the world\<close>
  | Fails 'v 'w  \<comment> \<open>the loop cursor, the world\<close>

record ('v, 'w) machine =
  immediate :: "nat val \<Rightarrow> 'v"
  perform :: "nat op \<Rightarrow> 'v list \<Rightarrow> 'v option \<Rightarrow> 'v option \<Rightarrow> 'w \<Rightarrow> ('v, 'w) outcome"
    \<comment> \<open>the shape, the operands, the loop cursor, what \<open>del\<close> unbinds, the world\<close>
  empty_slot :: 'v
  truth :: "'v \<Rightarrow> bool"
  narrow :: "'v \<Rightarrow> 'v option"
  step_by :: "bin_op \<Rightarrow> 'v \<Rightarrow> 'v \<Rightarrow> 'v option"

text \<open>An operation without its registers and operands.\<close>

definition shape :: "nat op \<Rightarrow> nat op" where
  "shape op = map_loop_cursor (\<lambda>_. 0) (map_operands (\<lambda>_. VNone) (map_dest (\<lambda>_. 0) op))"

definition value_in :: "('v, 'w) machine \<Rightarrow> (register_id \<Rightarrow> 'v) \<Rightarrow> nat val \<Rightarrow> 'v" where
  "value_in M env v = (case register v of Some r \<Rightarrow> env r | None \<Rightarrow> immediate M v)"

definition write_to :: "register_id option \<Rightarrow> 'v \<Rightarrow> (register_id \<Rightarrow> 'v) \<Rightarrow> register_id \<Rightarrow> 'v" where
  "write_to r v env = (case r of Some r \<Rightarrow> env(r := v) | None \<Rightarrow> env)"

definition empty_at :: "'v \<Rightarrow> nat val list \<Rightarrow> (register_id \<Rightarrow> 'v) \<Rightarrow> register_id \<Rightarrow> 'v" where
  "empty_at e vs env = (\<lambda>r. if Register r \<in> set vs then e else env r)"

text \<open>\<open>Inl\<close> is where an exception leaves, \<open>Inr\<close> where the next operation goes on.\<close>

definition attempt :: "('v, 'w) machine \<Rightarrow> nat op \<Rightarrow> (register_id \<Rightarrow> 'v) \<Rightarrow> 'w \<Rightarrow> ('v, 'w) outcome" where
  "attempt M op env w =
     perform M (shape op) (map (value_in M env) (operands op)) (map_option env (loop_cursor op))
       (map_option env (unbinds op)) w"

definition exec_op ::
    "('v, 'w) machine \<Rightarrow> nat op \<Rightarrow> (register_id \<Rightarrow> 'v) \<times> 'w \<Rightarrow>
     ((register_id \<Rightarrow> 'v) \<times> 'w) + ((register_id \<Rightarrow> 'v) \<times> 'w)" where
  "exec_op M op = (\<lambda>(env, w).
     let given = empty_at (empty_slot M) (emptied op) env
     in case attempt M op env w of
          Done v c w' \<Rightarrow> Inr (write_to (dest op) v (write_to (loop_cursor op) c given), w')
        | Fails c w' \<Rightarrow> Inl (write_to (loop_cursor op) c given, w'))"

fun run_ops ::
    "('v, 'w) machine \<Rightarrow> nat op list \<Rightarrow> (register_id \<Rightarrow> 'v) \<times> 'w \<Rightarrow>
     ((register_id \<Rightarrow> 'v) \<times> 'w) + ((register_id \<Rightarrow> 'v) \<times> 'w)" where
  "run_ops M [] s = Inr s"
| "run_ops M (op # ops) s = (case exec_op M op s of Inl s' \<Rightarrow> Inl s' | Inr s' \<Rightarrow> run_ops M ops s')"

datatype 'v exit = Jump block_id "register_id \<Rightarrow> 'v" | Gives 'v | Nowhere

fun leave :: "('v, 'w) machine \<Rightarrow> nat terminator \<Rightarrow> (register_id \<Rightarrow> 'v) \<Rightarrow> 'v exit" where
  "leave M (Goto t) env = Jump t env"
| "leave M (Branch cond a b) env = Jump (if truth M (value_in M env cond) then a else b) env"
| "leave M (Return v) env = Gives (value_in M env v)"
| "leave M (NarrowShort d src fits other) env =
     (case narrow M (value_in M env src) of Some v \<Rightarrow> Jump fits (env(d := v)) | None \<Rightarrow> Jump other env)"
| "leave M (MachineStep d oper lhs rhs fits other) env =
     (case step_by M oper (value_in M env lhs) (value_in M env rhs) of
        Some v \<Rightarrow> Jump fits (env(d := v)) | None \<Rightarrow> Jump other env)"
| "leave M Unreachable env = Nowhere"

datatype ('v, 'w) answer = Returned 'v 'w | Raised 'w | Lost | Running

primrec run_blocks ::
    "('v, 'w) machine \<Rightarrow> bir_function \<Rightarrow> nat \<Rightarrow> block_id \<Rightarrow> (register_id \<Rightarrow> 'v) \<times> 'w \<Rightarrow> ('v, 'w) answer" where
  "run_blocks M f 0 b s = Running"
| "run_blocks M f (Suc n) b s =
     (case block_at f b of
        None \<Rightarrow> Lost
      | Some blk \<Rightarrow>
          (case run_ops M (block_ops blk) s of
             Inl (env, w) \<Rightarrow>
               (case error_target blk of Some h \<Rightarrow> run_blocks M f n h (env, w) | None \<Rightarrow> Raised w)
           | Inr (env, w) \<Rightarrow>
               (case leave M (terminator blk) env of
                  Jump t env' \<Rightarrow> run_blocks M f n t (env', w)
                | Gives v \<Rightarrow> Returned v w
                | Nowhere \<Rightarrow> Lost)))"

text \<open>A call: the parameters arrive written and every other register empty.\<close>

definition start :: "('v, 'w) machine \<Rightarrow> bir_function \<Rightarrow> (register_id \<Rightarrow> 'v) \<Rightarrow> register_id \<Rightarrow> 'v" where
  "start M f args r = (if r < param_count f then args r else empty_slot M)"

definition call :: "('v, 'w) machine \<Rightarrow> bir_function \<Rightarrow> nat \<Rightarrow> (register_id \<Rightarrow> 'v) \<Rightarrow> 'w \<Rightarrow> ('v, 'w) answer" where
  "call M f n args w = run_blocks M f n entry (start M f args, w)"

text \<open>A machine copies where the program assigns.\<close>

definition copies :: "('v, 'w) machine \<Rightarrow> bool" where
  "copies M \<longleftrightarrow> (\<forall>v c u w. \<exists>c'. perform M (shape (ScalarOp (Assign 0 VNone))) [v] c u w = Done v c' w)"

text \<open>A machine to look at: values are texts, and formatting a value always fails.\<close>

fun text_perform :: "nat op \<Rightarrow> ustr list \<Rightarrow> ustr option \<Rightarrow> ustr option \<Rightarrow> nat \<Rightarrow> (ustr, nat) outcome" where
  "text_perform (ScalarOp (Assign _ _)) vs c u w = Done (concat vs) [] w"
| "text_perform (StrOp (StrConcat _ _ _ _ _)) vs c u w = Done (concat vs) [] (w + 1)"
| "text_perform (StrOp (Format _ _ _ _)) vs c u w = Fails [] w"
| "text_perform _ vs c u w = Done [] [] w"

definition text_machine :: "(ustr, nat) machine" where
  "text_machine = \<lparr>immediate = (\<lambda>v. case v of VStr s \<Rightarrow> s | _ \<Rightarrow> []), perform = text_perform,
     empty_slot = lit ''empty'', truth = (\<lambda>v. v \<noteq> []), narrow = Some, step_by = (\<lambda>_ a b. None)\<rparr>"

lemma text_machine_copies: "copies text_machine"
  by (simp add: copies_def text_machine_def shape_def)

section \<open>What a shape forgets\<close>

named_theorems shape_simps

lemma map_operands_map_dest: "map_operands g (map_dest h op) = map_dest h (map_operands g op)"
  by (cases op; rename_tac x; case_tac x; simp split: option.split)

lemma map_loop_cursor_map_dest: "map_loop_cursor g (map_dest h op) = map_dest h (map_loop_cursor g op)"
  by (cases op; rename_tac x; case_tac x; simp split: option.split)

lemma map_loop_cursor_map_operands: "map_loop_cursor g (map_operands h op) = map_operands h (map_loop_cursor g op)"
  by (cases op; rename_tac x; case_tac x; simp split: option.split)

lemma map_dest_map_dest: "map_dest g (map_dest h op) = map_dest (g \<circ> h) op"
  by (cases op; rename_tac x; case_tac x; simp add: option.map_comp o_def)

lemma map_sound_classes_compose: "map_sound_classes g (map_sound_classes h t) = map_sound_classes (g \<circ> h) t"
  by (induction t) auto

lemma map_operands_map_operands: "map_operands g (map_operands h op) = map_operands (g \<circ> h) op"
  by (cases op; rename_tac x; case_tac x;
      simp add: option.map_comp o_def map_sound_classes_compose split: option.split)

lemma map_loop_cursor_map_loop_cursor: "map_loop_cursor g (map_loop_cursor h op) = map_loop_cursor (g \<circ> h) op"
  by (cases op rule: loop_cursor_cases) (auto simp: option.map_comp)

lemma shape_map_dest [shape_simps]: "shape (map_dest h op) = shape op"
  by (simp add: shape_def map_dest_map_dest o_def)

lemma shape_map_operands [shape_simps]: "shape (map_operands h op) = shape op"
  by (simp add: shape_def map_operands_map_dest [symmetric] map_operands_map_operands o_def)

lemma shape_map_loop_cursor [shape_simps]: "shape (map_loop_cursor h op) = shape op"
  by (simp add: shape_def map_loop_cursor_map_dest [symmetric] map_loop_cursor_map_operands [symmetric]
      map_loop_cursor_map_loop_cursor o_def)

lemma unbinds_cases:
  obtains (del) d where "op = PlaceOp (DeleteLocal d)" | (other) "unbinds op = None"
  by (cases op rule: unbinds.cases) auto

lemma unbinds_maps [shape_simps]:
  "unbinds (map_dest h op) = map_option h (unbinds op)" "unbinds (map_operands g op) = unbinds op"
  "unbinds (map_loop_cursor h op) = unbinds op"
  by (cases op; rename_tac x; case_tac x; simp split: option.split)+

lemma emptied_map_dest [shape_simps]: "emptied (map_dest h op) = emptied op"
  by (cases op; rename_tac x; case_tac x; simp)

lemma emptied_map_loop_cursor [shape_simps]: "emptied (map_loop_cursor h op) = emptied op"
  by (cases op rule: loop_cursor_cases) auto

lemma filter_map_get_map: "filter_map (get (map g xs)) is = map g (filter_map (get xs) is)"
  by (induction "is") (auto split: option.splits)

lemma emptied_map_operands [shape_simps]: "emptied (map_operands g op) = map g (emptied op)"
  by (cases op; rename_tac x; case_tac x; simp add: filter_map_get_map split: option.split)

lemma emptied_operands: "v \<in> set (emptied op) \<Longrightarrow> v \<in> set (operands op)"
  by (cases op rule: emptied.cases) (auto simp: set_filter_map dest: get_SomeD)

lemmas shape_access = shape_simps bir_access

section \<open>Environments that agree\<close>

text \<open>The registers an operation looks at.\<close>

definition looks_at :: "nat op \<Rightarrow> register_id set" where
  "looks_at op = {r. Register r \<in> set (operands op)} \<union> set_option (loop_cursor op) \<union> set_option (unbinds op)"

lemma attempt_agree:
  assumes "\<And>r. r \<in> looks_at op \<Longrightarrow> env' r = env r"
  shows "attempt M op env' w = attempt M op env w"
proof -
  have "map (value_in M env') (operands op) = map (value_in M env) (operands op)"
    using assms by (auto simp: looks_at_def value_in_def register_eq_Some_iff split: option.splits)
  moreover have "map_option env' (loop_cursor op) = map_option env (loop_cursor op)"
    "map_option env' (unbinds op) = map_option env (unbinds op)"
    using assms by (cases "loop_cursor op"; cases "unbinds op"; auto simp: looks_at_def)+
  ultimately show ?thesis by (simp only: attempt_def)
qed

lemma value_in_other: "s \<noteq> Register d \<Longrightarrow> value_in M (env(d := v)) s = value_in M env s"
  by (cases "register s") (auto simp: value_in_def register_eq_Some_iff)

lemma exec_op_agree:
  assumes "\<And>r. r \<in> looks_at op \<Longrightarrow> env' r = env r"
  shows "rel_sum (\<lambda>(e, w) (e', w'). w = w' \<and> (\<forall>r. env' r = env r \<longrightarrow> e' r = e r))
      (\<lambda>(e, w) (e', w'). w = w' \<and> (\<forall>r. env' r = env r \<or> dest op = Some r \<longrightarrow> e' r = e r))
    (exec_op M op (env, w)) (exec_op M op (env', w))"
  using attempt_agree [where M = M and w = w, OF assms]
  by (auto simp: exec_op_def Let_def write_to_def empty_at_def split: outcome.splits option.splits)

lemma rel_sum_weaken:
  assumes "rel_sum A B x y" "\<And>a b. A a b \<Longrightarrow> A' a b" "\<And>a b. B a b \<Longrightarrow> B' a b"
  shows "rel_sum A' B' x y"
  using assms by (auto elim!: rel_sum.cases)

text \<open>A run from environments that agree but where the operations do not look.\<close>

lemma run_ops_agree:
  assumes "\<And>op r. op \<in> set ops \<Longrightarrow> r \<in> looks_at op \<Longrightarrow> r \<notin> T" "\<And>r. r \<notin> T \<Longrightarrow> env' r = env r"
  shows "rel_sum (\<lambda>(e, w) (e', w'). w = w' \<and> (\<forall>r. r \<notin> T \<longrightarrow> e' r = e r))
      (\<lambda>(e, w) (e', w'). w = w' \<and> (\<forall>r. r \<notin> T \<longrightarrow> e' r = e r))
    (run_ops M ops (env, w)) (run_ops M ops (env', w))"
  using assms
proof (induction ops arbitrary: env env' w)
  case (Cons op ops)
  have step: "rel_sum (\<lambda>(e, w) (e', w'). w = w' \<and> (\<forall>r. env' r = env r \<longrightarrow> e' r = e r))
      (\<lambda>(e, w) (e', w'). w = w' \<and> (\<forall>r. env' r = env r \<or> dest op = Some r \<longrightarrow> e' r = e r))
    (exec_op M op (env, w)) (exec_op M op (env', w))"
    using Cons.prems by (intro exec_op_agree) auto
  then show ?case
  proof (cases rule: rel_sum.cases)
    case (1 l l')
    then show ?thesis using Cons.prems(2) by (cases l; cases l') auto
  next
    case (2 n n')
    then show ?thesis using Cons.prems Cons.IH [of "fst n'" "fst n" "snd n"] by (cases n; cases n') auto
  qed
qed simp

section \<open>Functions that behave alike\<close>

fun exits_alike :: "(block_id \<Rightarrow> (register_id \<Rightarrow> 'v) \<Rightarrow> (register_id \<Rightarrow> 'v) \<Rightarrow> bool) \<Rightarrow> 'v exit \<Rightarrow> 'v exit \<Rightarrow> bool" where
  "exits_alike R (Jump t e) (Jump t' e') \<longleftrightarrow> t = t' \<and> R t e e'"
| "exits_alike R (Gives v) (Gives v') \<longleftrightarrow> v = v'"
| "exits_alike R Nowhere Nowhere \<longleftrightarrow> True"
| "exits_alike R _ _ \<longleftrightarrow> False"

text \<open>
  One block of each, from environments in the relation: both fail or both go on, in the same world,
  and what they leave behind is in the relation where control goes next.
\<close>

definition block_simulates ::
    "('v, 'w) machine \<Rightarrow> (block_id \<Rightarrow> (register_id \<Rightarrow> 'v) \<Rightarrow> (register_id \<Rightarrow> 'v) \<Rightarrow> bool) \<Rightarrow> block_id \<Rightarrow>
     basic_block \<Rightarrow> basic_block \<Rightarrow> bool" where
  "block_simulates M R b old new \<longleftrightarrow> error_target new = error_target old
     \<and> (\<forall>env env' w. R b env env' \<longrightarrow>
          rel_sum (\<lambda>(e, w) (e', w'). w = w' \<and> (\<forall>h. error_target old = Some h \<longrightarrow> R h e e'))
            (\<lambda>(e, w) (e', w'). w = w' \<and> exits_alike R (leave M (terminator old) e) (leave M (terminator new) e'))
            (run_ops M (block_ops old) (env, w)) (run_ops M (block_ops new) (env', w)))"

lemma same_answers:
  assumes "\<And>b. rel_option (block_simulates M R b) (block_at f b) (block_at g b)" "R b env env'"
  shows "run_blocks M g n b (env', w) = run_blocks M f n b (env, w)"
  using assms(2)
proof (induction n arbitrary: b env env' w)
  case (Suc n)
  from assms(1) [of b] show ?case
  proof (cases rule: option.rel_cases)
    case None
    then show ?thesis by simp
  next
    case (Some old new)
    then have target: "error_target new = error_target old"
      and "rel_sum (\<lambda>(e, w) (e', w'). w = w' \<and> (\<forall>h. error_target old = Some h \<longrightarrow> R h e e'))
            (\<lambda>(e, w) (e', w'). w = w' \<and> exits_alike R (leave M (terminator old) e) (leave M (terminator new) e'))
            (run_ops M (block_ops old) (env, w)) (run_ops M (block_ops new) (env', w))"
      using Suc.prems by (auto simp: block_simulates_def)
    from this(2) show ?thesis
    proof (cases rule: rel_sum.cases)
      case (1 l l')
      then show ?thesis using Suc.IH Some target
        by (cases l; cases l') (auto split: option.splits)
    next
      case (2 s s')
      then obtain e w' e' where s: "s = (e, w')" "s' = (e', w')"
        and rel: "exits_alike R (leave M (terminator old) e) (leave M (terminator new) e')"
        by (cases s; cases s') auto
      with 2 Some Suc.IH show ?thesis
        by (cases "leave M (terminator old) e"; cases "leave M (terminator new) e'") auto
    qed
  qed
qed simp

end
