(* ===== verification/Opt_AppendRuns.thy ===== *)
theory Opt_AppendRuns
  imports Opt_StrAppend BIR_Semantics
begin

text \<open>
  What growing a string in place changes of a run: nothing, where the liveness it rests on is what
  the paths need; and what a handler reads, where it is not. The relation between the two runs is
  agreement on what is needed from where they stand, and on the loop cursors, which liveness does
  not follow.
\<close>

section \<open>Agreement on what is needed\<close>













section \<open>Whole runs\<close>






section \<open>Properties\<close>




text \<open>
  C34. Where a block with a handler does begin that way, the program changes: the function of the
  liveness theory, called with a text on a machine whose formatting fails, returns the text, and
  returns an emptied register once the pass has run.
\<close>

theorem str_append_changes_a_handlers_answer:
  "verify retry_function = Some []
   \<and> call text_machine retry_function 3 (\<lambda>_. lit ''ab'') 0 = Returned (lit ''ab'') 1
   \<and> map_option (\<lambda>g. call text_machine g 3 (\<lambda>_. lit ''ab'') 0) (consume_dying_operands retry_function)
       = Some (Returned (lit ''empty'') 1)"
proof (intro conjI)
  show "verify retry_function = Some []" by code_simp
  show "call text_machine retry_function 3 (\<lambda>_. lit ''ab'') 0 = Returned (lit ''ab'') 1" by code_simp
  show "map_option (\<lambda>g. call text_machine g 3 (\<lambda>_. lit ''ab'') 0) (consume_dying_operands retry_function)
       = Some (Returned (lit ''empty'') 1)" by code_simp
qed

end
