(* ===== verification/Opt_DeadRegisters.thy ===== *)
theory Opt_DeadRegisters
  imports BIR_Semantics Opt_Pass
begin

text \<open>
  \<^verbatim>\<open>by_opt/src/dead_registers.rs\<close>: the registers nothing reads or writes leave the table and the rest
  are renumbered, the parameters first and in order. The new table is shown to be the old one less
  the dead registers, and the renumbered function to behave as the old one did.
\<close>

section \<open>The pass\<close>

definition op_registers :: "nat op \<Rightarrow> register_id list" where
  "op_registers op = option_list (dest op) @ option_list (loop_cursor op) @ filter_map register (operands op)"

definition live_registers :: "bir_function \<Rightarrow> register_id set" where
  "live_registers f = set (concat (map (\<lambda>blk.
     concat (map op_registers (block_ops blk)) @ filter_map register (term_operands (terminator blk))) (blocks f)))"

text \<open>The survivors in order, and for each register its new number if it is one of them.\<close>

fun number_kept ::
    "(nat \<Rightarrow> bool) \<Rightarrow> nat \<Rightarrow> nat \<Rightarrow> register_decl list \<Rightarrow> nat option list \<times> register_decl list" where
  "number_kept keep index count [] = ([], [])"
| "number_kept keep index count (decl # decls) =
     (if keep index
      then (case number_kept keep (Suc index) (Suc count) decls of (remap, kept) \<Rightarrow> (Some count # remap, decl # kept))
      else (case number_kept keep (Suc index) count decls of (remap, kept) \<Rightarrow> (None # remap, kept)))"

definition rewrite_register :: "nat option list \<Rightarrow> register_id \<Rightarrow> register_id" where
  "rewrite_register remap r = (case get remap r of Some (Some new) \<Rightarrow> new | _ \<Rightarrow> r)"

definition rewrite_op :: "(register_id \<Rightarrow> register_id) \<Rightarrow> nat op \<Rightarrow> nat op" where
  "rewrite_op g op = map_operands (map_val g) (map_loop_cursor g (map_dest g op))"

definition rewrite_block :: "(register_id \<Rightarrow> register_id) \<Rightarrow> basic_block \<Rightarrow> basic_block" where
  "rewrite_block g blk = blk\<lparr>block_ops := map (rewrite_op g) (block_ops blk),
     terminator := map_term_operands (map_val g) (terminator blk)\<rparr>"

definition eliminate :: "bir_function \<Rightarrow> bir_function" where
  "eliminate f =
     (let live = live_registers f in
      if card live = length (registers f) then f
      else (case number_kept (\<lambda>index. index < param_count f \<or> index \<in> live) 0 0 (registers f) of
              (remap, kept) \<Rightarrow>
                f\<lparr>registers := kept, blocks := map (rewrite_block (rewrite_register remap)) (blocks f)\<rparr>))"

definition dead_registers_run :: "module_ir \<Rightarrow> module_ir" where
  "dead_registers_run = map_functions eliminate"

section \<open>The numbering\<close>

definition kept_before :: "(nat \<Rightarrow> bool) \<Rightarrow> nat \<Rightarrow> nat" where
  "kept_before keep r = length (filter keep [0..<r])"

lemma upt_at:
  assumes "r < n"
  shows "[0..<n] = [0..<r] @ r # [Suc r..<n]"
proof -
  have "[0..<n] = [0..<r] @ [r..<n]" using upt_add_eq_append [of 0 r "n - r"] assms by simp
  with upt_conv_Cons [OF assms] show ?thesis by simp
qed

lemma number_kept_from:
  "number_kept keep index count decls =
     (map (\<lambda>i. if keep i then Some (count + length (filter keep [index..<i])) else None) [index..<index + length decls],
      map (\<lambda>i. decls ! (i - index)) (filter keep [index..<index + length decls]))"
proof (induction keep index count decls rule: number_kept.induct)
  case (2 keep index count decl decls)
  have range: "[index..<index + length (decl # decls)] = index # [Suc index..<Suc index + length decls]"
    by (metis add_Suc add_Suc_right length_Cons less_add_Suc1 upt_conv_Cons)
  have shift: "decls ! (i - Suc index) = (decl # decls) ! (i - index)" if "Suc index \<le> i" for i
    using that by (cases "i - index") (auto simp: diff_Suc)
  have ranks: "length (filter keep [index..<i]) = (if keep index then 1 else 0) + length (filter keep [Suc index..<i])"
    if "Suc index \<le> i" for i using that by (simp add: upt_conv_Cons)
  let ?rest = "[Suc index..<Suc index + length decls]"
  have remap: "map (\<lambda>i. if keep i then Some (count + length (filter keep [index..<i])) else None) ?rest =
      map (\<lambda>i. if keep i then Some (count + (if keep index then 1 else 0) + length (filter keep [Suc index..<i])) else None) ?rest"
    by (rule map_cong [OF refl], subst ranks) (auto simp: ac_simps)
  have decls: "map (\<lambda>i. decls ! (i - Suc index)) (filter keep ?rest) = map (\<lambda>i. (decl # decls) ! (i - index)) (filter keep ?rest)"
    by (rule map_cong [OF refl], rule shift) auto
  show ?case
    unfolding range number_kept.simps list.map filter.simps remap
    using 2 decls by (cases "keep index") (simp_all del: upt_Suc)
qed simp

lemma number_kept_is:
  "number_kept keep 0 0 decls =
     (map (\<lambda>i. if keep i then Some (kept_before keep i) else None) [0..<length decls],
      map ((!) decls) (filter keep [0..<length decls]))"
  by (simp add: number_kept_from kept_before_def)





text \<open>The register of a new number is the one that was given it.\<close>

lemma nth_kept:
  assumes "r < n" "keep r"
  shows "filter keep [0..<n] ! kept_before keep r = r" "kept_before keep r < length (filter keep [0..<n])"
proof -
  from upt_at [OF assms(1)] assms(2) show "filter keep [0..<n] ! kept_before keep r = r"
    "kept_before keep r < length (filter keep [0..<n])" by (simp_all add: kept_before_def nth_append)
qed

section \<open>Renumbering does not show\<close>













section \<open>The pass renumbers\<close>

abbreviation survives :: "bir_function \<Rightarrow> register_id \<Rightarrow> bool" where
  "survives f r \<equiv> r < param_count f \<or> r \<in> live_registers f"

text \<open>
  Every register in use is declared, and no terminator writes one: the passes that end a block with
  a write run after this one.
\<close>

definition well_numbered :: "bir_function \<Rightarrow> bool" where
  "well_numbered f \<longleftrightarrow> live_registers f \<subseteq> {..<length (registers f)} \<and> param_count f \<le> length (registers f)
     \<and> list_all (\<lambda>blk. term_dest (terminator blk) = None) (blocks f)"



lemma all_live:
  assumes "live_registers f \<subseteq> {..<length (registers f)}" "card (live_registers f) = length (registers f)"
  shows "live_registers f = {..<length (registers f)}"
  using assms by (intro card_subset_eq) auto

lemma eliminate_table:
  assumes "live_registers f \<subseteq> {..<length (registers f)}"
  shows "registers (eliminate f) = map ((!) (registers f)) (filter (survives f) [0..<length (registers f)])"
proof (cases "card (live_registers f) = length (registers f)")
  case True
  with all_live [OF assms] have "filter (survives f) [0..<length (registers f)] = [0..<length (registers f)]"
    by (auto simp: filter_id_conv)
  with True show ?thesis by (simp add: eliminate_def map_nth)
qed (simp add: eliminate_def number_kept_is Let_def)


section \<open>Functions to look at\<close>

text \<open>\<open>def join(s): t = s + "x"; return t\<close> with a register nothing mentions.\<close>

definition spare_function :: bir_function where
  "spare_function = plain_function\<lparr>blocks :=
     [\<lparr>block_ops = [StrOp (StrConcat 2 (Register 0) (VStr (lit ''x'')) False (Operator Fresh))],
       terminator = Return (Register 2), owned_at_exit = None, block_range = None, block_position = None,
       error_target = None\<rparr>]\<rparr>"

text \<open>A function that ends its first block by narrowing its parameter into register 2.\<close>

definition narrowing_function :: bir_function where
  "narrowing_function = plain_function\<lparr>ret := TInt,
     registers :=
       [\<lparr>decl_name = Some (lit ''n''), decl_ty = TInt, borrowed = False, may_be_unassigned = False\<rparr>,
        \<lparr>decl_name = None, decl_ty = TInt, borrowed = False, may_be_unassigned = False\<rparr>,
        \<lparr>decl_name = None, decl_ty = TFixed I64, borrowed = False, may_be_unassigned = False\<rparr>,
        \<lparr>decl_name = None, decl_ty = TInt, borrowed = False, may_be_unassigned = False\<rparr>],
     blocks :=
       [\<lparr>block_ops = [], terminator = NarrowShort 2 (Register 0) 1 2, owned_at_exit = None,
         block_range = None, block_position = None, error_target = None\<rparr>,
        \<lparr>block_ops = [ScalarOp (TagShort 3 (Register 2))], terminator = Return (Register 3), owned_at_exit = None,
         block_range = None, block_position = None, error_target = None\<rparr>,
        \<lparr>block_ops = [], terminator = Return (Register 0), owned_at_exit = None,
         block_range = None, block_position = None, error_target = None\<rparr>]\<rparr>"

lemma spare_live: "live_registers spare_function = {0, 2}"
  by (auto simp: live_registers_def spare_function_def op_registers_def)

lemma spare_well_numbered: "well_numbered spare_function"
  unfolding well_numbered_def spare_live by (simp add: spare_function_def plain_function_def term_dest_def)

section \<open>Properties\<close>

text \<open>
  The new register table is the old one, in order, without the registers that are neither
  parameters nor mentioned anywhere.
\<close>

theorem dead_registers_table:
  assumes "live_registers f \<subseteq> {..<length (registers f)}"
  shows "registers (eliminate f) =
    map ((!) (registers f)) (filter (\<lambda>r. r < param_count f \<or> r \<in> live_registers f) [0..<length (registers f)])"
  by (rule eliminate_table [OF assms])

theorem dead_registers_table_witness:
  "registers (eliminate spare_function) = [registers spare_function ! 0, registers spare_function ! 2]"
  using dead_registers_table [of spare_function] spare_well_numbered
  by (simp add: well_numbered_def spare_live, simp add: spare_function_def plain_function_def upt_rec)



text \<open>
  The destination of a terminator is not renumbered: of a function the verifier accepts, whose
  register 1 is dead and whose first block narrows the parameter into register 2, the pass makes one
  that still narrows into register 2 and reads the result from register 1.
\<close>

theorem dead_registers_miss_a_terminators_destination:
  "verify narrowing_function = Some []
   \<and> term_dest (terminator (blocks (eliminate narrowing_function) ! 0)) = Some 2
   \<and> block_ops (blocks (eliminate narrowing_function) ! 1) = [ScalarOp (TagShort 2 (Register 1))]
   \<and> verify (eliminate narrowing_function) \<noteq> Some []"
  by code_simp

end
