(* ===== verification/Opt_Retarget.thy ===== *)
theory Opt_Retarget
  imports BIR_Semantics Opt_Pass
begin

text \<open>
  The rewrite two passes share (\<^verbatim>\<open>coalesce.rs\<close> and the second half of \<^verbatim>\<open>copy_propagation.rs\<close>): an
  operation whose result goes to a temporary, and a copy of the temporary right after it, become the
  operation with the copy's destination. \<open>merges T\<close> relates a run of operations with what is left of
  it when temporaries of \<open>T\<close> have gone that way, and the two are shown to behave alike wherever
  nothing else looks at a register of \<open>T\<close>.
\<close>

section \<open>Merging a copy into the operation before it\<close>

inductive merges :: "register_id set \<Rightarrow> nat op list \<Rightarrow> nat op list \<Rightarrow> bool" for T where
  nothing: "merges T [] []"
| keep: "merges T ops out \<Longrightarrow> merges T (op # ops) (op # out)"
| merge: "merges T (map_dest (\<lambda>_. d) op # rest) out \<Longrightarrow> dest op = Some t \<Longrightarrow> unbinds op = None \<Longrightarrow>
    t \<in> T \<Longrightarrow> (\<And>o'. o' \<in> set rest \<Longrightarrow> t \<notin> looks_at o') \<Longrightarrow>
    merges T (op # ScalarOp (Assign d (Register t)) # rest) out"

abbreviation agrees_but :: "register_id set \<Rightarrow> (register_id \<Rightarrow> 'v) \<times> 'w \<Rightarrow> (register_id \<Rightarrow> 'v) \<times> 'w \<Rightarrow> bool" where
  "agrees_but T \<equiv> \<lambda>(e, w) (e', w'). w = w' \<and> (\<forall>r. r \<notin> T \<longrightarrow> e' r = e r)"

lemma exec_copy:
  assumes "copies M"
  shows "exec_op M (ScalarOp (Assign d (Register t))) (env, w) = Inr (env(d := env t), w)"
proof -
  have shape: "shape (ScalarOp (Assign d (Register t))) = shape (ScalarOp (Assign 0 VNone))" by (simp add: shape_def)
  from assms obtain c' where "perform M (shape (ScalarOp (Assign 0 VNone))) [env t] None None w = Done (env t) c' w"
    unfolding copies_def by meson
  then have "attempt M (ScalarOp (Assign d (Register t))) env w = Done (env t) c' w"
    unfolding attempt_def shape by (simp add: value_in_def)
  then show ?thesis by (auto simp: exec_op_def write_to_def empty_at_def)
qed

text \<open>Both forms of a merged pair fail together, or leave environments that differ in the temporary only.\<close>

lemma exec_merge:
  assumes "copies M" "dest op = Some t" "unbinds op = None"
  shows "rel_sum (=) (agrees_but {t})
    (case exec_op M op (env, w) of Inl s \<Rightarrow> Inl s | Inr s \<Rightarrow> exec_op M (ScalarOp (Assign d (Register t))) s)
    (exec_op M (map_dest (\<lambda>_. d) op) (env, w))"
proof -
  have "attempt M (map_dest (\<lambda>_. d) op) env w = attempt M op env w"
    using assms(3) by (simp add: attempt_def shape_access)
  then show ?thesis
    using assms(2) by (auto simp: exec_op_def [of M op] exec_op_def [of M "map_dest (\<lambda>_. d) op"] exec_copy [OF assms(1)]
        shape_access write_to_def Let_def split: outcome.splits)
qed

lemma run_ops_Cons:
  "run_ops M (op # ops) s = (case exec_op M op s of Inl s' \<Rightarrow> Inl s' | Inr s' \<Rightarrow> run_ops M ops s')"
  by simp

lemma agrees_trans:
  assumes "rel_sum (agrees_but S) (agrees_but S) x y" "rel_sum (agrees_but T) (agrees_but T) y z" "S \<subseteq> T"
  shows "rel_sum (agrees_but T) (agrees_but T) x z"
  using assms by (auto elim!: rel_sum.cases) blast+

lemma merges_behaves:
  assumes "merges T ops out" "copies M" "\<And>op r. op \<in> set out \<Longrightarrow> r \<in> looks_at op \<Longrightarrow> r \<notin> T"
    and "\<And>r. r \<notin> T \<Longrightarrow> env' r = env r"
  shows "rel_sum (agrees_but T) (agrees_but T) (run_ops M ops (env, w)) (run_ops M out (env', w))"
  using assms(1,3,4)
proof (induction arbitrary: env env' w)
  case nothing
  then show ?case by simp
next
  case (keep ops out op)
  have "rel_sum (\<lambda>(e, w) (e', w'). w = w' \<and> (\<forall>r. env' r = env r \<longrightarrow> e' r = e r))
      (\<lambda>(e, w) (e', w'). w = w' \<and> (\<forall>r. env' r = env r \<or> dest op = Some r \<longrightarrow> e' r = e r))
    (exec_op M op (env, w)) (exec_op M op (env', w))"
    using keep.prems by (intro exec_op_agree) auto
  then show ?case
  proof (cases rule: rel_sum.cases)
    case (1 l l')
    then show ?thesis using keep.prems(2) by (cases l; cases l') auto
  next
    case (2 n n')
    then show ?thesis using keep.prems keep.IH [of "fst n'" "fst n" "snd n"] by (cases n; cases n') auto
  qed
next
  case (merge d op rest out t)
  let ?both = "case exec_op M op (env, w) of Inl s \<Rightarrow> Inl s | Inr s \<Rightarrow> exec_op M (ScalarOp (Assign d (Register t))) s"
  have pair: "run_ops M (op # ScalarOp (Assign d (Register t)) # rest) (env, w) =
      (case ?both of Inl s \<Rightarrow> Inl s | Inr s \<Rightarrow> run_ops M rest s)"
    by (simp split: sum.splits)
  have "rel_sum (agrees_but {t}) (agrees_but {t}) (case ?both of Inl s \<Rightarrow> Inl s | Inr s \<Rightarrow> run_ops M rest s)
      (run_ops M (map_dest (\<lambda>_. d) op # rest) (env, w))"
    using exec_merge [where env = env and w = w and d = d, OF assms(2) merge.hyps(2,3)]
  proof (cases rule: rel_sum.cases)
    case (2 n n')
    have "rel_sum (agrees_but {t}) (agrees_but {t}) (run_ops M rest (fst n, snd n)) (run_ops M rest (fst n', snd n))"
      by (rule run_ops_agree) (use merge.hyps(5) 2 in \<open>auto split: prod.splits\<close>)
    with 2 show ?thesis by (cases n; cases n') simp
  qed auto
  moreover have "rel_sum (agrees_but T) (agrees_but T) (run_ops M (map_dest (\<lambda>_. d) op # rest) (env, w)) (run_ops M out (env', w))"
    by (rule merge.IH [OF merge.prems])
  ultimately show ?case unfolding pair by (rule agrees_trans) (simp add: merge.hyps(4))
qed

section \<open>Blocks and functions\<close>

lemma leave_agrees:
  assumes "\<And>r. Register r \<in> set (term_operands t) \<Longrightarrow> r \<notin> T" "\<And>r. r \<notin> T \<Longrightarrow> env' r = env r"
  shows "exits_alike (\<lambda>_ e e'. \<forall>r. r \<notin> T \<longrightarrow> e' r = e r) (leave M t env) (leave M t env')"
proof -
  have "value_in M env' v = value_in M env v" if "v \<in> set (term_operands t)" for v
    using that assms by (cases "register v") (auto simp: value_in_def register_eq_Some_iff)
  then show ?thesis using assms(2) by (cases t) (auto split: option.splits)
qed

lemma merged_block_simulates:
  fixes M :: "('v, 'w) machine"
  assumes "copies M" "merges T (block_ops old) ops"
    and "\<And>op r. op \<in> set ops \<Longrightarrow> r \<in> looks_at op \<Longrightarrow> r \<notin> T"
    and "\<And>r. Register r \<in> set (term_operands (terminator old)) \<Longrightarrow> r \<notin> T"
  shows "block_simulates M (\<lambda>_ e e'. \<forall>r. r \<notin> T \<longrightarrow> e' r = e r) b old (old\<lparr>block_ops := ops\<rparr>)"
  unfolding block_simulates_def
proof (intro conjI allI impI)
  fix env env' :: "register_id \<Rightarrow> 'v" and w :: 'w
  assume "\<forall>r. r \<notin> T \<longrightarrow> env' r = env r"
  then have "rel_sum (agrees_but T) (agrees_but T) (run_ops M (block_ops old) (env, w)) (run_ops M ops (env', w))"
    by (intro merges_behaves [OF assms(2,1,3)]) auto
  then show "rel_sum (\<lambda>(e, w) (e', w'). w = w' \<and> (\<forall>h. error_target old = Some h \<longrightarrow> (\<forall>r. r \<notin> T \<longrightarrow> e' r = e r)))
      (\<lambda>(e, w) (e', w'). w = w' \<and> exits_alike (\<lambda>_ e e'. \<forall>r. r \<notin> T \<longrightarrow> e' r = e r) (leave M (terminator old) e)
        (leave M (terminator (old\<lparr>block_ops := ops\<rparr>)) e'))
      (run_ops M (block_ops old) (env, w)) (run_ops M (block_ops (old\<lparr>block_ops := ops\<rparr>)) (env', w))"
    using leave_agrees [OF assms(4)] by (auto intro!: rel_sum_weaken [OF \<open>rel_sum _ _ _ _\<close>])
qed simp

section \<open>Counting the reads\<close>

definition reads_of :: "nat op list \<Rightarrow> register_id \<Rightarrow> nat" where
  "reads_of ops r = count_list (concat (map operands ops)) (Register r)"

lemma reads_of_simps [simp]:
  "reads_of [] r = 0" "reads_of (op # ops) r = count_list (operands op) (Register r) + reads_of ops r"
  "reads_of (xs @ ys) r = reads_of xs r + reads_of ys r"
  by (simp_all add: reads_of_def)

lemma reads_of_0_iff: "reads_of ops r = 0 \<longleftrightarrow> (\<forall>op \<in> set ops. Register r \<notin> set (operands op))"
  by (induction ops) (auto simp: count_list_0_iff)

definition all_operands :: "bir_function \<Rightarrow> nat val list" where
  "all_operands f = concat (map (\<lambda>blk. concat (map operands (block_ops blk)) @ term_operands (terminator blk)) (blocks f))"

definition all_ops :: "bir_function \<Rightarrow> nat op list" where
  "all_ops f = concat (map block_ops (blocks f))"

text \<open>What one block has all of, no other block has any of.\<close>

lemma concentrated:
  fixes q :: "'a \<Rightarrow> nat"
  assumes "sum_list (map q xs) \<le> q (xs ! b)" "b < length xs"
  shows "q (xs ! b) = sum_list (map q xs)" "\<And>c. c < length xs \<Longrightarrow> c \<noteq> b \<Longrightarrow> q (xs ! c) = 0"
proof -
  have "sum_list (map q xs) = (\<Sum>c < length xs. q (xs ! c))" by (simp add: sum_list_sum_nth atLeast0LessThan)
  also have "\<dots> = q (xs ! b) + (\<Sum>c \<in> {..<length xs} - {b}. q (xs ! c))"
    by (rule sum.remove) (use assms(2) in auto)
  finally have split: "sum_list (map q xs) = q (xs ! b) + (\<Sum>c \<in> {..<length xs} - {b}. q (xs ! c))" .
  with assms(1) show "q (xs ! b) = sum_list (map q xs)" by linarith
  from split assms(1) have "(\<Sum>c \<in> {..<length xs} - {b}. q (xs ! c)) = 0" by linarith
  then have "\<forall>c \<in> {..<length xs} - {b}. q (xs ! c) = 0" by (subst (asm) sum_eq_0_iff) auto
  then show "\<And>c. c < length xs \<Longrightarrow> c \<noteq> b \<Longrightarrow> q (xs ! c) = 0" by blast
qed

abbreviation block_reads :: "register_id \<Rightarrow> basic_block \<Rightarrow> nat" where
  "block_reads r blk \<equiv> reads_of (block_ops blk) r + count_list (term_operands (terminator blk)) (Register r)"

lemma count_list_concat_map: "count_list (concat (map h xs)) v = sum_list (map (\<lambda>x. count_list (h x) v) xs)"
  by (induction xs) auto

lemma all_operands_reads: "count_list (all_operands f) (Register r) = sum_list (map (block_reads r) (blocks f))"
  by (simp add: all_operands_def reads_of_def count_list_concat_map)

text \<open>A register read once is read in one block, and there once.\<close>

lemma read_once:
  assumes "count_list (all_operands f) (Register r) = 1" "b < length (blocks f)" "0 < reads_of (block_ops (blocks f ! b)) r"
  shows "reads_of (block_ops (blocks f ! b)) r = 1"
    "\<And>blk. blk \<in> set (blocks f) \<Longrightarrow> Register r \<notin> set (term_operands (terminator blk))"
    "\<And>c. c < length (blocks f) \<Longrightarrow> c \<noteq> b \<Longrightarrow> reads_of (block_ops (blocks f ! c)) r = 0"
proof -
  have "sum_list (map (block_reads r) (blocks f)) \<le> block_reads r (blocks f ! b)"
    using assms(1,3) by (simp add: all_operands_reads)
  from concentrated [OF this assms(2)] assms(1) have here: "block_reads r (blocks f ! b) = 1"
    and others: "\<And>c. c < length (blocks f) \<Longrightarrow> c \<noteq> b \<Longrightarrow> block_reads r (blocks f ! c) = 0"
    by (simp_all add: all_operands_reads)
  from here assms(3) show "reads_of (block_ops (blocks f ! b)) r = 1" by linarith
  from others show "\<And>c. c < length (blocks f) \<Longrightarrow> c \<noteq> b \<Longrightarrow> reads_of (block_ops (blocks f ! c)) r = 0" by simp
  show "Register r \<notin> set (term_operands (terminator blk))" if "blk \<in> set (blocks f)" for blk
  proof -
    obtain c where c: "c < length (blocks f)" "blk = blocks f ! c" using \<open>blk \<in> _\<close> by (metis in_set_conv_nth)
    have "count_list (term_operands (terminator blk)) (Register r) = 0"
      using others [of c] here assms(3) c by (cases "c = b") auto
    then show ?thesis by (simp add: count_list_0_iff)
  qed
qed

text \<open>Where a rewrite accounts for every read, a register read once, by what it took away, is read nowhere after.\<close>

lemma accounted_reads_gone:
  assumes accounts: "\<And>ops r. reads_of (rewrite ops) r + count_list (temps ops) r = reads_of ops r"
    and home: "home \<in> set (blocks f)" "t \<in> set (temps (block_ops home))"
    and single: "count_list (all_operands f) (Register t) = 1" and "blk \<in> set (blocks f)"
  shows "reads_of (block_ops blk) t \<le> 1" "reads_of (rewrite (block_ops blk)) t = 0"
    "Register t \<notin> set (term_operands (terminator blk))"
proof -
  let ?out = "\<lambda>blk. rewrite (block_ops blk)"
  obtain b where b: "b < length (blocks f)" "home = blocks f ! b" using home(1) by (metis in_set_conv_nth)
  obtain c where c: "c < length (blocks f)" "blk = blocks f ! c" using \<open>blk \<in> _\<close> by (metis in_set_conv_nth)
  have "0 < count_list (temps (block_ops home)) t"
    using home(2) by (metis count_list_0_iff gr0I)
  with accounts [of "block_ops home" t] have read: "0 < reads_of (block_ops home) t"
    and left: "reads_of (block_ops home) t = 1 \<Longrightarrow> reads_of (?out home) t = 0" by linarith+
  note only = read_once [OF single b(1) read [unfolded b(2)]]
  show "reads_of (block_ops blk) t \<le> 1" "reads_of (?out blk) t = 0"
    "Register t \<notin> set (term_operands (terminator blk))"
    using only left accounts [of "block_ops blk" t] b c by (cases "c = b"; auto)+
qed

section \<open>A pass that merges\<close>

text \<open>
  What the counting does not see: a loop cursor is read and written in place, and a \<open>del\<close> reads what
  it unbinds. No such register is a nameless one that is copied somewhere.
\<close>

definition uncopied_cursors :: "bir_function \<Rightarrow> bool" where
  "uncopied_cursors f \<longleftrightarrow>
     list_all (\<lambda>op. list_all (\<lambda>r.
         map_option decl_name (register_at f r) \<noteq> Some None
         \<or> list_all (\<lambda>o'. case o' of ScalarOp (Assign _ v) \<Rightarrow> v \<noteq> Register r | _ \<Rightarrow> True) (all_ops f))
       (option_list (loop_cursor op) @ option_list (unbinds op))) (all_ops f)"

lemma uncopied_cursorsD:
  assumes "uncopied_cursors f" "op \<in> set (all_ops f)" "loop_cursor op = Some r \<or> unbinds op = Some r"
    and "ScalarOp (Assign d (Register r)) \<in> set (all_ops f)"
  shows "map_option decl_name (register_at f r) \<noteq> Some None"
  using assms unfolding uncopied_cursors_def list_all_iff by fastforce

text \<open>
  What such a pass promises: it accounts for every read, it lets go only of nameless registers that
  are read once, by the copy that goes, and what is left is related to what was there.
\<close>

locale merging =
  fixes rewrite :: "bir_function \<Rightarrow> nat op list \<Rightarrow> nat op list"
    and temps :: "bir_function \<Rightarrow> nat op list \<Rightarrow> register_id list"
  assumes accounts: "reads_of (rewrite f ops) r + count_list (temps f ops) r = reads_of ops r"
    and once: "t \<in> set (temps f ops) \<Longrightarrow> count_list (all_operands f) (Register t) = 1"
    and nameless: "t \<in> set (temps f ops) \<Longrightarrow>
      map_option decl_name (register_at f t) = Some None \<and> (\<exists>d. ScalarOp (Assign d (Register t)) \<in> set ops)"
    and origin: "op \<in> set (rewrite f ops) \<Longrightarrow>
      \<exists>old \<in> set ops. loop_cursor op = loop_cursor old \<and> unbinds op = unbinds old"
    and related: "(\<And>t. t \<in> set (temps f ops) \<Longrightarrow> t \<in> T \<and> reads_of ops t \<le> 1) \<Longrightarrow>
      (\<And>op t. op \<in> set ops \<Longrightarrow> t \<in> T \<Longrightarrow> loop_cursor op \<noteq> Some t \<and> unbinds op \<noteq> Some t) \<Longrightarrow>
      merges T ops (rewrite f ops)"
begin

definition merged_registers :: "bir_function \<Rightarrow> register_id set" where
  "merged_registers f = (\<Union>blk \<in> set (blocks f). set (temps f (block_ops blk)))"

text \<open>Their one read is the copy that went, so nothing is left that reads them.\<close>

lemma merged_registers_gone:
  assumes "t \<in> merged_registers f" "blk \<in> set (blocks f)"
  shows "reads_of (block_ops blk) t \<le> 1" "reads_of (rewrite f (block_ops blk)) t = 0"
    "Register t \<notin> set (term_operands (terminator blk))"
proof -
  obtain home where "home \<in> set (blocks f)" "t \<in> set (temps f (block_ops home))"
    using assms(1) by (auto simp: merged_registers_def)
  from accounted_reads_gone [OF accounts this once [OF this(2)] assms(2)]
  show "reads_of (block_ops blk) t \<le> 1" "reads_of (rewrite f (block_ops blk)) t = 0"
    "Register t \<notin> set (term_operands (terminator blk))" .
qed

lemma merged_registers_uncopied:
  assumes "uncopied_cursors f" "op \<in> set (all_ops f)" "t \<in> merged_registers f"
  shows "loop_cursor op \<noteq> Some t" "unbinds op \<noteq> Some t"
proof -
  obtain blk where "blk \<in> set (blocks f)" "t \<in> set (temps f (block_ops blk))"
    using assms(3) by (auto simp: merged_registers_def)
  with nameless obtain d where "ScalarOp (Assign d (Register t)) \<in> set (all_ops f)"
    "map_option decl_name (register_at f t) = Some None" by (fastforce simp: all_ops_def)
  with uncopied_cursorsD [OF assms(1,2)] show "loop_cursor op \<noteq> Some t" "unbinds op \<noteq> Some t" by blast+
qed

lemma merged_blocks_simulate:
  assumes "copies M" "uncopied_cursors f" "blk \<in> set (blocks f)"
  shows "block_simulates M (\<lambda>_ e e'. \<forall>r. r \<notin> merged_registers f \<longrightarrow> e' r = e r) b blk
    (blk\<lparr>block_ops := rewrite f (block_ops blk)\<rparr>)"
proof (rule merged_block_simulates [OF assms(1)])
  let ?out = "rewrite f (block_ops blk)" and ?T = "merged_registers f"
  note gone = merged_registers_gone [OF _ assms(3)]
  have here: "op \<in> set (all_ops f)" if "op \<in> set (block_ops blk)" for op
    using that assms(3) by (auto simp: all_ops_def)
  show "merges ?T (block_ops blk) ?out"
  proof (rule related)
    fix t assume "t \<in> set (temps f (block_ops blk))"
    then have "t \<in> ?T" using assms(3) by (auto simp: merged_registers_def)
    with gone(1) show "t \<in> ?T \<and> reads_of (block_ops blk) t \<le> 1" by simp
  qed (use merged_registers_uncopied [OF assms(2)] here in blast)
  show "r \<notin> ?T" if "op \<in> set ?out" "r \<in> looks_at op" for op r
  proof
    assume r: "r \<in> ?T"
    obtain old where "old \<in> set (block_ops blk)" "loop_cursor op = loop_cursor old" "unbinds op = unbinds old"
      using origin \<open>op \<in> _\<close> by blast
    with merged_registers_uncopied [OF assms(2) here r] gone(2) [OF r] \<open>op \<in> _\<close> \<open>r \<in> looks_at op\<close> show False
      by (auto simp: looks_at_def reads_of_0_iff)
  qed
  show "r \<notin> ?T" if "Register r \<in> set (term_operands (terminator blk))" for r
    using gone(3) that by blast
qed

lemma behaves:
  assumes "copies M" "uncopied_cursors f"
  shows "call M (f\<lparr>blocks := map (\<lambda>blk. blk\<lparr>block_ops := rewrite f (block_ops blk)\<rparr>) (blocks f)\<rparr>) n args w = call M f n args w"
    (is "call M ?g n args w = _")
proof -
  let ?R = "\<lambda>_ e e'. \<forall>r. r \<notin> merged_registers f \<longrightarrow> e' r = e r"
  have "rel_option (block_simulates M ?R b) (block_at f b) (block_at ?g b)" for b
    using merged_blocks_simulate [OF assms]
    by (cases "block_at f b") (auto simp: block_at_def dest: get_SomeD)
  moreover have "?R entry (start M f args) (start M ?g args)" by (simp add: start_def)
  ultimately show ?thesis unfolding call_def by (rule same_answers)
qed

end

end
