(* ===== verification/Opt_Coalesce.thy ===== *)
theory Opt_Coalesce
  imports Opt_Retarget
begin

text \<open>
  \<^verbatim>\<open>by_opt/src/coalesce.rs\<close>: a result that is copied out of a temporary right away is written to the
  copy's destination. The counting of uses is shown to count, and the pass to change nothing a
  caller can see.
\<close>

section \<open>The pass\<close>

definition count_use :: "nat val \<Rightarrow> nat list \<Rightarrow> nat list" where
  "count_use v counts =
     (case register v of
        Some r \<Rightarrow> (case get counts r of Some n \<Rightarrow> counts[r := n + 1] | None \<Rightarrow> counts)
      | None \<Rightarrow> counts)"

definition use_counts :: "bir_function \<Rightarrow> nat list" where
  "use_counts f = fold count_use (all_operands f) (replicate (length (registers f)) 0)"

definition pairing :: "bir_function \<Rightarrow> nat list \<Rightarrow> nat op \<Rightarrow> nat op \<Rightarrow> register_id option" where
  "pairing f uses op next =
     (if unbinds op \<noteq> None then None
      else (case dest op of
              None \<Rightarrow> None
            | Some temp \<Rightarrow>
                (case next of
                   ScalarOp (Assign d (Register src)) \<Rightarrow>
                     if src \<noteq> temp \<or> d = temp then None
                     else if get uses temp \<noteq> Some 1 \<or> temp < param_count f then None
                     else (case (register_at f temp, register_at f d) of
                             (Some from, Some into) \<Rightarrow>
                               if decl_name from \<noteq> None then None
                               else if decl_ty from \<noteq> decl_ty into then None else Some d
                           | _ \<Rightarrow> None)
                 | _ \<Rightarrow> None)))"

text \<open>The loop over the operations of a block: a merged operation is looked at again.\<close>

function coalesce_ops :: "bir_function \<Rightarrow> nat list \<Rightarrow> nat op list \<Rightarrow> nat op list" where
  "coalesce_ops f uses (op # next # rest) =
     (case pairing f uses op next of
        None \<Rightarrow> op # coalesce_ops f uses (next # rest)
      | Some target \<Rightarrow> coalesce_ops f uses (map_dest (\<lambda>_. target) op # rest))"
| "coalesce_ops f uses [op] = [op]"
| "coalesce_ops f uses [] = []"
  by pat_completeness auto
termination by (relation "measure (\<lambda>(f, uses, ops). length ops)") auto

definition coalesce :: "bir_function \<Rightarrow> bir_function" where
  "coalesce f =
     f\<lparr>blocks := map (\<lambda>blk. blk\<lparr>block_ops := coalesce_ops f (use_counts f) (block_ops blk)\<rparr>) (blocks f)\<rparr>"

definition coalesce_run :: "module_ir \<Rightarrow> module_ir" where
  "coalesce_run = map_functions coalesce"

section \<open>What it counts\<close>

lemma fold_count_use:
  "fold count_use vs counts = map (\<lambda>r. counts ! r + count_list vs (Register r)) [0..<length counts]"
proof (induction vs arbitrary: counts)
  case Nil
  then show ?case by (simp add: map_nth)
next
  case (Cons v vs)
  have "length (count_use v counts) = length counts"
    by (simp add: count_use_def split: option.splits)
  moreover have "count_use v counts ! r = counts ! r + (if v = Register r then 1 else 0)" if "r < length counts" for r
    using that by (cases v) (auto simp: count_use_def get_def)
  ultimately show ?case using Cons.IH [of "count_use v counts"] by (auto intro!: nth_equalityI)
qed

lemma get_use_counts:
  "get (use_counts f) r = (if r < length (registers f) then Some (count_list (all_operands f) (Register r)) else None)"
  by (simp add: use_counts_def fold_count_use get_def)

section \<open>What it merges\<close>

text \<open>The temporaries that go, in the order the loop meets them.\<close>

function merged_temps :: "bir_function \<Rightarrow> nat list \<Rightarrow> nat op list \<Rightarrow> register_id list" where
  "merged_temps f uses (op # next # rest) =
     (case pairing f uses op next of
        None \<Rightarrow> merged_temps f uses (next # rest)
      | Some target \<Rightarrow> the (dest op) # merged_temps f uses (map_dest (\<lambda>_. target) op # rest))"
| "merged_temps f uses [op] = []"
| "merged_temps f uses [] = []"
  by pat_completeness auto
termination by (relation "measure (\<lambda>(f, uses, ops). length ops)") auto

lemma pairing_Some:
  assumes "pairing f uses op next = Some d"
  shows "\<exists>t. dest op = Some t \<and> next = ScalarOp (Assign d (Register t)) \<and> unbinds op = None \<and> t \<noteq> d
    \<and> get uses t = Some 1 \<and> param_count f \<le> t \<and> (\<exists>decl. register_at f t = Some decl \<and> decl_name decl = None)"
proof (cases op rule: unbinds_cases)
  case other
  then show ?thesis using assms
    by (auto simp: pairing_def split: option.splits op.splits scalar_op.splits val.splits if_splits)
qed (use assms in \<open>simp add: pairing_def\<close>)

lemma coalesce_counts:
  "reads_of (coalesce_ops f uses ops) r + count_list (merged_temps f uses ops) r = reads_of ops r"
proof (induction f uses ops rule: coalesce_ops.induct)
  case (1 f uses op nxt rest)
  show ?case
  proof (cases "pairing f uses op nxt")
    case None
    then show ?thesis using 1(1) by simp
  next
    case (Some d)
    with pairing_Some [OF Some] 1(2) [OF Some] show ?thesis by (auto simp: shape_access)
  qed
qed simp_all

lemma merged_temps_are:
  "t \<in> set (merged_temps f uses ops) \<Longrightarrow> get uses t = Some 1 \<and> param_count f \<le> t
     \<and> (\<exists>decl. register_at f t = Some decl \<and> decl_name decl = None)
     \<and> (\<exists>d. ScalarOp (Assign d (Register t)) \<in> set ops)"
proof (induction f uses ops rule: coalesce_ops.induct)
  case (1 f uses op nxt rest)
  show ?case
  proof (cases "pairing f uses op nxt")
    case None
    then show ?thesis using 1(1,3) by auto
  next
    case (Some d)
    then obtain u where u: "dest op = Some u" "nxt = ScalarOp (Assign d (Register u))" "get uses u = Some 1" "param_count f \<le> u"
      "\<exists>decl. register_at f u = Some decl \<and> decl_name decl = None" using pairing_Some by blast
    show ?thesis
    proof (cases "t = u")
      case False
      with 1(2) [OF Some] 1(3) Some u obtain e where
        t: "get uses t = Some 1 \<and> param_count f \<le> t \<and> (\<exists>decl. register_at f t = Some decl \<and> decl_name decl = None)"
        "ScalarOp (Assign e (Register t)) \<in> set (map_dest (\<lambda>_. d) op # rest)" by auto
      have "\<exists>e. op = ScalarOp (Assign e (Register t))" if "ScalarOp (Assign e (Register t)) = map_dest (\<lambda>_. d) op"
        using that by (cases op; rename_tac x; case_tac x; simp)
      with t show ?thesis by auto
    qed (use u in auto)
  qed
qed simp_all

lemma coalesce_merges:
  assumes "\<And>t. t \<in> set (merged_temps f uses ops) \<Longrightarrow> t \<in> T \<and> reads_of ops t \<le> 1"
    and "\<And>op t. op \<in> set ops \<Longrightarrow> t \<in> T \<Longrightarrow> loop_cursor op \<noteq> Some t \<and> unbinds op \<noteq> Some t"
  shows "merges T ops (coalesce_ops f uses ops)"
  using assms
proof (induction f uses ops rule: coalesce_ops.induct)
  case (1 f uses op nxt rest)
  show ?case
  proof (cases "pairing f uses op nxt")
    case None
    have "merges T (nxt # rest) (coalesce_ops f uses (nxt # rest))"
      using 1(1) [OF None] 1(3,4) None by fastforce
    with None show ?thesis by (simp add: merges.keep)
  next
    case (Some d)
    then obtain t where t: "dest op = Some t" "nxt = ScalarOp (Assign d (Register t))" "unbinds op = None" "t \<noteq> d"
      using pairing_Some by blast
    have inT: "t \<in> T" "reads_of (op # nxt # rest) t \<le> 1" using 1(3) [of t] Some t(1) by simp_all
    then have "reads_of rest t = 0" using t(2) by simp
    then have quiet: "t \<notin> looks_at o'" if "o' \<in> set rest" for o'
      using that inT(1) 1(4) [of o' t] by (auto simp: looks_at_def reads_of_0_iff)
    have "merges T (map_dest (\<lambda>_. d) op # rest) (coalesce_ops f uses (map_dest (\<lambda>_. d) op # rest))"
    proof (rule 1(2) [OF Some])
      fix u assume "u \<in> set (merged_temps f uses (map_dest (\<lambda>_. d) op # rest))"
      with 1(3) [of u] Some t(2) show "u \<in> T \<and> reads_of (map_dest (\<lambda>_. d) op # rest) u \<le> 1"
        by (auto simp: shape_access)
    next
      fix o' u assume "o' \<in> set (map_dest (\<lambda>_. d) op # rest)" "u \<in> T"
      with 1(4) [of op u] 1(4) [of o' u] t(3) show "loop_cursor o' \<noteq> Some u \<and> unbinds o' \<noteq> Some u"
        by (auto simp: shape_access)
    qed
    with Some t quiet inT(1) show ?thesis by (auto intro: merges.merge)
  qed
qed (auto intro: merges.intros)

lemma coalesce_ops_from:
  "op \<in> set (coalesce_ops f uses ops) \<Longrightarrow> \<exists>old \<in> set ops. loop_cursor op = loop_cursor old \<and> unbinds op = unbinds old"
proof (induction f uses ops rule: coalesce_ops.induct)
  case (1 f uses first nxt rest)
  show ?case
  proof (cases "pairing f uses first nxt")
    case None
    then show ?thesis using 1(1,3) by auto
  next
    case (Some d)
    then have "unbinds first = None" using pairing_Some by blast
    with 1(2) [OF Some] 1(3) Some show ?thesis by (auto simp: shape_access)
  qed
qed auto

interpretation coalescing: merging "\<lambda>f. coalesce_ops f (use_counts f)" "\<lambda>f. merged_temps f (use_counts f)"
proof
  fix f ops r t T op
  show "reads_of (coalesce_ops f (use_counts f) ops) r + count_list (merged_temps f (use_counts f) ops) r = reads_of ops r"
    by (rule coalesce_counts)
  show "\<exists>old \<in> set ops. loop_cursor op = loop_cursor old \<and> unbinds op = unbinds old"
    if "op \<in> set (coalesce_ops f (use_counts f) ops)" using that by (rule coalesce_ops_from)
  assume "t \<in> set (merged_temps f (use_counts f) ops)"
  from merged_temps_are [OF this] show "count_list (all_operands f) (Register t) = 1"
    "map_option decl_name (register_at f t) = Some None \<and> (\<exists>d. ScalarOp (Assign d (Register t)) \<in> set ops)"
    by (auto simp: get_use_counts split: if_splits)
qed (rule coalesce_merges)

lemma coalesce_behaves:
  assumes "copies M" "uncopied_cursors f"
  shows "call M (coalesce f) n args w = call M f n args w"
  using coalescing.behaves [OF assms] by (simp add: coalesce_def)

text \<open>\<open>def join(z): y = z + z; return y\<close>, the sum computed into register 1 and copied to register 2.\<close>

definition copying_function :: bir_function where
  "copying_function = plain_function\<lparr>blocks :=
     [\<lparr>block_ops =
         [StrOp (StrConcat 1 (Register 0) (Register 0) False (Operator Fresh)),
          ScalarOp (Assign 2 (Register 1))],
       terminator = Return (Register 2), owned_at_exit = None, block_range = None, block_position = None,
       error_target = None\<rparr>]\<rparr>"

section \<open>Properties\<close>

text \<open>
  The use counts of a function are, for each register it has, how often an operand of it, in an
  operation or a terminator, names the register.
\<close>

theorem use_counts_exact:
  "use_counts f = map (\<lambda>r. count_list (all_operands f) (Register r)) [0..<length (registers f)]"
  by (simp add: use_counts_def fold_count_use)

text \<open>
  C26. On a machine that copies where the program assigns, the function coalescing leaves behaves as
  the old one did: it gives the same answer, in the same world, after every number of blocks. What
  the pass does not count, a loop cursor or a deleted local, must not be a nameless register that is
  copied.
\<close>

theorem coalesce_behaves_alike:
  assumes "copies M" "uncopied_cursors f"
  shows "call M (coalesce f) n args w = call M f n args w"
  by (rule coalesce_behaves [OF assms])

theorem coalesce_behaves_alike_witness:
  "call text_machine (coalesce copying_function) 1 (\<lambda>_. lit ''ab'') 0 = call text_machine copying_function 1 (\<lambda>_. lit ''ab'') 0"
proof (rule coalesce_behaves_alike [OF text_machine_copies])
  show "uncopied_cursors copying_function" by code_simp
qed

end
