(* ===== verification/Opt_CopyPropagation.thy ===== *)
theory Opt_CopyPropagation
  imports Opt_Retarget
begin

text \<open>
  \<^verbatim>\<open>by_opt/src/copy_propagation.rs\<close>: a temporary that only copies another register gives way to that
  register, and a result that is copied out of a temporary right away goes where the copy went. The
  counts of a \<open>HashMap\<close> are a map.
\<close>

section \<open>The pass\<close>

definition count_write :: "register_id \<Rightarrow> (register_id \<rightharpoonup> nat \<times> nat) \<Rightarrow> register_id \<rightharpoonup> nat \<times> nat" where
  "count_write r counts =
     counts(r \<mapsto> (case counts r of Some (writes, reads) \<Rightarrow> (writes + 1, reads) | None \<Rightarrow> (1, 0)))"

definition count_read :: "nat val \<Rightarrow> (register_id \<rightharpoonup> nat \<times> nat) \<Rightarrow> register_id \<rightharpoonup> nat \<times> nat" where
  "count_read v counts =
     (case register v of
        Some r \<Rightarrow> counts(r \<mapsto> (case counts r of Some (writes, reads) \<Rightarrow> (writes, reads + 1) | None \<Rightarrow> (0, 1)))
      | None \<Rightarrow> counts)"

definition count_op :: "nat op \<Rightarrow> (register_id \<rightharpoonup> nat \<times> nat) \<Rightarrow> register_id \<rightharpoonup> nat \<times> nat" where
  "count_op op counts =
     fold count_read (operands op) (case dest op of Some d \<Rightarrow> count_write d counts | None \<Rightarrow> counts)"

definition usage_counts :: "bir_function \<Rightarrow> register_id \<rightharpoonup> nat \<times> nat" where
  "usage_counts f =
     fold (\<lambda>blk counts. fold count_read (term_operands (terminator blk)) (fold count_op (block_ops blk) counts))
       (blocks f) Map.empty"

definition reads_register :: "nat val list \<Rightarrow> register_id \<Rightarrow> bool" where
  "reads_register vs r \<longleftrightarrow> list_ex (\<lambda>v. v = Register r) vs"

text \<open>Whether the copy \<open>d = source\<close> at a position of a block can give way to its source.\<close>

definition substitutable ::
    "bir_function \<Rightarrow> (register_id \<rightharpoonup> nat \<times> nat) \<Rightarrow> basic_block \<Rightarrow> nat \<Rightarrow> register_id \<Rightarrow> register_id \<Rightarrow> bool" where
  "substitutable f counts blk at d source =
     (if \<not> (param_count f \<le> d \<and> map_option decl_name (register_at f d) = Some None
            \<and> map_option fst (counts d) = Some 1) \<or> d = source then False
      else if value_type f (Register d) \<noteq> value_type f (Register source) then False
      else
        (let reads_here = filter (\<lambda>i. reads_register (operands (block_ops blk ! i)) d) [at + 1..<length (block_ops blk)];
             read_in_terminator = reads_register (term_operands (terminator blk)) d;
             total_reads = length reads_here + (if read_in_terminator then 1 else 0);
             last_read = (if read_in_terminator then length (block_ops blk)
               else (if reads_here = [] then at else last reads_here) + 1)
         in map_option snd (counts d) = Some total_reads \<and> total_reads \<noteq> 0
            \<and> \<not> list_ex (\<lambda>i. dest (block_ops blk ! i) = Some source) [at + 1..<last_read]))"

definition block_substitutions ::
    "bir_function \<Rightarrow> (register_id \<rightharpoonup> nat \<times> nat) \<Rightarrow> basic_block \<Rightarrow> (register_id \<times> register_id) list" where
  "block_substitutions f counts blk =
     filter_map (\<lambda>(at, op). case op of
         ScalarOp (Assign d (Register source)) \<Rightarrow>
           if substitutable f counts blk at d source then Some (d, source) else None
       | _ \<Rightarrow> None) (enumerate 0 (block_ops blk))"

definition substitutions :: "bir_function \<Rightarrow> register_id \<rightharpoonup> register_id" where
  "substitutions f = map_of (rev (concat (map (block_substitutions f (usage_counts f)) (blocks f))))"

definition replacement :: "(register_id \<rightharpoonup> register_id) \<Rightarrow> register_id \<Rightarrow> register_id" where
  "replacement subst r = (case subst r of Some s \<Rightarrow> s | None \<Rightarrow> r)"

fun stays :: "(register_id \<rightharpoonup> register_id) \<Rightarrow> nat op \<Rightarrow> bool" where
  "stays subst (ScalarOp (Assign d _)) = (subst d = None)"
| "stays subst _ = True"

definition substitute_block :: "(register_id \<rightharpoonup> register_id) \<Rightarrow> basic_block \<Rightarrow> basic_block" where
  "substitute_block subst blk =
     blk\<lparr>block_ops := map (map_operands (map_val (replacement subst))) (filter (stays subst) (block_ops blk)),
       terminator := map_term_operands (map_val (replacement subst)) (terminator blk)\<rparr>"

definition substitute_copies :: "bir_function \<Rightarrow> bir_function" where
  "substitute_copies f =
     (if concat (map (block_substitutions f (usage_counts f)) (blocks f)) = [] then f
      else f\<lparr>blocks := map (substitute_block (substitutions f)) (blocks f)\<rparr>)"

text \<open>Every operation with a destination is pointed elsewhere but \<open>del\<close>, which the caller refuses.\<close>

fun retarget :: "nat op \<Rightarrow> register_id \<Rightarrow> nat op" where
  "retarget (PlaceOp (DeleteLocal d)) new_dest = PlaceOp (DeleteLocal d)"
| "retarget (CallOp (CallNative d own callee args)) new_dest = CallOp (CallNative (Some new_dest) own callee args)"
| "retarget op new_dest = map_dest (\<lambda>_. new_dest) op"

definition movable :: "bir_function \<Rightarrow> (register_id \<rightharpoonup> nat \<times> nat) \<Rightarrow> nat op \<Rightarrow> nat op \<Rightarrow> register_id option" where
  "movable f counts op next =
     (case dest op of
        None \<Rightarrow> None
      | Some temp \<Rightarrow>
          if \<not> (param_count f \<le> temp \<and> map_option (\<lambda>decl. decl_name decl = None) (get (registers f) temp) = Some True)
          then None
          else if counts temp \<noteq> Some (1, 1) then None
          else (case next of
                  ScalarOp (Assign d (Register src)) \<Rightarrow>
                    if src \<noteq> temp then None
                    else if unbinds op \<noteq> None then None
                    else if map_option decl_ty (get (registers f) d) \<noteq> map_option decl_ty (get (registers f) temp) then None
                    else if reads_register (operands op) d then None
                    else Some d
                | _ \<Rightarrow> None))"

function propagate_ops :: "bir_function \<Rightarrow> (register_id \<rightharpoonup> nat \<times> nat) \<Rightarrow> nat op list \<Rightarrow> nat op list" where
  "propagate_ops f counts (op # next # rest) =
     (case movable f counts op next of
        None \<Rightarrow> op # propagate_ops f counts (next # rest)
      | Some d \<Rightarrow> retarget op d # propagate_ops f counts rest)"
| "propagate_ops f counts [op] = [op]"
| "propagate_ops f counts [] = []"
  by pat_completeness auto
termination by (relation "measure (\<lambda>(f, counts, ops). length ops)") auto

definition move_results :: "bir_function \<Rightarrow> bir_function" where
  "move_results f =
     f\<lparr>blocks := map (\<lambda>blk. blk\<lparr>block_ops := propagate_ops f (usage_counts f) (block_ops blk)\<rparr>) (blocks f)\<rparr>"

definition propagate :: "bir_function \<Rightarrow> bir_function" where
  "propagate f = move_results (substitute_copies f)"

definition copy_propagation_run :: "module_ir \<Rightarrow> module_ir" where
  "copy_propagation_run = map_functions propagate"

section \<open>What it counts\<close>

definition written_times :: "nat op list \<Rightarrow> register_id \<Rightarrow> nat" where
  "written_times ops r = count_list (filter_map dest ops) r"

definition counted :: "nat \<Rightarrow> nat \<Rightarrow> (nat \<times> nat) option" where
  "counted w n = (if w = 0 \<and> n = 0 then None else Some (w, n))"

lemma fold_count_read:
  assumes "\<And>r. counts r = counted (w r) (n r)"
  shows "fold count_read vs counts r = counted (w r) (n r + count_list vs (Register r))"
  using assms
proof (induction vs arbitrary: counts n)
  case (Cons v vs)
  let ?n = "\<lambda>r. n r + (if v = Register r then 1 else 0)"
  have "count_read v counts r = counted (w r) (?n r)" for r
    using Cons.prems by (cases v) (auto simp: count_read_def counted_def)
  from Cons.IH [OF this] show ?case by (auto simp: ac_simps)
qed simp

lemma fold_count_op:
  assumes "\<And>r. counts r = counted (w r) (n r)"
  shows "fold count_op ops counts r = counted (w r + written_times ops r) (n r + reads_of ops r)"
  using assms
proof (induction ops arbitrary: counts w n)
  case (Cons op ops)
  let ?w = "\<lambda>r. w r + (if dest op = Some r then 1 else 0)"
  have "(case dest op of Some d \<Rightarrow> count_write d counts | None \<Rightarrow> counts) r = counted (?w r) (n r)" for r
    using Cons.prems by (cases "dest op") (auto simp: count_write_def counted_def)
  from fold_count_read [OF this] have "count_op op counts r = counted (?w r) (n r + count_list (operands op) (Register r))" for r
    by (simp add: count_op_def)
  from Cons.IH [OF this] show ?case by (cases "dest op") (auto simp: written_times_def ac_simps)
qed (simp add: written_times_def)

lemma usage_counts_are:
  "usage_counts f r = counted (written_times (all_ops f) r) (count_list (all_operands f) (Register r))"
proof -
  have gen: "fold (\<lambda>blk counts. fold count_read (term_operands (terminator blk)) (fold count_op (block_ops blk) counts)) bs counts r
      = counted (w r + written_times (concat (map block_ops bs)) r)
          (n r + count_list (concat (map (\<lambda>blk. concat (map operands (block_ops blk)) @ term_operands (terminator blk)) bs)) (Register r))"
    if "\<And>r. counts r = counted (w r) (n r)" for bs counts w n
    using that
  proof (induction bs arbitrary: counts w n)
    case (Cons blk bs)
    from fold_count_read [OF fold_count_op [OF Cons.prems]] have
      "fold count_read (term_operands (terminator blk)) (fold count_op (block_ops blk) counts) r =
        counted (w r + written_times (block_ops blk) r)
          (n r + reads_of (block_ops blk) r + count_list (term_operands (terminator blk)) (Register r))" for r .
    from Cons.IH [OF this] show ?case by (simp add: written_times_def reads_of_def ac_simps)
  qed (simp add: written_times_def)
  have "Map.empty r = counted ((\<lambda>_. 0) r) ((\<lambda>_. 0) r)" for r by (simp add: counted_def)
  from gen [OF this, of "blocks f"] show ?thesis
    by (simp add: usage_counts_def all_ops_def all_operands_def)
qed

section \<open>Moving a result\<close>

text \<open>The temporaries that go, in the order the loop meets them.\<close>

function moved_temps :: "bir_function \<Rightarrow> (register_id \<rightharpoonup> nat \<times> nat) \<Rightarrow> nat op list \<Rightarrow> register_id list" where
  "moved_temps f counts (op # next # rest) =
     (case movable f counts op next of
        None \<Rightarrow> moved_temps f counts (next # rest)
      | Some d \<Rightarrow> the (dest op) # moved_temps f counts rest)"
| "moved_temps f counts [op] = []"
| "moved_temps f counts [] = []"
  by pat_completeness auto
termination by (relation "measure (\<lambda>(f, counts, ops). length ops)") auto

lemma movable_Some:
  assumes "movable f counts op next = Some d"
  shows "\<exists>t. dest op = Some t \<and> next = ScalarOp (Assign d (Register t)) \<and> unbinds op = None
    \<and> counts t = Some (1, 1) \<and> map_option decl_name (register_at f t) = Some None"
  using assms
  by (auto simp: movable_def register_at_def split: option.splits op.splits scalar_op.splits val.splits if_splits)

lemma retarget_is: "dest op = Some t \<Longrightarrow> unbinds op = None \<Longrightarrow> retarget op d = map_dest (\<lambda>_. d) op"
  by (cases "(op, d)" rule: retarget.cases) auto

lemma movable_retarget: "movable f counts op next = Some d \<Longrightarrow> retarget op d = map_dest (\<lambda>_. d) op"
  using movable_Some retarget_is by blast

lemma moved_temps_are:
  "t \<in> set (moved_temps f counts ops) \<Longrightarrow> counts t = Some (1, 1)
     \<and> map_option decl_name (register_at f t) = Some None \<and> (\<exists>d. ScalarOp (Assign d (Register t)) \<in> set ops)"
proof (induction f counts ops rule: propagate_ops.induct)
  case (1 f counts op nxt rest)
  show ?case
  proof (cases "movable f counts op nxt")
    case None
    then show ?thesis using 1(1,3) by auto
  next
    case (Some d)
    with movable_Some [OF Some] 1(2) [OF Some] 1(3) show ?thesis by auto
  qed
qed simp_all

lemma propagate_merges:
  assumes "\<And>t. t \<in> set (moved_temps f counts ops) \<Longrightarrow> t \<in> T \<and> reads_of ops t \<le> 1"
    and "\<And>op t. op \<in> set ops \<Longrightarrow> t \<in> T \<Longrightarrow> loop_cursor op \<noteq> Some t \<and> unbinds op \<noteq> Some t"
  shows "merges T ops (propagate_ops f counts ops)"
  using assms
proof (induction f counts ops rule: propagate_ops.induct)
  case (1 f counts op nxt rest)
  show ?case
  proof (cases "movable f counts op nxt")
    case None
    have "merges T (nxt # rest) (propagate_ops f counts (nxt # rest))"
      using 1(1) [OF None] 1(3,4) None by fastforce
    with None show ?thesis by (simp add: merges.keep)
  next
    case (Some d)
    then obtain t where t: "dest op = Some t" "nxt = ScalarOp (Assign d (Register t))" "unbinds op = None"
      using movable_Some by blast
    have inT: "t \<in> T" "reads_of (op # nxt # rest) t \<le> 1" using 1(3) [of t] Some t(1) by simp_all
    then have "reads_of rest t = 0" using t(2) by simp
    then have quiet: "t \<notin> looks_at o'" if "o' \<in> set rest" for o'
      using that inT(1) 1(4) [of o' t] by (auto simp: looks_at_def reads_of_0_iff)
    have "merges T rest (propagate_ops f counts rest)"
    proof (rule 1(2) [OF Some])
      fix u assume "u \<in> set (moved_temps f counts rest)"
      with 1(3) [of u] Some show "u \<in> T \<and> reads_of rest u \<le> 1" by auto
    qed (use 1(4) in auto)
    then have "merges T (map_dest (\<lambda>_. d) op # rest) (map_dest (\<lambda>_. d) op # propagate_ops f counts rest)"
      by (rule merges.keep)
    with Some t quiet inT(1) movable_retarget [OF Some] show ?thesis by (auto intro: merges.merge)
  qed
qed (auto intro: merges.intros)

lemma propagate_accounts:
  "reads_of (propagate_ops f counts ops) r + count_list (moved_temps f counts ops) r = reads_of ops r"
proof (induction f counts ops rule: propagate_ops.induct)
  case (1 f counts op nxt rest)
  show ?case
  proof (cases "movable f counts op nxt")
    case None
    then show ?thesis using 1(1) by simp
  next
    case (Some d)
    with movable_Some [OF Some] 1(2) [OF Some] movable_retarget [OF Some] show ?thesis by (auto simp: shape_access)
  qed
qed simp_all

lemma propagate_origin:
  "op \<in> set (propagate_ops f counts ops) \<Longrightarrow> \<exists>old \<in> set ops. loop_cursor op = loop_cursor old \<and> unbinds op = unbinds old"
proof (induction f counts ops rule: propagate_ops.induct)
  case (1 f counts first nxt rest)
  show ?case
  proof (cases "movable f counts first nxt")
    case None
    then show ?thesis using 1(1,3) by auto
  next
    case (Some d)
    with movable_Some [OF Some] 1(2) [OF Some] 1(3) movable_retarget [OF Some] show ?thesis by (auto simp: shape_access)
  qed
qed auto

interpretation moving: merging "\<lambda>f. propagate_ops f (usage_counts f)" "\<lambda>f. moved_temps f (usage_counts f)"
proof
  fix f ops r t T op
  show "reads_of (propagate_ops f (usage_counts f) ops) r + count_list (moved_temps f (usage_counts f) ops) r = reads_of ops r"
    by (rule propagate_accounts)
  show "\<exists>old \<in> set ops. loop_cursor op = loop_cursor old \<and> unbinds op = unbinds old"
    if "op \<in> set (propagate_ops f (usage_counts f) ops)" using that by (rule propagate_origin)
  assume "t \<in> set (moved_temps f (usage_counts f) ops)"
  from moved_temps_are [OF this] show "count_list (all_operands f) (Register t) = 1"
    "map_option decl_name (register_at f t) = Some None \<and> (\<exists>d. ScalarOp (Assign d (Register t)) \<in> set ops)"
    by (auto simp: usage_counts_are counted_def split: if_splits)
qed (rule propagate_merges)

lemma move_results_behaves:
  "copies M \<Longrightarrow> uncopied_cursors f \<Longrightarrow> call M (move_results f) n args w = call M f n args w"
  using moving.behaves by (simp add: move_results_def)

end
