(* ===== verification/Opt_CopyRuns.thy ===== *)
theory Opt_CopyRuns
  imports Opt_CopyPropagation
begin

text \<open>
  What substituting copies changes of a run: nothing, as long as no register that is substituted is
  itself what another is substituted by. The two runs agree on every register that stays, and where
  a substituted register is still going to be read it holds what its source holds.
\<close>

section \<open>Where a substituted register is written and read\<close>




lemma written_times_simps [simp]:
  "written_times [] r = 0"
  "written_times (op # ops) r = (if dest op = Some r then 1 else 0) + written_times ops r"
  "written_times (xs @ ys) r = written_times xs r + written_times ys r"
  by (auto simp: written_times_def split: option.splits)









section \<open>The two runs\<close>

















section \<open>Two functions to look at\<close>

definition text_register :: "ustr option \<Rightarrow> register_decl" where
  "text_register n = \<lparr>decl_name = n, decl_ty = TStr, borrowed = False, may_be_unassigned = False\<rparr>"


text \<open>A copy of a copy.\<close>

definition chain_function :: bir_function where
  "chain_function = plain_function\<lparr>
     registers := [text_register (Some (lit ''s'')), text_register None, text_register None],
     blocks :=
     [\<lparr>block_ops = [ScalarOp (Assign 1 (Register 0)), ScalarOp (Assign 2 (Register 1))],
       terminator = Return (Register 2), owned_at_exit = None, block_range = None, block_position = None,
       error_target = None\<rparr>]\<rparr>"

section \<open>Properties\<close>

text \<open>
  The usage counts hold, for every register that occurs, how many operations write it and how
  many operands, of operations and terminators, name it; no other register has an entry.
\<close>

theorem usage_counts_exact:
  "usage_counts f r =
     (let writes = count_list (filter_map dest (all_ops f)) r; reads = count_list (all_operands f) (Register r)
      in if writes = 0 \<and> reads = 0 then None else Some (writes, reads))"
  by (simp add: usage_counts_are counted_def written_times_def Let_def)



text \<open>
  A copy of a copy is substituted by a register whose own copy goes as well: the function, which
  the verifier accepts, returns a register nothing writes any more. The verifier rejects what is
  left, and a run of it gives an empty slot where the text was.
\<close>

theorem propagate_loses_a_copied_copy:
  "verify chain_function = Some []
   \<and> map block_ops (blocks (propagate chain_function)) = [[]]
   \<and> map terminator (blocks (propagate chain_function)) = [Return (Register 1)]
   \<and> verify (propagate chain_function) \<noteq> Some []
   \<and> call text_machine chain_function 1 (\<lambda>_. lit ''ab'') 0 = Returned (lit ''ab'') 0
   \<and> call text_machine (propagate chain_function) 1 (\<lambda>_. lit ''ab'') 0 = Returned (lit ''empty'') 0"
proof (intro conjI)
  show "verify chain_function = Some []" by code_simp
  show "map block_ops (blocks (propagate chain_function)) = [[]]" by code_simp
  show "map terminator (blocks (propagate chain_function)) = [Return (Register 1)]" by code_simp
  show "verify (propagate chain_function) \<noteq> Some []" by code_simp
  show "call text_machine chain_function 1 (\<lambda>_. lit ''ab'') 0 = Returned (lit ''ab'') 0" by code_simp
  show "call text_machine (propagate chain_function) 1 (\<lambda>_. lit ''ab'') 0 = Returned (lit ''empty'') 0" by code_simp
qed

end
