(* ===== verification/Opt_Fold.thy ===== *)
theory Opt_Fold
  imports BIR_Semantics Opt_Pass
begin

unbundle bit_operations_syntax

text \<open>
  \<^verbatim>\<open>by_opt/src/fold.rs\<close>: constant folding, the folds of what a block has just built, boxed or read, and
  the hoisting of reads of immutable fields. The sum, difference and product of two \<open>f64\<close>s are the
  target's and a parameter; the integers are 64-bit words with Rust's checked operations.
\<close>

section \<open>Arithmetic\<close>

record float_unit =
  f64_add :: "64 word \<Rightarrow> 64 word \<Rightarrow> 64 word"
  f64_sub :: "64 word \<Rightarrow> 64 word \<Rightarrow> 64 word"
  f64_mul :: "64 word \<Rightarrow> 64 word \<Rightarrow> 64 word"

text \<open>Negating an \<open>f64\<close> flips its sign bit.\<close>

definition f64_neg :: "64 word \<Rightarrow> 64 word" where
  "f64_neg x = x XOR push_bit 63 1"

definition fits_i64 :: "int \<Rightarrow> bool" where
  "fits_i64 i \<longleftrightarrow> - (2 ^ 63) \<le> i \<and> i < 2 ^ 63"

definition checked_add :: "i64 \<Rightarrow> i64 \<Rightarrow> i64 option" where
  "checked_add a b = (if fits_i64 (sint a + sint b) then Some (a + b) else None)"

definition checked_sub :: "i64 \<Rightarrow> i64 \<Rightarrow> i64 option" where
  "checked_sub a b = (if fits_i64 (sint a - sint b) then Some (a - b) else None)"

definition checked_mul :: "i64 \<Rightarrow> i64 \<Rightarrow> i64 option" where
  "checked_mul a b = (if fits_i64 (sint a * sint b) then Some (a * b) else None)"

definition checked_neg :: "i64 \<Rightarrow> i64 option" where
  "checked_neg a = (if fits_i64 (- sint a) then Some (- a) else None)"

fun fold_int_binary :: "bin_op \<Rightarrow> i64 \<Rightarrow> i64 \<Rightarrow> i64 option" where
  "fold_int_binary Add lhs rhs = checked_add lhs rhs"
| "fold_int_binary Sub lhs rhs = checked_sub lhs rhs"
| "fold_int_binary Mul lhs rhs = checked_mul lhs rhs"
| "fold_int_binary BitAnd lhs rhs = Some (lhs AND rhs)"
| "fold_int_binary BitOr lhs rhs = Some (lhs OR rhs)"
| "fold_int_binary BitXor lhs rhs = Some (lhs XOR rhs)"
| "fold_int_binary FloorDiv lhs rhs = None"
| "fold_int_binary Mod lhs rhs = None"
| "fold_int_binary TrueDiv lhs rhs = None"
| "fold_int_binary Pow lhs rhs = None"
| "fold_int_binary Shl lhs rhs = None"
| "fold_int_binary Shr lhs rhs = None"

fun fold_float_binary :: "float_unit \<Rightarrow> bin_op \<Rightarrow> 64 word \<Rightarrow> 64 word \<Rightarrow> 64 word option" where
  "fold_float_binary F Add lhs rhs = Some (f64_add F lhs rhs)"
| "fold_float_binary F Sub lhs rhs = Some (f64_sub F lhs rhs)"
| "fold_float_binary F Mul lhs rhs = Some (f64_mul F lhs rhs)"
| "fold_float_binary F _ lhs rhs = None"

fun compare_ints :: "cmp_op \<Rightarrow> i64 \<Rightarrow> i64 \<Rightarrow> bool" where
  "compare_ints CmpEq lhs rhs = (lhs = rhs)"
| "compare_ints CmpNe lhs rhs = (lhs \<noteq> rhs)"
| "compare_ints CmpLt lhs rhs = (sint lhs < sint rhs)"
| "compare_ints CmpLe lhs rhs = (sint lhs \<le> sint rhs)"
| "compare_ints CmpGt lhs rhs = (sint rhs < sint lhs)"
| "compare_ints CmpGe lhs rhs = (sint rhs \<le> sint lhs)"

section \<open>Folding an operation\<close>

text \<open>An operation on immediates becomes an assignment of the result.\<close>

fun as_int :: "nat val \<Rightarrow> i64 option" where
  "as_int (VInt i) = Some i"
| "as_int _ = None"

fun as_float :: "nat val \<Rightarrow> 64 word option" where
  "as_float (VFloat x) = Some x"
| "as_float _ = None"

fun as_bit :: "nat val \<Rightarrow> bool option" where
  "as_bit (VBit b) = Some b"
| "as_bit _ = None"

definition fold_unary :: "unary_op \<Rightarrow> nat val \<Rightarrow> nat val option" where
  "fold_unary oper v =
     (case oper of
        UnaryNot \<Rightarrow> map_option (\<lambda>b. VBit (\<not> b)) (as_bit v)
      | UnaryNeg \<Rightarrow>
          (case as_float v of
             Some x \<Rightarrow> Some (VFloat (f64_neg x))
           | None \<Rightarrow> map_option VInt (Option.bind (as_int v) checked_neg))
      | UnaryInvert \<Rightarrow> map_option (\<lambda>i. VInt (NOT i)) (as_int v)
      | UnaryPos \<Rightarrow> map_option VInt (as_int v)
      | UnaryIndex \<Rightarrow> map_option VInt (as_int v))"

definition both :: "'a option \<Rightarrow> 'a option \<Rightarrow> ('a \<times> 'a) option" where
  "both x y = (case (x, y) of (Some a, Some b) \<Rightarrow> Some (a, b) | _ \<Rightarrow> None)"

definition fold_scalar :: "float_unit \<Rightarrow> nat scalar_op \<Rightarrow> nat op option" where
  "fold_scalar F op =
     (case op of
        IntBinary d oper lhs rhs _ \<Rightarrow>
          map_option (\<lambda>v. ScalarOp (Assign d (VInt v)))
            (Option.bind (both (as_int lhs) (as_int rhs)) (\<lambda>(a, b). fold_int_binary oper a b))
      | IntCompare d cmp lhs rhs \<Rightarrow>
          map_option (\<lambda>(a, b). ScalarOp (Assign d (VBit (compare_ints cmp a b)))) (both (as_int lhs) (as_int rhs))
      | Truthy d src \<Rightarrow> map_option (\<lambda>v. ScalarOp (Assign d (VBit (v \<noteq> 0)))) (as_int src)
      | FloatBinary d oper lhs rhs \<Rightarrow>
          map_option (\<lambda>v. ScalarOp (Assign d (VFloat v)))
            (Option.bind (both (as_float lhs) (as_float rhs)) (\<lambda>(a, b). fold_float_binary F oper a b))
      | Unary d oper src \<Rightarrow> map_option (\<lambda>v. ScalarOp (Assign d v)) (fold_unary oper src)
      | _ \<Rightarrow> None)"

definition fold_op :: "float_unit \<Rightarrow> nat op \<Rightarrow> nat op option" where
  "fold_op F op = (case op of ScalarOp s \<Rightarrow> fold_scalar F s | _ \<Rightarrow> None)"

definition type_in :: "rtype list \<Rightarrow> nat val \<Rightarrow> rtype option" where
  "type_in types v = (case v of Register r \<Rightarrow> get types r | other \<Rightarrow> immediate_type other)"

fun fold_box :: "rtype list \<Rightarrow> nat op \<Rightarrow> nat op option" where
  "fold_box types (PlaceOp (Box d src)) =
     (case type_in types src of
        None \<Rightarrow> None
      | Some ty \<Rightarrow> if is_unboxed ty \<or> is_instance ty then None else Some (ScalarOp (Assign d src)))"
| "fold_box types _ = None"

fun fold_unbox :: "rtype list \<Rightarrow> nat op \<Rightarrow> nat op option" where
  "fold_unbox types (PlaceOp (Unbox d src target _)) =
     (if is_instance target then None
      else (case type_in types src of
              None \<Rightarrow> None
            | Some ty \<Rightarrow> if ty = target then Some (ScalarOp (Assign d src)) else None))"
| "fold_unbox types _ = None"

fun fold_box_round_trip :: "rtype list \<Rightarrow> (register_id \<rightharpoonup> nat val) \<Rightarrow> nat op \<Rightarrow> nat op option" where
  "fold_box_round_trip types boxed_from (PlaceOp (Unbox d (Register r) target _)) =
     (if is_instance target then None
      else (case boxed_from r of
              None \<Rightarrow> None
            | Some source \<Rightarrow>
                (case type_in types source of
                   None \<Rightarrow> None
                 | Some ty \<Rightarrow> if ty = target then Some (ScalarOp (Assign d source)) else None)))"
| "fold_box_round_trip types boxed_from _ = None"

text \<open>An item that is a pointer to a Python object already.\<close>

definition boxed_item :: "rtype list \<Rightarrow> nat val \<Rightarrow> bool" where
  "boxed_item types v = (case type_in types v of Some ty \<Rightarrow> \<not> is_unboxed ty \<and> \<not> is_instance ty | None \<Rightarrow> False)"

fun fold_unpack :: "rtype list \<Rightarrow> (register_id \<rightharpoonup> nat val list) \<Rightarrow> nat op \<Rightarrow> nat op option" where
  "fold_unpack types built (ContainerOp (Unpack d (Register src) None)) =
     (case built src of
        None \<Rightarrow> None
      | Some items \<Rightarrow>
          (case get types d of
             Some (Tuple slots) \<Rightarrow>
               if length slots \<noteq> length items then None
               else if list_all (boxed_item types) items then Some (ContainerOp (TupleBuild d items [])) else None
           | _ \<Rightarrow> None))"
| "fold_unpack types built _ = None"

fun fold_tuple_get :: "(register_id \<rightharpoonup> nat val list) \<Rightarrow> nat op \<Rightarrow> nat op option" where
  "fold_tuple_get built (ContainerOp (TupleGet d (Register src) index)) =
     (case built src of
        None \<Rightarrow> None
      | Some items \<Rightarrow> map_option (\<lambda>item. ScalarOp (Assign d item)) (get items index))"
| "fold_tuple_get built _ = None"

text \<open>Where a Python subscript of a sequence of some length points, if it points inside.\<close>

definition subscript_at :: "nat \<Rightarrow> i64 \<Rightarrow> nat option" where
  "subscript_at len index =
     (if 2 ^ 63 \<le> int len then None
      else (case (if sint index < 0 then checked_add index (word_of_nat len) else Some index) of
              None \<Rightarrow> None
            | Some at \<Rightarrow> if sint at < 0 then None else Some (nat (sint at))))"

fun fold_get_item :: "rtype list \<Rightarrow> (register_id \<rightharpoonup> nat val list) \<Rightarrow> nat op \<Rightarrow> nat op option" where
  "fold_get_item types built (ContainerOp (GetItem d (Register container) (VInt index))) =
     (case built container of
        None \<Rightarrow> None
      | Some items \<Rightarrow>
          (case Option.bind (subscript_at (length items) index) (get items) of
             None \<Rightarrow> None
           | Some item \<Rightarrow>
               if type_in types item \<noteq> None \<and> type_in types item = get types d
               then Some (ScalarOp (Assign d item)) else None))"
| "fold_get_item types built _ = None"

fun fold_frozen_read ::
    "ustr set \<Rightarrow> (register_id \<times> ustr \<times> ustr \<rightharpoonup> register_id) \<Rightarrow> nat op \<Rightarrow> nat op option" where
  "fold_frozen_read frozen read (AttributeOp (GetField d (Register receiver) cls fld)) =
     (if cls \<notin> frozen then None
      else map_option (\<lambda>held. ScalarOp (Assign d (Register held))) (read (receiver, cls, fld)))"
| "fold_frozen_read frozen read _ = None"

fun fold_terminator :: "nat terminator \<Rightarrow> nat terminator option" where
  "fold_terminator (Branch (VBit taken) then_block else_block) = Some (Goto (if taken then then_block else else_block))"
| "fold_terminator (Branch (VBool taken) then_block else_block) = Some (Goto (if taken then then_block else else_block))"
| "fold_terminator _ = None"

section \<open>Folding a block\<close>

text \<open>What the block is known to have built, read and boxed.\<close>

record fold_facts =
  built :: "register_id \<rightharpoonup> nat val list"
  field_reads :: "register_id \<times> ustr \<times> ustr \<rightharpoonup> register_id"
  boxed_from :: "register_id \<rightharpoonup> nat val"

definition retain :: "('k \<Rightarrow> 'v \<Rightarrow> bool) \<Rightarrow> ('k \<rightharpoonup> 'v) \<Rightarrow> 'k \<rightharpoonup> 'v" where
  "retain keep m = (\<lambda>k. case m k of Some v \<Rightarrow> if keep k v then Some v else None | None \<Rightarrow> None)"

fun or_else :: "'a option \<Rightarrow> 'a option \<Rightarrow> 'a option" where
  "or_else (Some x) _ = Some x"
| "or_else None y = y"

definition folded :: "float_unit \<Rightarrow> rtype list \<Rightarrow> ustr set \<Rightarrow> fold_facts \<Rightarrow> nat op \<Rightarrow> nat op" where
  "folded F types frozen facts op =
     (case foldl or_else None
        [fold_op F op, fold_box types op, fold_unbox types op, fold_box_round_trip types (boxed_from facts) op,
         fold_unpack types (built facts) op, fold_tuple_get (built facts) op, fold_get_item types (built facts) op,
         fold_frozen_read frozen (field_reads facts) op] of
        Some op' \<Rightarrow> op'
      | None \<Rightarrow> op)"

definition forget_dest :: "register_id \<Rightarrow> fold_facts \<Rightarrow> fold_facts" where
  "forget_dest d facts = facts\<lparr>
     built := retain (\<lambda>_ items. \<not> list_ex (\<lambda>item. item = Register d) items) ((built facts)(d := None)),
     field_reads := retain (\<lambda>(receiver, _, _) held. receiver \<noteq> d \<and> held \<noteq> d) (field_reads facts),
     boxed_from := retain (\<lambda>_ source. source \<noteq> Register d) ((boxed_from facts)(d := None))\<rparr>"

fun forget_field :: "nat op \<Rightarrow> fold_facts \<Rightarrow> fold_facts" where
  "forget_field (AttributeOp (SetField _ cls fld _ _ _)) facts =
     facts\<lparr>field_reads := retain (\<lambda>(_, owner', name) _. owner' \<noteq> cls \<or> name \<noteq> fld) (field_reads facts)\<rparr>"
| "forget_field _ facts = facts"

definition learn_source :: "register_id \<Rightarrow> nat val \<Rightarrow> fold_facts \<Rightarrow> fold_facts" where
  "learn_source d src facts =
     (case src of Register s \<Rightarrow> facts\<lparr>boxed_from := (boxed_from facts)(d \<mapsto> Register s)\<rparr> | _ \<Rightarrow> facts)"

definition learn_read :: "ustr set \<Rightarrow> register_id \<Rightarrow> nat val \<Rightarrow> ustr \<Rightarrow> ustr \<Rightarrow> fold_facts \<Rightarrow> fold_facts" where
  "learn_read frozen d receiver cls fld facts =
     (case receiver of
        Register r \<Rightarrow>
          if cls \<in> frozen then facts\<lparr>field_reads := (field_reads facts)((r, cls, fld) \<mapsto> d)\<rparr> else facts
      | _ \<Rightarrow> facts)"

definition learn :: "ustr set \<Rightarrow> nat op \<Rightarrow> fold_facts \<Rightarrow> fold_facts" where
  "learn frozen op facts =
     (case op of
        ContainerOp c \<Rightarrow>
          (case c of
             BuildTuple d items _ \<Rightarrow> facts\<lparr>built := (built facts)(d \<mapsto> items)\<rparr>
           | TupleBuild d items _ \<Rightarrow> facts\<lparr>built := (built facts)(d \<mapsto> items)\<rparr>
           | _ \<Rightarrow> facts)
      | AttributeOp a \<Rightarrow> (case a of GetField d receiver cls fld \<Rightarrow> learn_read frozen d receiver cls fld facts | _ \<Rightarrow> facts)
      | PlaceOp p \<Rightarrow> (case p of Box d src \<Rightarrow> learn_source d src facts | _ \<Rightarrow> facts)
      | ScalarOp s \<Rightarrow> (case s of Assign d src \<Rightarrow> learn_source d src facts | _ \<Rightarrow> facts)
      | _ \<Rightarrow> facts)"

definition facts_after :: "ustr set \<Rightarrow> nat op \<Rightarrow> fold_facts \<Rightarrow> fold_facts" where
  "facts_after frozen op facts =
     learn frozen op (forget_field op (case dest op of Some d \<Rightarrow> forget_dest d facts | None \<Rightarrow> facts))"

fun fold_ops :: "float_unit \<Rightarrow> rtype list \<Rightarrow> ustr set \<Rightarrow> fold_facts \<Rightarrow> nat op list \<Rightarrow> nat op list" where
  "fold_ops F types frozen facts [] = []"
| "fold_ops F types frozen facts (op # ops) =
     (let op' = folded F types frozen facts op
      in op' # fold_ops F types frozen (facts_after frozen op' facts) ops)"

definition no_facts :: fold_facts where
  "no_facts = \<lparr>built = Map.empty, field_reads = Map.empty, boxed_from = Map.empty\<rparr>"

definition fold_block :: "float_unit \<Rightarrow> rtype list \<Rightarrow> ustr set \<Rightarrow> basic_block \<Rightarrow> basic_block" where
  "fold_block F types frozen blk =
     blk\<lparr>block_ops := fold_ops F types frozen no_facts (block_ops blk),
       terminator := (case fold_terminator (terminator blk) of Some t \<Rightarrow> t | None \<Rightarrow> terminator blk)\<rparr>"

definition fold_function :: "float_unit \<Rightarrow> ustr set \<Rightarrow> bir_function \<Rightarrow> bir_function" where
  "fold_function F frozen f = f\<lparr>blocks := map (fold_block F (map decl_ty (registers f)) frozen) (blocks f)\<rparr>"

section \<open>Hoisting reads\<close>

fun set_field_of :: "nat op \<Rightarrow> (ustr \<times> ustr) option" where
  "set_field_of (AttributeOp (SetField _ cls fld _ _ _)) = Some (cls, fld)"
| "set_field_of _ = None"

definition fields_written :: "bir_function \<Rightarrow> (ustr \<times> ustr) list" where
  "fields_written f = filter_map set_field_of (concat (map block_ops (blocks f)))"

type_synonym hoist = "register_id \<times> ustr \<times> ustr \<times> rtype"

fun hoistable :: "ustr set \<Rightarrow> bir_function \<Rightarrow> nat op \<Rightarrow> hoist option" where
  "hoistable frozen f (AttributeOp (GetField d (Register receiver) cls fld)) =
     (if cls \<notin> frozen \<or> param_count f \<le> receiver \<or> (cls, fld) \<in> set (fields_written f) then None
      else map_option (\<lambda>decl. (receiver, cls, fld, decl_ty decl)) (register_at f d))"
| "hoistable frozen f _ = None"

definition add_once :: "hoist \<Rightarrow> hoist list \<Rightarrow> hoist list" where
  "add_once h hs = (if h \<in> set hs then hs else hs @ [h])"

text \<open>The reads outside the entry block.\<close>

definition hoists :: "ustr set \<Rightarrow> bir_function \<Rightarrow> hoist list" where
  "hoists frozen f = fold add_once (filter_map (hoistable frozen f) (concat (map block_ops (drop 1 (blocks f))))) []"

definition hoist_decl :: "hoist \<Rightarrow> register_decl" where
  "hoist_decl = (\<lambda>(_, _, _, ty). \<lparr>decl_name = None, decl_ty = ty, borrowed = False, may_be_unassigned = False\<rparr>)"

definition hoist_read :: "nat \<times> hoist \<Rightarrow> nat op" where
  "hoist_read = (\<lambda>(d, receiver, cls, fld, _). AttributeOp (GetField d (Register receiver) cls fld))"

definition held :: "nat \<Rightarrow> hoist list \<Rightarrow> register_id \<times> ustr \<times> ustr \<rightharpoonup> register_id" where
  "held first hs = map_of (rev (map (\<lambda>(d, receiver, cls, fld, _). ((receiver, cls, fld), d)) (enumerate first hs)))"

fun use_held :: "(register_id \<times> ustr \<times> ustr \<rightharpoonup> register_id) \<Rightarrow> nat op \<Rightarrow> nat op" where
  "use_held h (AttributeOp (GetField d (Register receiver) cls fld)) =
     (case h (receiver, cls, fld) of
        Some source \<Rightarrow> ScalarOp (Assign d (Register source))
      | None \<Rightarrow> AttributeOp (GetField d (Register receiver) cls fld))"
| "use_held h op = op"

definition hoist_immutable_reads :: "ustr set \<Rightarrow> bir_function \<Rightarrow> bir_function" where
  "hoist_immutable_reads frozen f =
     (let hs = hoists frozen f; first = length (registers f)
      in if hs = [] then f
         else f\<lparr>registers := registers f @ map hoist_decl hs,
           blocks := map (\<lambda>(index, blk).
             if index = 0 then blk\<lparr>block_ops := map hoist_read (enumerate first hs) @ block_ops blk\<rparr>
             else blk\<lparr>block_ops := map (use_held (held first hs)) (block_ops blk)\<rparr>) (enumerate 0 (blocks f))\<rparr>)"

definition fold_run :: "float_unit \<Rightarrow> module_ir \<Rightarrow> module_ir" where
  "fold_run F m =
     (let frozen = set (map class_name (filter immutable (mod_classes m)))
      in map_functions (\<lambda>f. fold_function F frozen (hoist_immutable_reads frozen f)) m)"

section \<open>Overflow\<close>

text \<open>What Python computes, on integers without bound; the other operators may raise or leave the integers.\<close>

definition python_int :: "bin_op \<Rightarrow> int \<Rightarrow> int \<Rightarrow> int option" where
  "python_int oper a b =
     (case oper of
        Add \<Rightarrow> Some (a + b) | Sub \<Rightarrow> Some (a - b) | Mul \<Rightarrow> Some (a * b)
      | BitAnd \<Rightarrow> Some (a AND b) | BitOr \<Rightarrow> Some (a OR b) | BitXor \<Rightarrow> Some (a XOR b)
      | _ \<Rightarrow> None)"

lemma sint_fits: "fits_i64 (sint (v :: i64))"
  using sint_ge [of v] sint_lt [of v] by (simp add: fits_i64_def)

lemma sint_word_of_int: "fits_i64 x \<Longrightarrow> sint (word_of_int x :: i64) = x"
proof -
  assume "fits_i64 x"
  then have "signed_take_bit 63 x = x" by (intro signed_take_bit_int_eq_self) (simp_all add: fits_i64_def)
  then show ?thesis by (simp add: signed_of_int)
qed

lemma word_of_sint: "word_of_int (sint a) = (a :: i64)" by simp

lemma sint_inverse: "sint (v :: i64) = x \<longleftrightarrow> fits_i64 x \<and> v = word_of_int x"
  using sint_fits sint_word_of_int by auto

lemma words:
  "a + b = word_of_int (sint a + sint b)" "a - b = word_of_int (sint a - sint b)" "a * b = word_of_int (sint a * sint b)"
  "- a = word_of_int (- sint a)" for a b :: i64
  by (simp_all add: of_int_add of_int_diff of_int_mult)

lemma bits: "sint (a AND b) = sint a AND sint b" "sint (a OR b) = sint a OR sint b" "sint (a XOR b) = sint a XOR sint b" for a b :: i64
  by (simp_all add: signed_and_eq signed_or_eq signed_xor_eq)

lemma sint_not: "sint (NOT a) = NOT (sint a)" for a :: i64
proof -
  have "NOT a = word_of_int (NOT (sint a))" by (simp add: not_eq_complement of_int_diff)
  moreover have "fits_i64 (NOT (sint a))" using sint_fits [of a] by (auto simp: fits_i64_def not_eq_complement)
  ultimately show ?thesis by (simp add: sint_word_of_int)
qed

definition checked :: "int \<Rightarrow> i64 option" where
  "checked x = (if fits_i64 x then Some (word_of_int x) else None)"

lemma checked_Some: "checked x = Some v \<longleftrightarrow> x = sint v"
  using sint_inverse [of v x] by (auto simp: checked_def)

lemma checked_ops:
  "checked_add a b = checked (sint a + sint b)" "checked_sub a b = checked (sint a - sint b)"
  "checked_mul a b = checked (sint a * sint b)" "checked_neg a = checked (- sint a)"
  by (simp_all only: checked_add_def checked_sub_def checked_mul_def checked_neg_def checked_def words)

lemma sint_inj: "sint a = sint b \<longleftrightarrow> a = b" for a b :: i64
  by (metis word_of_sint)

lemma fold_int_binary_is: "fold_int_binary oper a b = Some v \<longleftrightarrow> python_int oper (sint a) (sint b) = Some (sint v)"
  by (cases oper) (simp_all add: python_int_def checked_ops checked_Some bits [symmetric] sint_inj)

section \<open>Properties\<close>

text \<open>
  C18. Folding an operation on two 64-bit immediates is exact: it gives an immediate exactly if the
  operator is one that cannot raise and Python's result, on integers without bound, is that
  immediate. A result outside the 64-bit range is left to the runtime.
\<close>

theorem fold_int_binary_exact:
  "fold_int_binary oper a b = Some v \<longleftrightarrow> python_int oper (sint a) (sint b) = Some (sint v)"
  by (rule fold_int_binary_is)

end
