(* ===== verification/Opt_FoldRuns.thy ===== *)
theory Opt_FoldRuns
  imports Opt_Fold Opt_Retarget
begin

unbundle bit_operations_syntax

text \<open>
  What folding changes of a run: nothing. What the machine is taken to do is what the folds are said
  to rest on: its integers are Python's, a tuple keeps its items, a value in a representation is
  boxed and unboxed back to itself, a field of a frozen class keeps what it holds until something
  writes it, and every register keeps to its declared representation.
\<close>

section \<open>What the machine is taken to do\<close>


fun python_compare :: "cmp_op \<Rightarrow> int \<Rightarrow> int \<Rightarrow> bool" where
  "python_compare CmpEq a b = (a = b)"
| "python_compare CmpNe a b = (a \<noteq> b)"
| "python_compare CmpLt a b = (a < b)"
| "python_compare CmpLe a b = (a \<le> b)"
| "python_compare CmpGt a b = (b < a)"
| "python_compare CmpGe a b = (b \<le> a)"

definition python_unary :: "unary_op \<Rightarrow> int \<Rightarrow> int option" where
  "python_unary oper a =
     (case oper of UnaryNeg \<Rightarrow> Some (- a) | UnaryInvert \<Rightarrow> Some (NOT a) | UnaryPos \<Rightarrow> Some a | UnaryIndex \<Rightarrow> Some a
      | UnaryNot \<Rightarrow> None)"



definition python_index :: "nat \<Rightarrow> int \<Rightarrow> nat option" where
  "python_index len i =
     (if 0 \<le> i \<and> i < int len then Some (nat i) else if - int len \<le> i \<and> i < 0 then Some (nat (i + int len)) else None)"









section \<open>Running a folded operation\<close>




lemma value_in_immediate: "register v = None \<Longrightarrow> value_in M env v = immediate M v"
  by (simp add: value_in_def)













section \<open>What the facts say\<close>















section \<open>Keeping the facts\<close>











lemma forget_field_built [simp]: "built (forget_field op facts) = built facts" "boxed_from (forget_field op facts) = boxed_from facts"
  by (cases "(op, facts)" rule: forget_field.cases; simp)+







section \<open>Blocks and functions\<close>












section \<open>Samples\<close>

text \<open>A machine to look at: integers, bits, tuples, and what the fields of a value hold.\<close>

datatype cell = CInt int | CBit bool | CFloat "64 word" | CTuple "cell list" | CField ustr ustr cell | CEmpty

definition word_floats :: float_unit where
  "word_floats = \<lparr>f64_add = (+), f64_sub = (-), f64_mul = (*)\<rparr>"

definition or_empty :: "('a \<Rightarrow> cell) \<Rightarrow> 'a option \<Rightarrow> cell" where
  "or_empty g x = (case x of Some v \<Rightarrow> g v | None \<Rightarrow> CEmpty)"

fun cell_unary :: "unary_op \<Rightarrow> cell \<Rightarrow> cell" where
  "cell_unary oper (CInt a) = or_empty CInt (python_unary oper a)"
| "cell_unary oper (CBit b) = CBit (\<not> b)"
| "cell_unary oper (CFloat x) = CFloat (f64_neg x)"
| "cell_unary oper _ = CEmpty"

fun cell_binary :: "bin_op \<Rightarrow> cell \<Rightarrow> cell \<Rightarrow> cell" where
  "cell_binary oper (CInt a) (CInt b) = or_empty CInt (python_int oper a b)"
| "cell_binary oper (CFloat a) (CFloat b) = or_empty CFloat (fold_float_binary word_floats oper a b)"
| "cell_binary oper _ _ = CEmpty"

fun cell_compare :: "cmp_op \<Rightarrow> cell \<Rightarrow> cell \<Rightarrow> cell" where
  "cell_compare cmp (CInt a) (CInt b) = CBit (python_compare cmp a b)"
| "cell_compare cmp _ _ = CEmpty"

fun cell_item :: "cell \<Rightarrow> cell \<Rightarrow> cell" where
  "cell_item (CTuple vs) (CInt i) = or_empty (nth vs) (python_index (length vs) i)"
| "cell_item _ _ = CEmpty"

fun cell_slot :: "cell \<Rightarrow> nat \<Rightarrow> cell" where
  "cell_slot (CTuple vs) k = or_empty id (get vs k)"
| "cell_slot _ _ = CEmpty"

definition cell_scalar :: "nat scalar_op \<Rightarrow> cell list \<Rightarrow> cell" where
  "cell_scalar op vs =
     (case op of
        Assign _ _ \<Rightarrow> hd vs
      | IntBinary _ oper _ _ _ \<Rightarrow> cell_binary oper (hd vs) (vs ! 1)
      | FloatBinary _ oper _ _ \<Rightarrow> cell_binary oper (hd vs) (vs ! 1)
      | IntCompare _ cmp _ _ \<Rightarrow> cell_compare cmp (hd vs) (vs ! 1)
      | Truthy _ _ \<Rightarrow> cell_compare CmpNe (hd vs) (CInt 0)
      | Unary _ oper _ \<Rightarrow> cell_unary oper (hd vs)
      | _ \<Rightarrow> CEmpty)"

definition cell_container :: "nat container_op \<Rightarrow> cell list \<Rightarrow> cell" where
  "cell_container op vs =
     (case op of
        BuildTuple _ _ _ \<Rightarrow> CTuple vs
      | TupleBuild _ _ _ \<Rightarrow> CTuple vs
      | Unpack _ _ _ \<Rightarrow> hd vs
      | TupleGet _ _ k \<Rightarrow> cell_slot (hd vs) k
      | GetItem _ _ _ \<Rightarrow> cell_item (hd vs) (vs ! 1)
      | _ \<Rightarrow> CEmpty)"

definition cell_perform :: "nat op \<Rightarrow> cell list \<Rightarrow> cell" where
  "cell_perform op vs =
     (case op of
        ScalarOp s \<Rightarrow> cell_scalar s vs
      | ContainerOp c \<Rightarrow> cell_container c vs
      | PlaceOp p \<Rightarrow> (case p of Box _ _ \<Rightarrow> hd vs | Unbox _ _ _ _ \<Rightarrow> hd vs | _ \<Rightarrow> CEmpty)
      | AttributeOp a \<Rightarrow> (case a of GetField _ _ cls fld \<Rightarrow> CField cls fld (hd vs) | _ \<Rightarrow> CEmpty)
      | _ \<Rightarrow> CEmpty)"

definition cell_machine :: "(cell, nat) machine" where
  "cell_machine = \<lparr>
     immediate = (\<lambda>v. case v of VInt i \<Rightarrow> CInt (sint i) | VBit b \<Rightarrow> CBit b | VBool b \<Rightarrow> CBit b | VFloat x \<Rightarrow> CFloat x | _ \<Rightarrow> CEmpty),
     perform = (\<lambda>op vs _ _ w. Done (cell_perform op vs) CEmpty w),
     empty_slot = CEmpty, truth = (\<lambda>v. v = CBit True), narrow = Some, step_by = (\<lambda>_ _ _. None)\<rparr>"


lemma python_index_less: "python_index n i = Some k \<Longrightarrow> k < n"
  by (auto simp: python_index_def split: if_splits)



definition sample_register :: "ustr option \<Rightarrow> rtype \<Rightarrow> register_decl" where
  "sample_register n ty = \<lparr>decl_name = n, decl_ty = ty, borrowed = False, may_be_unassigned = False\<rparr>"

definition sample_block :: "nat op list \<Rightarrow> nat terminator \<Rightarrow> basic_block" where
  "sample_block ops t = \<lparr>block_ops = ops, terminator = t, owned_at_exit = None, block_range = None, block_position = None,
     error_target = None\<rparr>"


text \<open>
  \<open>def walk(p): p = p.next; return p.next\<close>, with the reads outside the entry block, as in the body of
  a loop and after it. The parameter is assigned through its own register.
\<close>

definition walk_function :: bir_function where
  "walk_function = plain_function\<lparr>
     ret := (Instance (lit ''Node'') False),
     registers := [sample_register (Some (lit ''p'')) (Instance (lit ''Node'') False), sample_register None (Instance (lit ''Node'') False), sample_register None (Instance (lit ''Node'') False)],
     blocks :=
       [sample_block [] (Goto 1),
        sample_block [AttributeOp (GetField 1 (Register 0) (lit ''Node'') (lit ''next'')), ScalarOp (Assign 0 (Register 1))] (Goto 2),
        sample_block [AttributeOp (GetField 2 (Register 0) (lit ''Node'') (lit ''next''))] (Return (Register 2))]\<rparr>"

section \<open>Properties\<close>



text \<open>
  C36. Hoisting the reads of an immutable field to the entry block does not look at whether the
  parameter they read from is assigned to on the way: a function the verifier accepts, that walks two
  links from its argument, walks one after hoisting, and the verifier accepts that too.
\<close>

theorem hoisting_reads_through_an_assigned_parameter:
  "verify walk_function = Some []
   \<and> verify (hoist_immutable_reads {lit ''Node''} walk_function) = Some []
   \<and> call cell_machine walk_function 3 (\<lambda>_. CInt 0) 0
       = Returned (CField (lit ''Node'') (lit ''next'') (CField (lit ''Node'') (lit ''next'') (CInt 0))) 0
   \<and> call cell_machine (hoist_immutable_reads {lit ''Node''} walk_function) 3 (\<lambda>_. CInt 0) 0
       = Returned (CField (lit ''Node'') (lit ''next'') (CInt 0)) 0"
proof (intro conjI)
  show "verify walk_function = Some []" by code_simp
  show "verify (hoist_immutable_reads {lit ''Node''} walk_function) = Some []" by code_simp
  show "call cell_machine walk_function 3 (\<lambda>_. CInt 0) 0
       = Returned (CField (lit ''Node'') (lit ''next'') (CField (lit ''Node'') (lit ''next'') (CInt 0))) 0" by code_simp
  show "call cell_machine (hoist_immutable_reads {lit ''Node''} walk_function) 3 (\<lambda>_. CInt 0) 0
       = Returned (CField (lit ''Node'') (lit ''next'') (CInt 0)) 0" by code_simp
qed

end
