(* ===== verification/Opt_Infallible.thy ===== *)
theory Opt_Infallible
  imports BIR_Semantics Opt_Pass BIR_CallGraph
begin

text \<open>
  \<^verbatim>\<open>by_opt/src/infallible.rs\<close>: which functions can never raise, so that a call of one needs no check. The
  pass starts with every function and takes away those that can raise themselves, that lie on a cycle
  of calls, or that call one already taken away, until nothing changes. It is shown to return, to
  leave exactly the functions no chain of calls leads from to a function that can raise, and a
  function it leaves to take no exception edge on any machine that raises only where the pass says an
  operation can.
\<close>

section \<open>Operations that can raise\<close>

definition reads_a_maybe_unassigned_local :: "bir_function \<Rightarrow> nat val list \<Rightarrow> bool" where
  "reads_a_maybe_unassigned_local f vs \<longleftrightarrow>
     list_ex (\<lambda>v. case register v of
         Some r \<Rightarrow> (case register_at f r of Some decl \<Rightarrow> may_be_unassigned decl | None \<Rightarrow> False)
       | None \<Rightarrow> False) vs"

definition reads_an_optional_field :: "module_ir \<Rightarrow> nat op \<Rightarrow> bool" where
  "reads_an_optional_field m op =
     (case op of
        AttributeOp (GetField _ _ cls fld) \<Rightarrow>
          (case Option.bind (List.find (\<lambda>c. class_name c = cls) (mod_classes m))
                  (\<lambda>c. List.find (\<lambda>decl. field_name decl = fld) (class_fields c)) of
             Some decl \<Rightarrow> field_optional decl
           | None \<Rightarrow> False)
      | _ \<Rightarrow> False)"

fun unary_can_fail :: "bir_function \<Rightarrow> unary_op \<Rightarrow> nat val \<Rightarrow> bool" where
  "unary_can_fail f UnaryNot operand = False"
| "unary_can_fail f UnaryNeg operand = (value_type f operand \<noteq> Some TFloat)"
| "unary_can_fail f UnaryInvert operand = True"
| "unary_can_fail f UnaryPos operand = True"
| "unary_can_fail f UnaryIndex operand = True"

fun scalar_can_fail :: "bir_function \<Rightarrow> nat scalar_op \<Rightarrow> bool" where
  "scalar_can_fail f (Assign _ _) = False"
| "scalar_can_fail f (FloatCompare _ _ _ _) = False"
| "scalar_can_fail f (Identity _ _ _ _) = False"
| "scalar_can_fail f (TagShort _ _) = False"
| "scalar_can_fail f (FloatBinary _ oper lhs _) = (bin_can_fail oper \<or> value_type f lhs = Some TInt)"
| "scalar_can_fail f (Unary _ oper operand) = unary_can_fail f oper operand"
| "scalar_can_fail f (IntToFloat _ src) = (\<not> (case value_type f src of Some ty \<Rightarrow> is_fixed ty | None \<Rightarrow> False))"
| "scalar_can_fail f _ = True"

fun place_can_fail :: "nat place_op \<Rightarrow> bool" where
  "place_can_fail (Box _ _) = True"
| "place_can_fail (Unbox _ _ _ proved) = (\<not> proved)"
| "place_can_fail (DeleteLocal _) = True"
| "place_can_fail _ = False"

fun pattern_can_fail :: "nat pattern_op \<Rightarrow> bool" where
  "pattern_can_fail (IsMissing _ _) = False"
| "pattern_can_fail (IsMapping _ _) = False"
| "pattern_can_fail (HoldsLayout _ _ _) = False"
| "pattern_can_fail (IsSequence _ _) = False"
| "pattern_can_fail _ = True"

fun licence_can_fail :: "nat licence_op \<Rightarrow> bool" where
  "licence_can_fail (BuiltinStands _ _) = True"
| "licence_can_fail (ResolveFunction _ _) = True"
| "licence_can_fail (FunctionCallee _ _ _) = True"
| "licence_can_fail _ = False"

fun call_can_fail :: "nat call_op \<Rightarrow> bool" where
  "call_can_fail (CallNative _ _ _ _) = False"
| "call_can_fail _ = True"

fun attribute_can_fail :: "nat attribute_op \<Rightarrow> bool" where
  "attribute_can_fail (GetField _ _ _ _) = False"
| "attribute_can_fail (SetField _ _ _ _ _ _) = False"
| "attribute_can_fail (FieldIsSet _ _ _ _) = False"
| "attribute_can_fail _ = True"

fun namespace_can_fail :: "nat namespace_op \<Rightarrow> bool" where
  "namespace_can_fail (LoadClass _ _) = False"
| "namespace_can_fail (ModuleDict _) = False"
| "namespace_can_fail (LoadEllipsis _) = False"
| "namespace_can_fail _ = True"

fun container_can_fail :: "nat container_op \<Rightarrow> bool" where
  "container_can_fail (TupleBuild _ _ _) = False"
| "container_can_fail (TupleGet _ _ _) = False"
| "container_can_fail _ = True"

fun array_can_fail :: "nat array_op \<Rightarrow> bool" where
  "array_can_fail (ArrayLen _ _) = False"
| "array_can_fail (ArrayRead _ _ _) = False"
| "array_can_fail (ArrayStoreLength _ _) = False"
| "array_can_fail _ = True"

fun control_can_fail :: "nat control_op \<Rightarrow> bool" where
  "control_can_fail (FetchException _) = False"
| "control_can_fail (ExceptionMatches _ _ _) = False"
| "control_can_fail (PushHandled _ _) = False"
| "control_can_fail (PopHandled _) = False"
| "control_can_fail (StopIterationValue _ _) = False"
| "control_can_fail _ = True"

fun kind_can_fail :: "bir_function \<Rightarrow> nat op \<Rightarrow> bool" where
  "kind_can_fail f (ScalarOp x) = scalar_can_fail f x"
| "kind_can_fail f (PlaceOp x) = place_can_fail x"
| "kind_can_fail f (PatternOp x) = pattern_can_fail x"
| "kind_can_fail f (LicenceOp x) = licence_can_fail x"
| "kind_can_fail f (CallOp x) = call_can_fail x"
| "kind_can_fail f (AttributeOp x) = attribute_can_fail x"
| "kind_can_fail f (NamespaceOp x) = namespace_can_fail x"
| "kind_can_fail f (ContainerOp x) = container_can_fail x"
| "kind_can_fail f (ArrayOp x) = array_can_fail x"
| "kind_can_fail f (StrOp _) = True"
| "kind_can_fail f (ControlOp x) = control_can_fail x"

definition op_can_fail :: "module_ir \<Rightarrow> bir_function \<Rightarrow> nat op \<Rightarrow> bool" where
  "op_can_fail m f op \<longleftrightarrow>
     reads_a_maybe_unassigned_local f (operands op) \<or> reads_an_optional_field m op \<or> kind_can_fail f op"

section \<open>The pass\<close>

definition own_can_fail :: "module_ir \<Rightarrow> ustr set \<Rightarrow> bir_function \<Rightarrow> bool" where
  "own_can_fail m recursive f \<longleftrightarrow>
     qualified_name f \<in> recursive
     \<or> list_ex (\<lambda>blk. list_ex (op_can_fail m f) (block_ops blk)
         \<or> reads_a_maybe_unassigned_local f (term_operands (terminator blk))) (blocks f)"

definition called_names :: "bir_function \<Rightarrow> ustr list" where
  "called_names f = filter_map native_callee (concat (map block_ops (blocks f)))"

text \<open>A \<open>HashMap\<close> filled in a loop over the functions keeps what the last of a name gave.\<close>

definition by_name :: "module_ir \<Rightarrow> (bir_function \<Rightarrow> 'a) \<Rightarrow> ustr \<rightharpoonup> 'a" where
  "by_name m g = map_of (rev (map (\<lambda>f. (qualified_name f, g f)) (all_functions m)))"

definition infallible_step :: "(ustr \<rightharpoonup> bool) \<Rightarrow> (ustr \<rightharpoonup> ustr list) \<Rightarrow> ustr \<Rightarrow> ustr set \<Rightarrow> ustr set \<times> bool" where
  "infallible_step own called name infallible =
     (if name \<notin> infallible then (infallible, False)
      else
        let fails = (case own name of Some can_fail \<Rightarrow> can_fail | None \<Rightarrow> True)
              \<or> (case called name of Some names \<Rightarrow> list_ex (\<lambda>c. c \<notin> infallible) names | None \<Rightarrow> True)
        in if fails then (infallible - {name}, True) else (infallible, False))"

definition infallible_names :: "module_ir \<Rightarrow> ustr set \<Rightarrow> ustr set option" where
  "infallible_names m recursive =
     (let names = map qualified_name (all_functions m)
      in settle (infallible_step (by_name m (own_can_fail m recursive)) (by_name m called_names)) names (set names))"

definition with_convention :: "ustr set \<Rightarrow> bir_function \<Rightarrow> bir_function" where
  "with_convention infallible f =
     f\<lparr>convention := if qualified_name f \<in> infallible then NativeInfallible else Native\<rparr>"

definition infallible_run :: "module_ir \<Rightarrow> module_ir option" where
  "infallible_run m =
     (case recursive_functions m of
        None \<Rightarrow> None
      | Some recursive \<Rightarrow>
          map_option (\<lambda>infallible. map_functions (with_convention infallible) m) (infallible_names m recursive))"

section \<open>What can raise\<close>

inductive may_raise :: "module_ir \<Rightarrow> bir_function \<Rightarrow> bool" for m where
  operation: "blk \<in> set (blocks f) \<Longrightarrow> op \<in> set (block_ops blk) \<Longrightarrow> op_can_fail m f op \<Longrightarrow> may_raise m f"
| terminator: "blk \<in> set (blocks f) \<Longrightarrow> reads_a_maybe_unassigned_local f (term_operands (terminator blk)) \<Longrightarrow> may_raise m f"
| recursion: "(qualified_name f, qualified_name f) \<in> (native_calls m)\<^sup>+ \<Longrightarrow> may_raise m f"
| unknown: "x \<in> set (called_names f) \<Longrightarrow> x \<notin> qualified_name ` set (all_functions m) \<Longrightarrow> may_raise m f"
| callee: "qualified_name g \<in> set (called_names f) \<Longrightarrow> g \<in> set (all_functions m) \<Longrightarrow> may_raise m g \<Longrightarrow> may_raise m f"

lemma own_can_fail_iff:
  "own_can_fail m {x. (x, x) \<in> (native_calls m)\<^sup>+} f \<longleftrightarrow>
     (\<exists>blk \<in> set (blocks f). (\<exists>op \<in> set (block_ops blk). op_can_fail m f op)
        \<or> reads_a_maybe_unassigned_local f (term_operands (terminator blk)))
     \<or> (qualified_name f, qualified_name f) \<in> (native_calls m)\<^sup>+"
  by (auto simp: own_can_fail_def list_ex_iff)

lemma may_raise_own: "own_can_fail m {x. (x, x) \<in> (native_calls m)\<^sup>+} f \<Longrightarrow> may_raise m f"
  by (auto simp: own_can_fail_iff intro: may_raise.intros)

lemma by_name_eq:
  assumes "distinct (map qualified_name (all_functions m))" "f \<in> set (all_functions m)"
  shows "by_name m g (qualified_name f) = Some (g f)"
proof -
  have "distinct (map fst (rev (map (\<lambda>f. (qualified_name f, g f)) (all_functions m))))"
    using assms(1) by (simp add: rev_map [symmetric] o_def)
  then show ?thesis unfolding by_name_def by (rule map_of_is_SomeI) (use assms(2) in auto)
qed

text \<open>What the loop holds on to: a function that has been taken away may raise.\<close>

definition condemned_may_raise :: "module_ir \<Rightarrow> ustr set \<Rightarrow> bool" where
  "condemned_may_raise m infallible \<longleftrightarrow>
     infallible \<subseteq> qualified_name ` set (all_functions m)
     \<and> (\<forall>f \<in> set (all_functions m). qualified_name f \<notin> infallible \<longrightarrow> may_raise m f)"

abbreviation own_flags :: "module_ir \<Rightarrow> ustr \<rightharpoonup> bool" where
  "own_flags m \<equiv> by_name m (own_can_fail m {x. (x, x) \<in> (native_calls m)\<^sup>+})"

lemma infallible_step_of:
  assumes "distinct (map qualified_name (all_functions m))" "f \<in> set (all_functions m)"
  shows "infallible_step (own_flags m) (by_name m called_names) (qualified_name f) infallible =
    (if qualified_name f \<in> infallible
        \<and> (own_can_fail m {x. (x, x) \<in> (native_calls m)\<^sup>+} f \<or> \<not> set (called_names f) \<subseteq> infallible)
     then (infallible - {qualified_name f}, True) else (infallible, False))"
  using assms by (auto simp: infallible_step_def by_name_eq list_ex_iff Let_def)

lemma condemned_step:
  assumes "distinct (map qualified_name (all_functions m))" "condemned_may_raise m infallible" "f \<in> set (all_functions m)"
  shows "condemned_may_raise m (fst (infallible_step (own_flags m) (by_name m called_names) (qualified_name f) infallible))"
proof -
  have "may_raise m f" if "c \<in> set (called_names f)" "c \<notin> infallible" for c
  proof (cases "c \<in> qualified_name ` set (all_functions m)")
    case True
    with assms(2) that show ?thesis by (auto simp: condemned_may_raise_def intro: may_raise.callee)
  next
    case False
    with that show ?thesis by (auto intro: may_raise.unknown)
  qed
  moreover have "g = f" if "g \<in> set (all_functions m)" "qualified_name g = qualified_name f" for g
    using assms(1,3) that by (auto simp: distinct_map inj_on_def)
  ultimately show ?thesis
    using assms(2) may_raise_own [of m f] unfolding infallible_step_of [OF assms(1,3)]
    by (auto simp: condemned_may_raise_def)
qed

interpretation infallibility: chaotic_iteration "infallible_step (own_flags m) (by_name m called_names)"
  "map qualified_name (all_functions m)"
  "\<lambda>infallible. distinct (map qualified_name (all_functions m)) \<and> condemned_may_raise m infallible" card for m
proof
  fix infallible name
  assume good: "distinct (map qualified_name (all_functions m)) \<and> condemned_may_raise m infallible"
    and "name \<in> set (map qualified_name (all_functions m))"
  then obtain f where f: "f \<in> set (all_functions m)" "name = qualified_name f" by auto
  let ?step = "infallible_step (own_flags m) (by_name m called_names) name infallible"
  show "distinct (map qualified_name (all_functions m)) \<and> condemned_may_raise m (fst ?step)"
    using good condemned_step [of m infallible f] f by simp
  note step = infallible_step_of [OF conjunct1 [OF good] f(1), of infallible, folded f(2)]
  show "\<not> snd ?step \<Longrightarrow> fst ?step = infallible" by (auto simp: step split: if_splits)
  have "finite infallible" using good by (auto simp: condemned_may_raise_def intro: finite_subset)
  then show "snd ?step \<Longrightarrow> card (fst ?step) < card infallible"
    using card_Diff1_less [of infallible name] by (auto simp: step split: if_splits)
qed

lemma settled_is_exact:
  assumes "infallibility.settled m infallible"
  shows "infallible = qualified_name ` {f \<in> set (all_functions m). \<not> may_raise m f}"
proof -
  have good: "distinct (map qualified_name (all_functions m))" "condemned_may_raise m infallible"
    and still: "f \<in> set (all_functions m) \<Longrightarrow>
      fst (infallible_step (own_flags m) (by_name m called_names) (qualified_name f) infallible) = infallible" for f
    using assms by (auto simp: infallibility.settled_def)
  have "qualified_name f \<notin> infallible" if "may_raise m f" "f \<in> set (all_functions m)" for f
    using that
  proof induction
    case (unknown x f)
    with still [of f] good(2) show ?case
      unfolding infallible_step_of [OF good(1) unknown.prems] by (auto simp: condemned_may_raise_def split: if_splits)
  next
    case (callee g f)
    with still [of f] show ?case unfolding infallible_step_of [OF good(1) callee.prems] by (auto split: if_splits)
  next
    case (recursion f)
    with still [of f] show ?case
      unfolding infallible_step_of [OF good(1) recursion.prems] by (auto simp: own_can_fail_iff split: if_splits)
  next
    case (operation blk f op)
    with still [of f] show ?case
      unfolding infallible_step_of [OF good(1) operation.prems] own_can_fail_iff by (auto split: if_splits)
  next
    case (terminator blk f)
    with still [of f] show ?case
      unfolding infallible_step_of [OF good(1) terminator.prems] own_can_fail_iff by (auto split: if_splits)
  qed
  with good(2) show ?thesis unfolding condemned_may_raise_def by blast
qed

lemma infallible_run_is:
  assumes "distinct (map qualified_name (all_functions m))"
  shows "infallible_run m =
    Some (map_functions (with_convention (qualified_name ` {f \<in> set (all_functions m). \<not> may_raise m f})) m)"
proof -
  have "condemned_may_raise m (set (map qualified_name (all_functions m)))" by (simp add: condemned_may_raise_def)
  with assms obtain infallible where
    "settle (infallible_step (own_flags m) (by_name m called_names)) (map qualified_name (all_functions m))
       (set (map qualified_name (all_functions m))) = Some infallible"
    "infallibility.settled m infallible"
    using infallibility.settles [of m] by blast
  with settled_is_exact [of m infallible] show ?thesis
    by (simp add: infallible_run_def recursive_functions_are [OF assms] infallible_names_def)
qed

section \<open>A machine that raises where the pass says\<close>

text \<open>
  What the emitted C promises the pass: an operation raises only if the pass says that its kind can,
  and a native call only if the function it calls does, or if there is none in the module.
\<close>

definition raises_as_said :: "('v, 'w) machine \<Rightarrow> module_ir \<Rightarrow> bool" where
  "raises_as_said M m \<longleftrightarrow>
     (\<forall>f \<in> set (all_functions m). \<forall>blk \<in> set (blocks f). \<forall>op \<in> set (block_ops blk). \<forall>env w c w'.
        attempt M op env w = Fails c w' \<longrightarrow>
          op_can_fail m f op
          \<or> (\<exists>x. native_callee op = Some x \<and> x \<notin> qualified_name ` set (all_functions m))
          \<or> (\<exists>g \<in> set (all_functions m). native_callee op = Some (qualified_name g)
               \<and> (\<exists>n args w1 w2. call M g n args w1 = Raised w2)))"

definition without_handlers :: "bir_function \<Rightarrow> bir_function" where
  "without_handlers f = f\<lparr>blocks := map (\<lambda>blk. blk\<lparr>error_target := None\<rparr>) (blocks f)\<rparr>"

definition never_fails :: "('v, 'w) machine \<Rightarrow> bir_function \<Rightarrow> bool" where
  "never_fails M f \<longleftrightarrow> (\<forall>blk \<in> set (blocks f). \<forall>op \<in> set (block_ops blk). \<forall>env w c w'. attempt M op env w \<noteq> Fails c w')"

lemma run_ops_succeeds:
  assumes "\<And>op env w c w'. op \<in> set ops \<Longrightarrow> attempt M op env w \<noteq> Fails c w'"
  shows "\<exists>s'. run_ops M ops s = Inr s'"
  using assms
proof (induction ops arbitrary: s)
  case (Cons op ops)
  obtain env w where "s = (env, w)" by fastforce
  moreover obtain v c w' where "attempt M op env w = Done v c w'"
    using Cons.prems [of op env w] by (cases "attempt M op env w") auto
  ultimately show ?case using Cons by (simp add: exec_op_def Let_def)
qed simp

lemma never_fails_runs:
  assumes "never_fails M f"
  shows "run_blocks M f n b s \<noteq> Raised w \<and> run_blocks M (without_handlers f) n b s = run_blocks M f n b s"
proof (induction n arbitrary: b s)
  case (Suc n)
  show ?case
  proof (cases "block_at f b")
    case (Some blk)
    then have "blk \<in> set (blocks f)" by (auto simp: block_at_def dest: get_SomeD)
    then obtain env w where "run_ops M (block_ops blk) s = Inr (env, w)"
      using run_ops_succeeds [of "block_ops blk" M s] assms by (fastforce simp: never_fails_def)
    moreover have "block_at (without_handlers f) b = Some (blk\<lparr>error_target := None\<rparr>)"
      using Some by (simp add: block_at_def without_handlers_def get_map)
    ultimately show ?thesis using Some Suc by (auto split: exit.split)
  qed (simp add: block_at_def without_handlers_def get_map)
qed simp

lemma call_with_convention [simp]: "call M (with_convention S f) n args w = call M f n args w"
proof -
  have blocks: "block_at (with_convention S f) b = block_at f b" for b by (simp add: block_at_def with_convention_def)
  have "run_blocks M (with_convention S f) n b s = run_blocks M f n b s" for b s
    by (induction n arbitrary: b s) (simp_all add: blocks cong: exit.case_cong option.case_cong sum.case_cong prod.case_cong)
  moreover have "start M (with_convention S f) args = start M f args" by (simp add: start_def with_convention_def fun_eq_iff)
  ultimately show ?thesis by (simp add: call_def)
qed

text \<open>Calls from functions that cannot raise do not go in circles, so there is an order to argue in.\<close>

lemma native_call_pair:
  assumes "f \<in> set (all_functions m)" "g \<in> set (all_functions m)" "blk \<in> set (blocks f)" "op \<in> set (block_ops blk)"
    "native_callee op = Some (qualified_name g)"
  shows "(qualified_name f, qualified_name g) \<in> native_calls m" "qualified_name g \<in> set (called_names f)"
proof -
  show "(qualified_name f, qualified_name g) \<in> native_calls m" using assms by (auto simp: native_calls_def)
  show "qualified_name g \<in> set (called_names f)" using assms by (auto simp: called_names_def set_filter_map)
qed

lemma wf_infallible_calls:
  "wf {(b, a). (a, b) \<in> native_calls m \<and> (a, a) \<notin> (native_calls m)\<^sup>+}" (is "wf ?R")
proof (rule finite_acyclic_wf)
  have "native_calls m \<subseteq> qualified_name ` set (all_functions m) \<times> qualified_name ` set (all_functions m)"
    by (auto simp: native_calls_def)
  then have "finite (native_calls m)" by (rule finite_subset) simp
  moreover have "?R \<subseteq> (native_calls m)\<inverse>" by auto
  ultimately show "finite ?R" by (meson finite_converse finite_subset)
  show "acyclic ?R" unfolding acyclic_def
  proof
    fix x
    show "(x, x) \<notin> ?R\<^sup>+"
    proof
      assume cycle: "(x, x) \<in> ?R\<^sup>+"
      then have "(x, x) \<in> ((native_calls m)\<inverse>)\<^sup>+" by (rule trancl_mono) auto
      then have "(x, x) \<in> (native_calls m)\<^sup>+" by (simp add: trancl_converse)
      moreover obtain y where "(y, x) \<in> ?R" using tranclD2 [OF cycle] by blast
      ultimately show False by simp
    qed
  qed
qed

lemma infallible_never_fails:
  assumes "raises_as_said M m" "f \<in> set (all_functions m)" "\<not> may_raise m f"
  shows "never_fails M f"
  using assms(2,3)
proof (induction "qualified_name f" arbitrary: f rule: wf_induct_rule [OF wf_infallible_calls [of m]])
  case (1 f)
  have "attempt M op env w \<noteq> Fails c w'" if at: "blk \<in> set (blocks f)" "op \<in> set (block_ops blk)" for blk op env w c w'
  proof
    assume "attempt M op env w = Fails c w'"
    then consider "op_can_fail m f op" | x where "native_callee op = Some x" "x \<notin> qualified_name ` set (all_functions m)"
      | g n args w1 w2 where "g \<in> set (all_functions m)" "native_callee op = Some (qualified_name g)" "call M g n args w1 = Raised w2"
      using assms(1) 1(2) at unfolding raises_as_said_def by blast
    then show False
    proof cases
      case 1
      with at \<open>\<not> may_raise m f\<close> show False by (auto intro: may_raise.operation)
    next
      case 2
      with at \<open>\<not> may_raise m f\<close> show False by (auto intro!: may_raise.unknown simp: called_names_def set_filter_map)
    next
      case 3
      note call = native_call_pair [OF 1(2) 3(1) at 3(2)]
      then have "\<not> may_raise m g" using \<open>\<not> may_raise m f\<close> 3(1) by (auto intro: may_raise.callee)
      moreover have "(qualified_name f, qualified_name f) \<notin> (native_calls m)\<^sup>+"
        using \<open>\<not> may_raise m f\<close> by (auto intro: may_raise.recursion)
      ultimately have "never_fails M g" using 1(1) [of g] call(1) 3(1) by simp
      from never_fails_runs [OF this] 3(3) show False by (auto simp: call_def)
    qed
  qed
  then show ?case by (auto simp: never_fails_def)
qed

section \<open>Properties\<close>

lemma map_functions_cong:
  "(\<And>f. f \<in> set (all_functions m) \<Longrightarrow> g f = h f) \<Longrightarrow> map_functions g m = map_functions h m"
proof -
  assume same: "\<And>f. f \<in> set (all_functions m) \<Longrightarrow> g f = h f"
  then have "map g (methods c) = map h (methods c)" if "c \<in> set (mod_classes m)" for c
    using that by (auto simp: all_functions_def)
  moreover have "map g (mod_functions m) = map h (mod_functions m)" using same by (simp add: all_functions_def)
  ultimately show ?thesis by (simp add: map_functions_def cong: map_cong)
qed

text \<open>
  C28. The pass returns on every module whose functions have different qualified names, and marks as
  infallible exactly the functions from which no chain of native calls leads to one that can raise:
  by an operation of its own, by a read of a local or a field that may be missing, by calling itself
  around, or by calling what the module does not have.
\<close>

theorem infallible_exact:
  assumes "distinct (map qualified_name (all_functions m))"
  shows "infallible_run m =
    Some (map_functions (\<lambda>f. f\<lparr>convention := if may_raise m f then Native else NativeInfallible\<rparr>) m)"
proof -
  have "qualified_name f \<in> qualified_name ` {f \<in> set (all_functions m). \<not> may_raise m f} \<longleftrightarrow> \<not> may_raise m f"
    if "f \<in> set (all_functions m)" for f
    using assms that by (auto simp: distinct_map inj_on_def)
  then show ?thesis
    unfolding infallible_run_is [OF assms] by (auto intro!: map_functions_cong simp: with_convention_def)
qed

definition leaf_and_main :: module_ir where
  "leaf_and_main = \<lparr>mod_functions = [calling ''main'' [''leaf''], calling ''leaf'' [], calling ''loop'' [''loop'']], mod_classes = []\<rparr>"

lemma leaf_and_main_distinct: "distinct (map qualified_name (all_functions leaf_and_main))"
  by code_simp

lemma leaf_and_main_run:
  "map_option (\<lambda>n. map convention (all_functions n)) (infallible_run leaf_and_main) = Some [NativeInfallible, NativeInfallible, Native]"
  by code_simp

theorem infallible_exact_witness:
  "infallible_run leaf_and_main =
     Some (map_functions (\<lambda>f. f\<lparr>convention := if may_raise leaf_and_main f then Native else NativeInfallible\<rparr>) leaf_and_main)
   \<and> map_option (\<lambda>n. map convention (all_functions n)) (infallible_run leaf_and_main) = Some [NativeInfallible, NativeInfallible, Native]"
  using infallible_exact [OF leaf_and_main_distinct] leaf_and_main_run by blast

text \<open>
  C6. On a machine that raises only where the pass says an operation can, and at a native call only if
  the function called raises, a function marked infallible never raises and never enters a handler:
  without its exception edges it gives the same answer after every number of blocks.
\<close>

theorem infallible_functions_never_raise:
  assumes "distinct (map qualified_name (all_functions m))" "raises_as_said M m" "infallible_run m = Some n"
    "f \<in> set (all_functions n)" "convention f = NativeInfallible"
  shows "call M f k args w \<noteq> Raised w' \<and> call M (without_handlers f) k args w = call M f k args w"
proof -
  let ?S = "qualified_name ` {f \<in> set (all_functions m). \<not> may_raise m f}"
  obtain old where old: "old \<in> set (all_functions m)" "f = with_convention ?S old"
    using assms(3,4) by (auto simp: infallible_run_is [OF assms(1)] all_functions_map_functions)
  then have "qualified_name old \<in> ?S" using assms(5) by (auto simp: with_convention_def split: if_splits)
  then have "\<not> may_raise m old" using assms(1) old(1) by (auto simp: distinct_map inj_on_def)
  from infallible_never_fails [OF assms(2) old(1) this] have "never_fails M f"
    by (simp add: never_fails_def old(2) with_convention_def)
  from never_fails_runs [OF this] show ?thesis by (simp add: call_def start_def [abs_def] without_handlers_def)
qed

theorem infallible_functions_never_raise_witness:
  "\<exists>n f. infallible_run leaf_and_main = Some n \<and> f \<in> set (all_functions n) \<and> fn_name f = lit ''main''
     \<and> convention f = NativeInfallible \<and> call text_machine f 1 (\<lambda>_. []) 0 \<noteq> Raised 0
     \<and> call text_machine (without_handlers f) 1 (\<lambda>_. []) 0 = call text_machine f 1 (\<lambda>_. []) 0"
proof -
  have "raises_as_said text_machine leaf_and_main"
    unfolding raises_as_said_def
    by (auto simp: leaf_and_main_def all_functions_def calling_def attempt_def text_machine_def shape_def)
  note safe = infallible_functions_never_raise [OF leaf_and_main_distinct this]
  obtain n where n: "infallible_run leaf_and_main = Some n" using leaf_and_main_run by auto
  with leaf_and_main_run have conv: "map convention (all_functions n) = [NativeInfallible, NativeInfallible, Native]" by simp
  let ?f = "all_functions n ! 0"
  have "length (all_functions n) = 3" using arg_cong [OF conv, of length] by simp
  then have f: "?f \<in> set (all_functions n)" by (intro nth_mem) simp
  moreover have "convention ?f = NativeInfallible" using conv \<open>length _ = 3\<close> by (cases "all_functions n") auto
  moreover have "fn_name ?f = lit ''main''"
    using n by (auto simp: infallible_run_def all_functions_map_functions with_convention_def leaf_and_main_def all_functions_def
        calling_def map_functions_def split: option.splits)
  ultimately show ?thesis using n safe [OF n f] by blast
qed

end
