(* ===== verification/Opt_Segments.thy ===== *)
theory Opt_Segments
  imports Opt_Retarget
begin

text \<open>
  Rewriting a run of operations piece by piece. Two runs of operations are \<open>alike_but T\<close> if, from
  environments that agree outside \<open>T\<close>, both fail or both go on, in the same world, to environments
  that agree outside \<open>T\<close>. Runs put together from such pieces are alike again, and a function whose
  blocks are rewritten so, and that looks at \<open>T\<close> nowhere when it leaves a block, behaves as it did.
\<close>

definition alike_but :: "('v, 'w) machine \<Rightarrow> register_id set \<Rightarrow> nat op list \<Rightarrow> nat op list \<Rightarrow> bool" where
  "alike_but M T xs ys \<longleftrightarrow>
     (\<forall>env env' w. (\<forall>r. r \<notin> T \<longrightarrow> env' r = env r) \<longrightarrow>
        rel_sum (agrees_but T) (agrees_but T) (run_ops M xs (env, w)) (run_ops M ys (env', w)))"

lemma run_ops_append:
  "run_ops M (xs @ ys) s = (case run_ops M xs s of Inl s' \<Rightarrow> Inl s' | Inr s' \<Rightarrow> run_ops M ys s')"
  by (induction xs arbitrary: s) (auto split: sum.split)

lemma alike_but_Nil [simp, intro]: "alike_but M T [] []"
  by (simp add: alike_but_def)

lemma alike_but_append:
  assumes "alike_but M T xs ys" "alike_but M T xs' ys'"
  shows "alike_but M T (xs @ xs') (ys @ ys')"
  unfolding alike_but_def
proof (intro allI impI)
  fix env env' :: "register_id \<Rightarrow> 'a" and w
  assume agree: "\<forall>r. r \<notin> T \<longrightarrow> env' r = env r"
  have first: "rel_sum (agrees_but T) (agrees_but T) (run_ops M xs (env, w)) (run_ops M ys (env', w))"
    using assms(1) agree unfolding alike_but_def by blast
  then show "rel_sum (agrees_but T) (agrees_but T) (run_ops M (xs @ xs') (env, w)) (run_ops M (ys @ ys') (env', w))"
    unfolding run_ops_append
  proof (cases rule: rel_sum.cases)
    case (2 s s')
    then have "rel_sum (agrees_but T) (agrees_but T) (run_ops M xs' (fst s, snd s)) (run_ops M ys' (fst s', snd s))"
      using assms(2) unfolding alike_but_def by (cases s; cases s') auto
    with 2 show "rel_sum (agrees_but T) (agrees_but T) (case run_ops M xs (env, w) of Inl s' \<Rightarrow> Inl s' | Inr s' \<Rightarrow> run_ops M xs' s')
        (case run_ops M ys (env', w) of Inl s' \<Rightarrow> Inl s' | Inr s' \<Rightarrow> run_ops M ys' s')"
      by (cases s; cases s') auto
  qed auto
qed

lemma alike_but_same:
  assumes "\<And>op r. op \<in> set ops \<Longrightarrow> r \<in> looks_at op \<Longrightarrow> r \<notin> T"
  shows "alike_but M T ops ops"
  unfolding alike_but_def
proof (intro allI impI)
  fix env env' :: "register_id \<Rightarrow> 'a" and w
  assume "\<forall>r. r \<notin> T \<longrightarrow> env' r = env r"
  then show "rel_sum (agrees_but T) (agrees_but T) (run_ops M ops (env, w)) (run_ops M ops (env', w))"
    using assms by (intro run_ops_agree) auto
qed

lemma alike_but_Cons:
  assumes "\<And>r. r \<in> looks_at op \<Longrightarrow> r \<notin> T" "alike_but M T xs ys"
  shows "alike_but M T (op # xs) (op # ys)"
  using alike_but_append [OF alike_but_same [of "[op]"] assms(2)] assms(1) by simp

lemma alike_but_mono_refl: "alike_but M T xs ys \<Longrightarrow> (\<And>r. r \<notin> T \<Longrightarrow> env' r = env r) \<Longrightarrow>
    rel_sum (agrees_but T) (agrees_but T) (run_ops M xs (env, w)) (run_ops M ys (env', w))"
  by (simp add: alike_but_def)

text \<open>A block, and a function, rewritten so.\<close>

definition rewritten_block :: "('v, 'w) machine \<Rightarrow> register_id set \<Rightarrow> basic_block \<Rightarrow> basic_block \<Rightarrow> bool" where
  "rewritten_block M T old new \<longleftrightarrow>
     alike_but M T (block_ops old) (block_ops new) \<and> terminator new = terminator old \<and> error_target new = error_target old
     \<and> (\<forall>r. Register r \<in> set (term_operands (terminator old)) \<longrightarrow> r \<notin> T)"

lemma rewritten_block_simulates:
  assumes "rewritten_block M T old new"
  shows "block_simulates M (\<lambda>_ e e'. \<forall>r. r \<notin> T \<longrightarrow> e' r = e r) b old new"
  unfolding block_simulates_def
proof (intro conjI allI impI)
  fix env env' :: "register_id \<Rightarrow> 'a" and w
  assume "\<forall>r. r \<notin> T \<longrightarrow> env' r = env r"
  then have rel: "rel_sum (agrees_but T) (agrees_but T) (run_ops M (block_ops old) (env, w)) (run_ops M (block_ops new) (env', w))"
    using assms by (intro alike_but_mono_refl) (auto simp: rewritten_block_def)
  have "exits_alike (\<lambda>_ e e'. \<forall>r. r \<notin> T \<longrightarrow> e' r = e r) (leave M (terminator old) e) (leave M (terminator new) e')"
    if "\<forall>r. r \<notin> T \<longrightarrow> e' r = e r" for e e'
    using leave_agrees [of "terminator old" T e' e M] that assms by (simp add: rewritten_block_def)
  then show "rel_sum (\<lambda>(e, w) (e', w'). w = w' \<and> (\<forall>h. error_target old = Some h \<longrightarrow> (\<forall>r. r \<notin> T \<longrightarrow> e' r = e r)))
      (\<lambda>(e, w) (e', w'). w = w' \<and> exits_alike (\<lambda>_ e e'. \<forall>r. r \<notin> T \<longrightarrow> e' r = e r) (leave M (terminator old) e) (leave M (terminator new) e'))
      (run_ops M (block_ops old) (env, w)) (run_ops M (block_ops new) (env', w))"
    by (auto intro!: rel_sum_weaken [OF rel])
qed (use assms in \<open>simp add: rewritten_block_def\<close>)

lemma rewritten_function_behaves:
  assumes "list_all2 (rewritten_block M T) (blocks f) (blocks g)" "param_count g = param_count f"
  shows "call M g n args w = call M f n args w"
proof -
  have "rel_option (block_simulates M (\<lambda>_ e e'. \<forall>r. r \<notin> T \<longrightarrow> e' r = e r) b) (block_at f b) (block_at g b)" for b
    using assms(1) rewritten_block_simulates [of M T]
    by (auto simp: block_at_def get_def list_all2_conv_all_nth)
  moreover have "start M g args = start M f args" using assms(2) by (simp add: start_def fun_eq_iff)
  ultimately show ?thesis unfolding call_def by (intro same_answers [where R = "\<lambda>_ e e'. \<forall>r. r \<notin> T \<longrightarrow> e' r = e r"]) auto
qed

lemma mapped_function_behaves:
  assumes "\<And>blk. blk \<in> set (blocks f) \<Longrightarrow> rewritten_block M T blk (g blk)"
  shows "call M (f\<lparr>blocks := map g (blocks f)\<rparr>) n args w = call M f n args w"
  by (rule rewritten_function_behaves [where T = T]) (use assms in \<open>auto simp: list_all2_conv_all_nth\<close>)

text \<open>Outcomes that are alike but for the loop cursor, where there is none.\<close>

definition same_result :: "('v, 'w) outcome \<Rightarrow> ('v, 'w) outcome \<Rightarrow> bool" where
  "same_result x y =
     (case (x, y) of
        (Done v _ w, Done v' _ w') \<Rightarrow> v = v' \<and> w = w'
      | (Fails _ w, Fails _ w') \<Rightarrow> w = w'
      | _ \<Rightarrow> False)"

lemma same_result_refl [simp]: "same_result x x"
  by (cases x) (auto simp: same_result_def)

text \<open>Executing an operation whose attempt is known; no cursor is written where there is none.\<close>

lemma exec_plain:
  assumes "loop_cursor op = None" "emptied op = []"
  shows "exec_op M op (env, w) =
    (case attempt M op env w of Done v _ w' \<Rightarrow> Inr (write_to (dest op) v env, w') | Fails _ w' \<Rightarrow> Inl (env, w'))"
  using assms by (simp add: exec_op_def write_to_def empty_at_def split: outcome.splits)

end
