(* ===== verification/Opt_StrItemCompare.thy ===== *)
theory Opt_StrItemCompare
  imports Opt_Segments
begin

text \<open>
  \<^verbatim>\<open>by_opt/src/str_item_compare.rs\<close>: the read of a character of a string, followed by a comparison with a
  literal of one code point that is its only reader, becomes one operation. On a machine whose fused
  operation reads and then compares, the pass changes no answer, if no \<open>del\<close> is of a character it
  fuses away. That a \<open>del\<close> reads its register is not counted, and a function is given whose answer the
  pass changes.
\<close>

section \<open>The pass\<close>

definition or_0 :: "nat option \<Rightarrow> nat" where
  "or_0 x = (case x of Some n \<Rightarrow> n | None \<Rightarrow> 0)"

definition note_read :: "nat val \<Rightarrow> (register_id \<rightharpoonup> nat) \<Rightarrow> register_id \<rightharpoonup> nat" where
  "note_read v counts = (case register v of Some r \<Rightarrow> counts(r \<mapsto> or_0 (counts r) + 1) | None \<Rightarrow> counts)"

definition read_counts :: "bir_function \<Rightarrow> register_id \<rightharpoonup> nat" where
  "read_counts f = fold note_read (all_operands f) Map.empty"

fun mirrored :: "cmp_op \<Rightarrow> cmp_op" where
  "mirrored CmpEq = CmpEq"
| "mirrored CmpNe = CmpNe"
| "mirrored CmpLt = CmpGt"
| "mirrored CmpLe = CmpGe"
| "mirrored CmpGt = CmpLt"
| "mirrored CmpGe = CmpLe"

fun sole_character :: "ustr \<Rightarrow> nat option" where
  "sole_character [c] = Some c"
| "sole_character _ = None"

text \<open>Which side the read is on; on the left the literal asks the mirrored question.\<close>

definition literal_side :: "register_id \<Rightarrow> cmp_op \<Rightarrow> nat val \<Rightarrow> nat val \<Rightarrow> (cmp_op \<times> nat val) option" where
  "literal_side character oper lhs rhs =
     (if lhs = Register character then Some (oper, rhs)
      else if rhs = Register character then Some (mirrored oper, lhs)
      else None)"

definition fusion :: "(register_id \<rightharpoonup> nat) \<Rightarrow> nat op \<Rightarrow> nat op \<Rightarrow> nat op option" where
  "fusion reads op next =
     (case (op, next) of
        (StrOp (StrGetItem character container index), ScalarOp (StrCompare d oper lhs rhs)) \<Rightarrow>
          if or_0 (reads character) \<noteq> 1 \<or> d = character then None
          else (case literal_side character oper lhs rhs of
                  Some (oper', VStr txt) \<Rightarrow>
                    map_option (\<lambda>c. StrOp (StrItemCompare d oper' container index c)) (sole_character txt)
                | _ \<Rightarrow> None)
      | _ \<Rightarrow> None)"

fun fuse_ops :: "(register_id \<rightharpoonup> nat) \<Rightarrow> nat op list \<Rightarrow> nat op list" where
  "fuse_ops reads (op # next # rest) =
     (case fusion reads op next of
        Some fused \<Rightarrow> fused # fuse_ops reads rest
      | None \<Rightarrow> op # fuse_ops reads (next # rest))"
| "fuse_ops reads ops = ops"

definition fuse :: "bir_function \<Rightarrow> bir_function" where
  "fuse f = f\<lparr>blocks := map (\<lambda>blk. blk\<lparr>block_ops := fuse_ops (read_counts f) (block_ops blk)\<rparr>) (blocks f)\<rparr>"

definition str_item_compare_run :: "module_ir \<Rightarrow> module_ir" where
  "str_item_compare_run = map_functions fuse"

section \<open>What it counts\<close>

lemma or_0_simps [simp]: "or_0 None = 0" "or_0 (Some n) = n"
  by (simp_all add: or_0_def)






section \<open>What the machine does\<close>



section \<open>What it fuses\<close>









section \<open>A machine to look at\<close>







section \<open>Properties\<close>




end
