(* ===== verification/Opt_DeadAllocations.thy ===== *)
theory Opt_DeadAllocations
  imports Opt_Segments Opt_Infallible
begin

text \<open>
  \<^verbatim>\<open>by_opt/src/dead_allocations.rs\<close>: dropping what is computed and never read. A tuple nothing reads is
  first held as the struct of its unboxed elements; then operations that only compute go, round by
  round, where nothing reads their result. The rounds are shown to end, and the pass to change no
  answer on a machine where such an operation gives a value and does nothing else. A read of a field
  that not every instance has is not such an operation, and a function is given whose answer the pass
  changes.
\<close>

section \<open>Tuples nothing reads\<close>

definition registers_in :: "nat val list \<Rightarrow> register_id list" where
  "registers_in vs = filter_map register vs"

definition default_values :: "bir_function \<Rightarrow> nat val list" where
  "default_values f = filter_map id (defaults f)"

definition mentioned_in :: "bir_function \<Rightarrow> register_id list" where
  "mentioned_in f =
     concat (map (\<lambda>blk. concat (map (\<lambda>op. registers_in (operands op) @ option_list (unbinds op) @ option_list (loop_cursor op))
         (block_ops blk)) @ registers_in (term_operands (terminator blk))) (blocks f))
     @ registers_in (default_values f)"

definition boxed_in_block :: "nat op list \<Rightarrow> register_id \<Rightarrow> nat val option" where
  "boxed_in_block before r =
     (case List.find (\<lambda>i. dest (before ! i) = Some r) (rev [0..<length before]) of
        None \<Rightarrow> None
      | Some at \<Rightarrow>
          (case before ! at of
             PlaceOp (Box _ src) \<Rightarrow>
               (case register src of
                  Some source \<Rightarrow>
                    if list_ex (\<lambda>op. dest op = Some source \<or> unbinds op = Some source) (drop (at + 1) before) then None
                    else Some src
                | None \<Rightarrow> Some src)
           | _ \<Rightarrow> None))"

definition boxed_item_of :: "nat op list \<Rightarrow> nat val \<Rightarrow> nat val option" where
  "boxed_item_of before item = (case register item of Some r \<Rightarrow> boxed_in_block before r | None \<Rightarrow> None)"

definition unboxed_display ::
    "bir_function \<Rightarrow> nat op list \<Rightarrow> register_id \<Rightarrow> nat val list \<Rightarrow> nat list \<Rightarrow> (rtype \<times> nat op) option" where
  "unboxed_display f before d items moves =
     (let unboxed = map (\<lambda>item. case boxed_item_of before item of Some src \<Rightarrow> src | None \<Rightarrow> item) items;
          kept_moves = filter (\<lambda>i. i \<in> set moves \<and> boxed_item_of before (items ! i) = None) [0..<length items]
      in if list_all (\<lambda>item. boxed_item_of before item = None) items then None
         else if list_ex (\<lambda>item. value_type f item = None) unboxed then None
         else Some (Tuple (map (\<lambda>item. the (value_type f item)) unboxed), ContainerOp (TupleBuild d unboxed kept_moves)))"

type_synonym rewrite = "rtype \<times> (nat \<times> nat \<times> nat op) list"

definition candidate :: "bir_function \<Rightarrow> nat op \<Rightarrow> register_id option" where
  "candidate f op =
     (case dest op of
        None \<Rightarrow> None
      | Some d \<Rightarrow>
          if d < param_count f \<or> d \<in> set (mentioned_in f)
            \<or> (case register_at f d of
                 None \<Rightarrow> True
               | Some decl \<Rightarrow> may_be_unassigned decl \<or> (decl_ty decl \<noteq> TObject \<and> decl_ty decl \<noteq> Primitive PTuple))
          then None else Some d)"

definition display_of :: "bir_function \<Rightarrow> nat op list \<Rightarrow> nat op \<Rightarrow> (rtype \<times> nat op) option" where
  "display_of f before op =
     (case op of ContainerOp (BuildTuple d items moves) \<Rightarrow> unboxed_display f before d items moves | _ \<Rightarrow> None)"

text \<open>\<open>None\<close> once a write disagrees or cannot be rewritten.\<close>

definition note_display :: "nat \<times> nat \<Rightarrow> (rtype \<times> nat op) option \<Rightarrow> rewrite option \<Rightarrow> rewrite option" where
  "note_display = (\<lambda>(b, at) display slot.
     case (slot, display) of
       (Some (ty, ops), Some (tuple, op)) \<Rightarrow>
         if ops = [] then Some (tuple, [(b, at, op)])
         else if ty \<noteq> tuple then None
         else Some (ty, ops @ [(b, at, op)])
     | _ \<Rightarrow> None)"

definition note_op :: "bir_function \<Rightarrow> nat \<Rightarrow> nat op list \<Rightarrow> nat \<Rightarrow> (register_id \<rightharpoonup> rewrite option) \<Rightarrow> register_id \<rightharpoonup> rewrite option" where
  "note_op f b ops at rewrites =
     (case candidate f (ops ! at) of
        None \<Rightarrow> rewrites
      | Some d \<Rightarrow>
          rewrites(d \<mapsto> note_display (b, at) (display_of f (take at ops) (ops ! at))
            (case rewrites d of Some slot \<Rightarrow> slot | None \<Rightarrow> Some (TObject, []))))"

definition display_rewrites :: "bir_function \<Rightarrow> register_id \<rightharpoonup> rewrite option" where
  "display_rewrites f =
     fold (\<lambda>(b, blk). fold (note_op f b (block_ops blk)) [0..<length (block_ops blk)]) (enumerate 0 (blocks f)) Map.empty"

definition set_op :: "nat \<times> nat \<times> nat op \<Rightarrow> bir_function \<Rightarrow> bir_function" where
  "set_op = (\<lambda>(b, at, op) f. f\<lparr>blocks := (blocks f)[b := (blocks f ! b)\<lparr>block_ops := (block_ops (blocks f ! b))[at := op]\<rparr>]\<rparr>)"

definition apply_rewrite :: "(register_id \<rightharpoonup> rewrite option) \<Rightarrow> register_id \<Rightarrow> bir_function \<Rightarrow> bir_function" where
  "apply_rewrite rewrites r f =
     (case rewrites r of
        Some (Some (ty, ops)) \<Rightarrow>
          if ops = [] then f
          else (let f = fold set_op ops f in f\<lparr>registers := (registers f)[r := (registers f ! r)\<lparr>decl_ty := ty\<rparr>]\<rparr>)
      | _ \<Rightarrow> f)"

definition unbox_unread_tuples :: "bir_function \<Rightarrow> bir_function" where
  "unbox_unread_tuples f = fold (apply_rewrite (display_rewrites f)) [0..<length (registers f)] f"

section \<open>Registers whose release runs nothing\<close>

definition value_free :: "register_id set \<Rightarrow> nat val \<Rightarrow> bool" where
  "value_free free v = (case register v of Some r \<Rightarrow> r \<in> free | None \<Rightarrow> True)"

definition builds_free :: "register_id set \<Rightarrow> nat op \<Rightarrow> bool" where
  "builds_free free op =
     (case op of
        ScalarOp (Assign _ src) \<Rightarrow> value_free free src
      | PlaceOp (Box _ src) \<Rightarrow> value_free free src
      | ContainerOp (BuildTuple _ items _) \<Rightarrow> list_all (value_free free) items
      | ContainerOp (TupleBuild _ items _) \<Rightarrow> list_all (value_free free) items
      | _ \<Rightarrow> False)"

definition free_step :: "bir_function \<Rightarrow> register_id \<Rightarrow> register_id set \<Rightarrow> register_id set \<times> bool" where
  "free_step f r free =
     (let writes = filter (\<lambda>op. dest op = Some r) (all_ops f)
      in if r \<notin> free \<and> writes \<noteq> [] \<and> list_all (builds_free free) writes then (insert r free, True) else (free, False))"

definition finalizer_free :: "bir_function \<Rightarrow> register_id set option" where
  "finalizer_free f =
     settle (free_step f) [param_count f..<length (registers f)]
       (set (filter (\<lambda>r. \<not> holds_object_reference (decl_ty (registers f ! r))) [0..<length (registers f)]))"

section \<open>Dropping what nothing reads\<close>

fun computes_only :: "nat op \<Rightarrow> bool" where
  "computes_only (ScalarOp (Assign _ _)) = True"
| "computes_only (PlaceOp (Box _ _)) = True"
| "computes_only (ContainerOp (BuildTuple _ _ _)) = True"
| "computes_only (ContainerOp (TupleBuild _ _ _)) = True"
| "computes_only (ContainerOp (TupleGet _ _ _)) = True"
| "computes_only (AttributeOp (GetField _ _ _ _)) = True"
| "computes_only _ = False"

definition read_in :: "bir_function \<Rightarrow> register_id list" where
  "read_in f = registers_in (all_operands f) @ registers_in (default_values f)"

definition observable :: "bir_function \<Rightarrow> register_id set \<Rightarrow> register_id \<Rightarrow> bool" where
  "observable f free r =
     (case register_at f r of
        Some decl \<Rightarrow> may_be_unassigned decl \<or> (decl_name decl \<noteq> None \<and> r \<notin> free)
      | None \<Rightarrow> False)"

definition holds_its_elements :: "register_id set \<Rightarrow> nat op \<Rightarrow> bool" where
  "holds_its_elements free op =
     (case op of
        ContainerOp (TupleBuild d _ _) \<Rightarrow> d \<notin> free
      | ContainerOp (BuildTuple d _ _) \<Rightarrow> d \<notin> free
      | _ \<Rightarrow> False)"

definition kept_op :: "bir_function \<Rightarrow> register_id set \<Rightarrow> nat op \<Rightarrow> bool" where
  "kept_op f free op \<longleftrightarrow>
     \<not> computes_only op \<or> holds_its_elements free op
     \<or> (case dest op of Some d \<Rightarrow> d \<in> set (read_in f) \<or> observable f free d | None \<Rightarrow> True)"

definition drop_unread :: "bir_function \<Rightarrow> (bir_function \<times> bool) option" where
  "drop_unread f =
     map_option (\<lambda>free.
       let blocks' = map (\<lambda>blk. blk\<lparr>block_ops := filter (kept_op f free) (block_ops blk)\<rparr>) (blocks f)
       in (f\<lparr>blocks := blocks'\<rparr>,
           list_ex (\<lambda>(blk, blk'). length (block_ops blk') \<noteq> length (block_ops blk)) (zip (blocks f) blocks')))
     (finalizer_free f)"

definition drop_all_unread :: "bir_function \<Rightarrow> bir_function option" where
  "drop_all_unread f =
     Option.bind (while_option (\<lambda>s. case s of Some (_, dropped) \<Rightarrow> dropped | None \<Rightarrow> False)
       (\<lambda>s. Option.bind s (\<lambda>(f, _). drop_unread f)) (Some (f, True))) (map_option fst)"

definition dead_allocations :: "bir_function \<Rightarrow> bir_function option" where
  "dead_allocations f = drop_all_unread (unbox_unread_tuples f)"

definition dead_allocations_run :: "module_ir \<Rightarrow> module_ir option" where
  "dead_allocations_run = try_functions dead_allocations"

section \<open>The registers are found\<close>



section \<open>A machine where computing does nothing else\<close>


text \<open>
  What the pass relies on of a function: what it may drop gives no reference away and reads no field
  that may be missing, a local a \<open>del\<close> unbinds carries its flag, and a loop cursor is written by loop
  operations only.
\<close>

definition flagged :: "bir_function \<Rightarrow> register_id \<Rightarrow> bool" where
  "flagged f r = (case register_at f r of Some decl \<Rightarrow> may_be_unassigned decl | None \<Rightarrow> False)"







section \<open>A round\<close>











section \<open>Tuples held as structs\<close>










lemma flagged_set_ty [simp]:
  "flagged (f\<lparr>registers := (registers f)[r := (registers f ! r)\<lparr>decl_ty := ty\<rparr>]\<rparr>) i = flagged f i"
  by (cases "r = i") (simp_all add: flagged_def register_at_def get_def)










section \<open>A machine with instances that lack a field\<close>







section \<open>Properties\<close>




end
