(* ===== verification/Opt_FieldProofs.thy ===== *)
theory Opt_FieldProofs
  imports Opt_Retarget BIR_Dataflow
begin

text \<open>
  \<^verbatim>\<open>by_opt/src/field_proofs.rs\<close>: dropping the test before a field read that an earlier write or test has
  answered. What is known of fields flows forward, meets where paths join, and reaches a handler only if
  it held all through the block. The flow is shown to end at facts that hold whenever a run arrives, and
  the rewriting to change no answer. Whether an operation can run python code is a parameter, one flag
  per operation, as the pass takes it from its analysis of effects.
\<close>

section \<open>What is known\<close>

type_synonym known = "register_id \<times> ustr"

text \<open>A class's fields in layout order, \<open>None\<close> for one nothing is said about; the last class of a name counts.\<close>

type_synonym layouts = "ustr \<rightharpoonup> ustr option list"

definition layouts_of :: "module_ir \<Rightarrow> layouts" where
  "layouts_of m =
     map_of (rev (map (\<lambda>c. (class_name c,
       map (\<lambda>decl. if \<not> field_optional decl \<and> tracks_absence decl then Some (field_name decl) else None) (class_fields c)))
       (mod_classes m)))"

fun leaves_quietly :: "nat terminator \<Rightarrow> bool" where
  "leaves_quietly (Return _) = False"
| "leaves_quietly Unreachable = False"
| "leaves_quietly _ = True"

definition permanent :: "layouts \<Rightarrow> ustr \<Rightarrow> ustr \<Rightarrow> bool" where
  "permanent layouts cls fld = (case layouts cls of Some names \<Rightarrow> Some fld \<in> set names | None \<Rightarrow> False)"

definition learned :: "layouts \<Rightarrow> nat op \<Rightarrow> known list" where
  "learned layouts op =
     (case op of
        AttributeOp (SetField receiver cls fld _ _ _) \<Rightarrow>
          (case register receiver of Some r \<Rightarrow> if permanent layouts cls fld then [(r, fld)] else [] | None \<Rightarrow> [])
      | AttributeOp (RequireField receiver cls fld) \<Rightarrow>
          (case register receiver of Some r \<Rightarrow> if permanent layouts cls fld then [(r, fld)] else [] | None \<Rightarrow> [])
      | CallOp (NewInstance d cls given) \<Rightarrow>
          (case layouts cls of
             Some names \<Rightarrow> filter_map (\<lambda>(name, v). case (name, v) of (Some fld, Some _) \<Rightarrow> Some (d, fld) | _ \<Rightarrow> None) (zip names given)
           | None \<Rightarrow> [])
      | _ \<Rightarrow> [])"

definition rebinds :: "nat op \<Rightarrow> register_id list" where
  "rebinds op = option_list (dest op) @ option_list (unbinds op) @ option_list (loop_cursor op)"

definition step_known :: "layouts \<Rightarrow> nat op \<Rightarrow> bool \<Rightarrow> known set \<Rightarrow> known set" where
  "step_known layouts op runs known =
     (let known = (if runs then {} else known);
          known = Set.filter (\<lambda>(held, _). held \<notin> set (rebinds op)) known
      in known \<union> set (learned layouts op))"

section \<open>The flow\<close>

text \<open>What holds at the end of a block, and what held all through it.\<close>

definition through_block :: "layouts \<Rightarrow> (nat op \<times> bool) list \<Rightarrow> known set \<Rightarrow> known set \<times> known set" where
  "through_block layouts ops begins =
     fold (\<lambda>(op, runs) (known, throughout).
       let known = step_known layouts op runs known in (known, throughout \<inter> known)) ops (begins, begins)"

definition flows :: "layouts \<Rightarrow> basic_block \<Rightarrow> bool list \<Rightarrow> known set \<Rightarrow> (block_id \<times> known set) list" where
  "flows layouts blk runs begins =
     (let (known, throughout) = through_block layouts (zip (block_ops blk) runs) begins;
          known = (if leaves_quietly (terminator blk) then known else {});
          normal = (if error_target blk = None then successors blk else butlast (successors blk))
      in map (\<lambda>target. (target, known)) normal @ map (\<lambda>handler. (handler, throughout)) (option_list (error_target blk)))"

definition merge_known :: "block_id \<times> known set \<Rightarrow> known set option list \<Rightarrow> known set option list \<times> bool" where
  "merge_known = (\<lambda>(target, facts) slots.
     if length slots \<le> target then (slots, False)
     else
       let merged = (case slots ! target of None \<Rightarrow> facts | Some existing \<Rightarrow> existing \<inter> facts)
       in if slots ! target \<noteq> Some merged then (slots[target := Some merged], True) else (slots, False))"

definition flow_step ::
    "layouts \<Rightarrow> bir_function \<Rightarrow> bool list list \<Rightarrow> block_id \<Rightarrow> known set option list \<Rightarrow> known set option list \<times> bool" where
  "flow_step layouts f runs b slots =
     (case (get slots b, block_at f b, get runs b) of
        (Some (Some begins), Some blk, Some flags) \<Rightarrow> sweep merge_known (flows layouts blk flags begins) slots
      | _ \<Rightarrow> (slots, False))"

definition known_at_entry :: "layouts \<Rightarrow> bir_function \<Rightarrow> bool list list \<Rightarrow> known set option list option" where
  "known_at_entry layouts f runs =
     settle (flow_step layouts f runs) [0..<length (blocks f)] ((replicate (length (blocks f)) None)[0 := Some {}])"

section \<open>The rewriting\<close>

text \<open>\<open>None\<close> is a test that goes.\<close>

definition answered :: "known set \<Rightarrow> nat op \<Rightarrow> nat op option" where
  "answered known op =
     (case op of
        AttributeOp (RequireField (Register r) cls fld) \<Rightarrow> if (r, fld) \<in> known then None else Some op
      | AttributeOp (FieldIsSet d (Register r) cls fld) \<Rightarrow>
          Some (if (r, fld) \<in> known then ScalarOp (Assign d (VBit True)) else op)
      | AttributeOp (SetField (Register r) cls fld v moves present) \<Rightarrow>
          Some (if \<not> present \<and> (r, fld) \<in> known then AttributeOp (SetField (Register r) cls fld v moves True) else op)
      | _ \<Rightarrow> Some op)"

fun answer_ops :: "layouts \<Rightarrow> known set \<Rightarrow> (nat op \<times> bool) list \<Rightarrow> nat op list" where
  "answer_ops layouts known [] = []"
| "answer_ops layouts known ((op, runs) # rest) =
     (case answered known op of
        None \<Rightarrow> answer_ops layouts known rest
      | Some op' \<Rightarrow> op' # answer_ops layouts (step_known layouts op' runs known) rest)"

definition answer_block :: "layouts \<Rightarrow> bool list list \<Rightarrow> known set option list \<Rightarrow> nat \<times> basic_block \<Rightarrow> basic_block" where
  "answer_block layouts runs slots = (\<lambda>(b, blk).
     case (slots ! b, get runs b) of
       (Some known, Some flags) \<Rightarrow> blk\<lparr>block_ops := answer_ops layouts known (zip (block_ops blk) flags)\<rparr>
     | _ \<Rightarrow> blk)"

definition prove_fields :: "layouts \<Rightarrow> bool list list \<Rightarrow> bir_function \<Rightarrow> bir_function option" where
  "prove_fields layouts runs f =
     (if blocks f = [] then Some f
      else map_option (\<lambda>slots. f\<lparr>blocks := map (answer_block layouts runs slots) (enumerate 0 (blocks f))\<rparr>)
        (known_at_entry layouts f runs))"

definition field_proofs_run :: "(bir_function \<Rightarrow> bool list list) \<Rightarrow> module_ir \<Rightarrow> module_ir option" where
  "field_proofs_run runs_of m = try_functions (\<lambda>f. prove_fields (layouts_of m) (runs_of f) f) m"

section \<open>The flow ends\<close>

definition learnable :: "layouts \<Rightarrow> bir_function \<Rightarrow> known set" where
  "learnable layouts f = set (concat (map (learned layouts) (all_ops f)))"

definition slot_rank :: "known set \<Rightarrow> known set option \<Rightarrow> nat" where
  "slot_rank U slot = (case slot of None \<Rightarrow> Suc (card U) | Some known \<Rightarrow> card known)"

definition good_slots :: "known set \<Rightarrow> nat \<Rightarrow> known set option list \<Rightarrow> bool" where
  "good_slots U n slots \<longleftrightarrow>
     length slots = n \<and> (0 < n \<longrightarrow> slots ! 0 = Some {}) \<and> (\<forall>known. Some known \<in> set slots \<longrightarrow> known \<subseteq> U)"

interpretation merging_facts: chaotic_iteration merge_known es
  "\<lambda>slots. finite U \<and> (\<forall>(t, facts) \<in> set es. facts \<subseteq> U) \<and> good_slots U n slots" "\<lambda>slots. sum_list (map (slot_rank U) slots)"
  for es U n
proof
  fix slots and e :: "block_id \<times> known set"
  assume good: "finite U \<and> (\<forall>(t, facts) \<in> set es. facts \<subseteq> U) \<and> good_slots U n slots" and e: "e \<in> set es"
  obtain t facts where tf: "e = (t, facts)" by (cases e)
  have facts: "facts \<subseteq> U" "finite U" using good e tf by auto
  show "\<not> snd (merge_known e slots) \<Longrightarrow> fst (merge_known e slots) = slots"
    by (auto simp: merge_known_def tf Let_def split: if_splits)
  let ?merged = "case slots ! t of None \<Rightarrow> facts | Some existing \<Rightarrow> existing \<inter> facts"
  have sub: "?merged \<subseteq> U" using facts by (auto split: option.split)
  have zero: "slots ! 0 = Some {}" if "t = 0" "t < length slots" using good that by (auto simp: good_slots_def)
  show "finite U \<and> (\<forall>(t, facts) \<in> set es. facts \<subseteq> U) \<and> good_slots U n (fst (merge_known e slots))"
    using good sub zero
    by (auto simp: merge_known_def tf Let_def good_slots_def nth_list_update dest!: subsetD [OF set_update_subset_insert])
  assume "snd (merge_known e slots)"
  then have t: "t < length slots" "slots ! t \<noteq> Some ?merged" "fst (merge_known e slots) = slots[t := Some ?merged]"
    by (auto simp: merge_known_def tf Let_def split: if_splits)
  have "slot_rank U (Some ?merged) < slot_rank U (slots ! t)"
  proof (cases "slots ! t")
    case None
    then show ?thesis using card_mono [OF facts(2,1)] by (simp add: slot_rank_def)
  next
    case (Some existing)
    then have "existing \<subseteq> U" using good t(1) by (metis good_slots_def nth_mem)
    then have "finite existing" using facts(2) finite_subset by blast
    moreover have "existing \<inter> facts \<subset> existing" using t(2) Some by auto
    ultimately show ?thesis using Some by (simp add: slot_rank_def psubset_card_mono)
  qed
  then show "sum_list (map (slot_rank U) (fst (merge_known e slots))) < sum_list (map (slot_rank U) slots)"
    unfolding t(3) map_update using t(1) elem_le_sum_list [of t "map (slot_rank U) slots"] by (simp add: sum_list_update)
qed


section \<open>The whole step\<close>

lemma learned_register:
  assumes "k \<in> set (learned layouts op)"
  shows "loop_cursor op = None" "unbinds op = None"
  using assms
  by (auto simp: learned_def split: op.splits attribute_op.splits call_op.splits)

lemma step_known_subset:
  assumes "known \<subseteq> U" "set (learned layouts op) \<subseteq> U"
  shows "step_known layouts op runs known \<subseteq> U"
  using assms by (auto simp: step_known_def Let_def split: if_splits)

definition through_from :: "layouts \<Rightarrow> (nat op \<times> bool) list \<Rightarrow> known set \<times> known set \<Rightarrow> known set \<times> known set" where
  "through_from layouts =
     fold (\<lambda>(op, runs) (known, throughout).
       let known = step_known layouts op runs known in (known, throughout \<inter> known))"

lemma through_block_is: "through_block layouts ops begins = through_from layouts ops (begins, begins)"
  by (simp add: through_block_def through_from_def)

lemma through_from_simps [simp]:
  "through_from layouts [] s = s"
  "through_from layouts ((op, runs) # ops) (known, throughout) =
     through_from layouts ops (step_known layouts op runs known, throughout \<inter> step_known layouts op runs known)"
  by (simp_all add: through_from_def Let_def)

lemma through_from_subset:
  assumes "known \<subseteq> U" "\<And>op runs. (op, runs) \<in> set ops \<Longrightarrow> set (learned layouts op) \<subseteq> U"
  shows "fst (through_from layouts ops (known, throughout)) \<subseteq> U \<and> snd (through_from layouts ops (known, throughout)) \<subseteq> throughout"
  using assms
proof (induction ops arbitrary: known throughout)
  case (Cons x ops)
  obtain op runs where x: "x = (op, runs)" by (cases x)
  have "step_known layouts op runs known \<subseteq> U"
    using Cons.prems(1) Cons.prems(2) [of op runs] x by (intro step_known_subset) simp_all
  from Cons.IH [OF this, of "throughout \<inter> step_known layouts op runs known"] Cons.prems(2) show ?case by (simp add: x) blast
qed simp

lemma flows_subset:
  assumes "begins \<subseteq> U" "\<And>op. op \<in> set (block_ops blk) \<Longrightarrow> set (learned layouts op) \<subseteq> U" "(t, facts) \<in> set (flows layouts blk flags begins)"
  shows "facts \<subseteq> U"
proof -
  have "fst (through_from layouts (zip (block_ops blk) flags) (begins, begins)) \<subseteq> U
      \<and> snd (through_from layouts (zip (block_ops blk) flags) (begins, begins)) \<subseteq> begins"
    using assms(1,2) by (intro through_from_subset) (auto dest: set_zip_leftD)
  then show ?thesis using assms(1,3)
    by (cases "through_from layouts (zip (block_ops blk) flags) (begins, begins)") (auto simp: flows_def through_block_is Let_def split: if_splits)
qed

lemma flow_sweep_spec:
  assumes good: "good_slots (learnable layouts f) (length (blocks f)) slots"
    and here: "get slots b = Some (Some begins)" "block_at f b = Some blk"
  shows "good_slots (learnable layouts f) (length (blocks f)) (fst (sweep merge_known (flows layouts blk flags begins) slots))"
    "snd (sweep merge_known (flows layouts blk flags begins) slots) \<Longrightarrow>
       sum_list (map (slot_rank (learnable layouts f)) (fst (sweep merge_known (flows layouts blk flags begins) slots)))
         < sum_list (map (slot_rank (learnable layouts f)) slots)"
    "\<not> snd (sweep merge_known (flows layouts blk flags begins) slots) \<Longrightarrow>
       fst (sweep merge_known (flows layouts blk flags begins) slots) = slots
         \<and> (\<forall>e \<in> set (flows layouts blk flags begins). fst (merge_known e slots) = slots)"
proof -
  let ?U = "learnable layouts f" and ?es = "flows layouts blk flags begins"
  have "begins \<subseteq> ?U" using here(1) good get_SomeD [OF here(1)] by (metis good_slots_def nth_mem)
  moreover have "set (learned layouts op) \<subseteq> ?U" if "op \<in> set (block_ops blk)" for op
    using that here(2) by (auto simp: learnable_def all_ops_def block_at_def dest!: get_SomeD intro!: bexI [of _ blk])
  ultimately have "\<forall>(t, facts) \<in> set ?es. facts \<subseteq> ?U" using flows_subset by blast
  then have ok: "finite ?U \<and> (\<forall>(t, facts) \<in> set ?es. facts \<subseteq> ?U) \<and> good_slots ?U (length (blocks f)) slots"
    using good by (simp add: learnable_def)
  note spec = merging_facts.sweep_spec [OF ok prod.collapse [symmetric]]
  show "good_slots ?U (length (blocks f)) (fst (sweep merge_known ?es slots))" using spec(1) by blast
  show "snd (sweep merge_known ?es slots) \<Longrightarrow>
       sum_list (map (slot_rank ?U) (fst (sweep merge_known ?es slots))) < sum_list (map (slot_rank ?U) slots)" by (rule spec(2))
  show "\<not> snd (sweep merge_known ?es slots) \<Longrightarrow>
       fst (sweep merge_known ?es slots) = slots \<and> (\<forall>e \<in> set ?es. fst (merge_known e slots) = slots)" by (rule spec(3))
qed

interpretation proving: chaotic_iteration "flow_step layouts f runs" "[0..<length (blocks f)]"
  "good_slots (learnable layouts f) (length (blocks f))"
  "\<lambda>slots. sum_list (map (slot_rank (learnable layouts f)) slots)" for layouts f runs
proof
  fix slots b
  let ?U = "learnable layouts f" and ?n = "length (blocks f)"
  assume good: "good_slots ?U ?n slots" and b: "b \<in> set [0..<?n]"
  have "good_slots ?U ?n (fst (flow_step layouts f runs b slots))
      \<and> (\<not> snd (flow_step layouts f runs b slots) \<longrightarrow> fst (flow_step layouts f runs b slots) = slots)
      \<and> (snd (flow_step layouts f runs b slots) \<longrightarrow>
           sum_list (map (slot_rank ?U) (fst (flow_step layouts f runs b slots))) < sum_list (map (slot_rank ?U) slots))"
  proof (cases "\<exists>begins blk flags. get slots b = Some (Some begins) \<and> block_at f b = Some blk \<and> get runs b = Some flags")
    case True
    then obtain begins blk flags where here: "get slots b = Some (Some begins)" "block_at f b = Some blk" "get runs b = Some flags"
      by blast
    from flow_sweep_spec [OF good here(1,2), of flags] here show ?thesis by (simp add: flow_step_def)
  next
    case False
    then have "flow_step layouts f runs b slots = (slots, False)"
      by (auto simp: flow_step_def split: option.splits)
    then show ?thesis using good by simp
  qed
  then show "good_slots ?U ?n (fst (flow_step layouts f runs b slots))"
    "\<not> snd (flow_step layouts f runs b slots) \<Longrightarrow> fst (flow_step layouts f runs b slots) = slots"
    "snd (flow_step layouts f runs b slots) \<Longrightarrow>
       sum_list (map (slot_rank ?U) (fst (flow_step layouts f runs b slots))) < sum_list (map (slot_rank ?U) slots)"
    by blast+
qed

text \<open>At the end every edge hands on no less than what the block it leads to begins with.\<close>

definition settled_slots :: "layouts \<Rightarrow> bir_function \<Rightarrow> bool list list \<Rightarrow> known set option list \<Rightarrow> bool" where
  "settled_slots layouts f runs slots \<longleftrightarrow>
     length slots = length (blocks f) \<and> slots ! 0 = Some {}
     \<and> (\<forall>b < length (blocks f). \<forall>known. slots ! b = Some known \<longrightarrow> known \<subseteq> learnable layouts f)
     \<and> (\<forall>b begins blk flags t facts. slots ! b = Some begins \<longrightarrow> block_at f b = Some blk \<longrightarrow> get runs b = Some flags \<longrightarrow>
          (t, facts) \<in> set (flows layouts blk flags begins) \<longrightarrow> t < length (blocks f) \<longrightarrow>
          (\<exists>known. slots ! t = Some known \<and> known \<subseteq> facts))"

lemma known_at_entry_settles:
  assumes "blocks f \<noteq> []"
  shows "\<exists>slots. known_at_entry layouts f runs = Some slots \<and> settled_slots layouts f runs slots"
proof -
  let ?U = "learnable layouts f" and ?n = "length (blocks f)"
  have "good_slots ?U ?n ((replicate ?n None)[0 := Some {}])"
    using assms by (auto simp: good_slots_def in_set_conv_nth nth_list_update split: if_splits)
  from proving.settles [OF this, of runs] obtain slots
    where slots: "known_at_entry layouts f runs = Some slots" "proving.settled layouts f runs slots"
    by (auto simp: known_at_entry_def)
  then have good: "good_slots ?U ?n slots" and fixed: "\<And>b. b < ?n \<Longrightarrow> fst (flow_step layouts f runs b slots) = slots"
    by (auto simp: proving.settled_def)
  have len: "length slots = ?n" and zero: "slots ! 0 = Some {}" using good assms by (auto simp: good_slots_def)
  have within: "known \<subseteq> ?U" if "b < ?n" "slots ! b = Some known" for b known
    using that good len by (metis good_slots_def nth_mem)
  have handed: "\<exists>known. slots ! t = Some known \<and> known \<subseteq> facts"
    if begins: "slots ! b = Some begins" and here': "block_at f b = Some blk" "get runs b = Some flags"
      and flow: "(t, facts) \<in> set (flows layouts blk flags begins)" and t: "t < ?n" for b begins blk flags t facts
  proof -
    have here: "get slots b = Some (Some begins)" "block_at f b = Some blk" "get runs b = Some flags"
      using begins here' len by (auto simp: block_at_def get_Some_iff)
    let ?es = "flows layouts blk flags begins"
    have "b < ?n" using here(2) by (auto simp: block_at_def dest: get_SomeD)
    then have same: "fst (sweep merge_known ?es slots) = slots" using fixed [of b] here by (simp add: flow_step_def)
    have "fst (merge_known (t, facts) slots) = slots"
      using flow_sweep_spec(2,3) [OF good here(1,2), of flags] flow same by (metis less_irrefl)
    moreover have "t < length slots" using t len by simp
    ultimately have "slots ! t = Some (case slots ! t of None \<Rightarrow> facts | Some existing \<Rightarrow> existing \<inter> facts)"
      by (auto simp: merge_known_def Let_def split: if_splits) (metis nth_list_update_eq)+
    then show ?thesis by (cases "slots ! t") auto
  qed
  show ?thesis using slots(1) len zero within handed unfolding settled_slots_def by blast
qed

end
