(* ===== verification/Opt_FieldRuns.thy ===== *)
theory Opt_FieldRuns
  imports Opt_FieldProofs Opt_Segments
begin

text \<open>
  What dropping the tests of fields changes of a run: nothing, where what a function knows of a field
  holds whenever its operations run. A \<open>machine\<close> is given a relation that says which object has which
  field; a test of a field asks it, and a flag of the analysis of effects is right at a state if an
  operation said to run no python code takes no field from what a register holds.
\<close>

type_synonym ('v, 'w) fields_of = "'w \<Rightarrow> 'v \<Rightarrow> ustr \<Rightarrow> bool"

section \<open>What the pass relies on\<close>









section \<open>What is known holds\<close>

definition knows :: "('v, 'w) fields_of \<Rightarrow> known set \<Rightarrow> (register_id \<Rightarrow> 'v) \<times> 'w \<Rightarrow> bool" where
  "knows has known = (\<lambda>(env, w). \<forall>(r, fld) \<in> known. has w (env r) fld)"


lemma knows_empty [simp]: "knows has {} s"
  by (simp add: knows_def)






section \<open>The rewriting changes nothing\<close>











section \<open>A machine with one object\<close>

















section \<open>Properties\<close>




end
