(* ===== verification/Opt_Splices.thy ===== *)
theory Opt_Splices
  imports Opt_Segments
begin

text \<open>
  Rewriting windows of a block found by their position, last first, so that no position moves: the shape
  \<^verbatim>\<open>str_of_int.rs\<close> and \<^verbatim>\<open>str_concat_int.rs\<close> share. The locale \<open>windows\<close> is what makes it right: windows
  that match do not overlap. Then a rewritten block is its segments, the matching ones rewritten. The
  counts both passes keep of the registers a function writes and reads are here as well.
\<close>

section \<open>Splicing\<close>

text \<open>A rewriting may take something from a state, which is threaded through.\<close>

definition splice_at :: "nat \<Rightarrow> ('s \<Rightarrow> 'a list \<Rightarrow> 's \<times> 'a list) \<Rightarrow> nat \<Rightarrow> 's \<times> 'a list \<Rightarrow> 's \<times> 'a list" where
  "splice_at width new at = (\<lambda>(s, xs).
     let (s', ys) = new s (take width (drop at xs)) in (s', take at xs @ ys @ drop (at + width) xs))"

definition positions :: "nat \<Rightarrow> ('a list \<Rightarrow> bool) \<Rightarrow> 'a list \<Rightarrow> nat list" where
  "positions width matches xs = filter (\<lambda>at. matches (take width (drop at xs))) [0..<length xs]"

function segments :: "nat \<Rightarrow> ('a list \<Rightarrow> bool) \<Rightarrow> 'a list \<Rightarrow> 'a list list" where
  "segments width matches [] = []"
| "segments width matches (x # xs) =
     (if matches (take width (x # xs)) then (x # take (width - 1) xs) # segments width matches (drop (width - 1) xs)
      else [x] # segments width matches xs)"
  by pat_completeness auto
termination by (relation "measure (\<lambda>(_, _, xs). length xs)") auto

lemma concat_segments [simp]: "concat (segments width matches xs) = xs"
  by (induction width matches xs rule: segments.induct) auto

lemma positions_Nil [simp]: "positions width matches [] = []"
  by (simp add: positions_def)

lemma positions_Cons:
  "positions width matches (x # xs) =
     (if matches (take width (x # xs)) then [0] else []) @ map Suc (positions width matches xs)"
proof -
  have upt: "[0..<length (x # xs)] = 0 # map Suc [0..<length xs]" by (simp add: upt_conv_Cons map_Suc_upt del: upt_Suc)
  have "filter (\<lambda>at. matches (take width (drop at (x # xs)))) (map Suc ys)
      = map Suc (filter (\<lambda>at. matches (take width (drop at xs))) ys)" for ys
    by (induction ys) auto
  then show ?thesis unfolding positions_def upt by simp
qed

lemma positions_append:
  assumes "\<And>i. i < length ys \<Longrightarrow> \<not> matches (take width (drop i (ys @ xs)))"
  shows "positions width matches (ys @ xs) = map ((+) (length ys)) (positions width matches xs)"
  using assms
proof (induction ys)
  case Nil
  have "map ((+) 0) ps = ps" for ps :: "nat list" by (induction ps) auto
  then show ?case by simp
next
  case (Cons y ys)
  have "\<not> matches (take width (drop i (ys @ xs)))" if "i < length ys" for i
    using Cons.prems [of "Suc i"] that by simp
  moreover have "\<not> matches (take width (y # ys @ xs))" using Cons.prems [of 0] by simp
  ultimately show ?case using Cons.IH by (simp add: positions_Cons o_def)
qed

lemma splice_at_append:
  assumes "length pre \<le> p"
  shows "splice_at width new p (s, pre @ xs) =
    (fst (splice_at width new (p - length pre) (s, xs)), pre @ snd (splice_at width new (p - length pre) (s, xs)))"
  using assms by (simp add: splice_at_def split_beta Let_def)

lemma splice_at_first: "length win = width \<Longrightarrow> splice_at width new 0 (s, win @ xs) = (fst (new s win), snd (new s win) @ xs)"
  by (simp add: splice_at_def split_beta)

lemma splice_shifted:
  assumes "\<And>p. p \<in> set ps \<Longrightarrow> length pre \<le> p"
    and "foldr (splice_at width new) (map (\<lambda>p. p - length pre) ps) (s, xs) = (s', ys)"
  shows "foldr (splice_at width new) ps (s, pre @ xs) = (s', pre @ ys)"
  using assms
proof (induction ps arbitrary: s' ys)
  case (Cons p ps)
  obtain t zs where rest: "foldr (splice_at width new) (map (\<lambda>p. p - length pre) ps) (s, xs) = (t, zs)" by fastforce
  have "foldr (splice_at width new) ps (s, pre @ xs) = (t, pre @ zs)" using Cons.prems(1) by (intro Cons.IH [OF _ rest]) simp
  then show ?case using Cons.prems rest by (simp add: splice_at_append)
qed simp

text \<open>A segment of the rewritten list comes from one of the old: the same, or what a match becomes in some state.\<close>

definition segment_from :: "('a list \<Rightarrow> bool) \<Rightarrow> ('s \<Rightarrow> 'a list \<Rightarrow> 's \<times> 'a list) \<Rightarrow> ('s \<Rightarrow> bool) \<Rightarrow> 'a list \<Rightarrow> 'a list \<Rightarrow> bool" where
  "segment_from matches new ok old seg \<longleftrightarrow>
     (if matches old then \<exists>s. ok s \<and> seg = snd (new s old) else seg = old)"

text \<open>Over the blocks of a function, the sites in order, taken last first.\<close>

definition sites :: "nat \<Rightarrow> (nat op list \<Rightarrow> bool) \<Rightarrow> basic_block list \<Rightarrow> (block_id \<times> nat) list" where
  "sites width matches bs =
     concat (map (\<lambda>(b, blk). map (Pair b) (positions width matches (block_ops blk))) (enumerate 0 bs))"

definition splice_block ::
    "nat \<Rightarrow> ('s \<Rightarrow> nat op list \<Rightarrow> 's \<times> nat op list) \<Rightarrow> block_id \<times> nat \<Rightarrow> 's \<times> basic_block list \<Rightarrow> 's \<times> basic_block list" where
  "splice_block width new = (\<lambda>(b, at) (s, bs).
     case get bs b of
       None \<Rightarrow> (s, bs)
     | Some blk \<Rightarrow> (let (s', ops) = splice_at width new at (s, block_ops blk) in (s', bs[b := blk\<lparr>block_ops := ops\<rparr>])))"

lemma splice_one_block:
  assumes "foldr (splice_at width new) ps (s, block_ops blk) = (s', ops)"
  shows "foldr (splice_block width new) (map (Pair (length pre)) ps) (s, pre @ blk # bs) = (s', pre @ blk\<lparr>block_ops := ops\<rparr> # bs)"
  using assms
proof (induction ps arbitrary: s' ops)
  case (Cons p ps)
  obtain t zs where inner: "foldr (splice_at width new) ps (s, block_ops blk) = (t, zs)" by fastforce
  with Cons.IH [OF inner] Cons.prems show ?case by (simp add: splice_block_def get_def split_beta Let_def)
qed simp

definition block_from :: "nat \<Rightarrow> (nat op list \<Rightarrow> bool) \<Rightarrow> ('s \<Rightarrow> nat op list \<Rightarrow> 's \<times> nat op list) \<Rightarrow> ('s \<Rightarrow> bool) \<Rightarrow> basic_block \<Rightarrow> basic_block \<Rightarrow> bool" where
  "block_from width matches new ok old blk \<longleftrightarrow>
     (\<exists>segs. blk = old\<lparr>block_ops := concat segs\<rparr>
        \<and> list_all2 (segment_from matches new ok) (segments width matches (block_ops old)) segs)"

locale windows =
  fixes width :: nat
    and matches :: "'a list \<Rightarrow> bool"
    and new :: "'s \<Rightarrow> 'a list \<Rightarrow> 's \<times> 'a list"
    and ok :: "'s \<Rightarrow> bool"
  assumes several: "1 < width"
    and whole: "matches xs \<Longrightarrow> length xs = width"
    and apart: "matches (take width xs) \<Longrightarrow> 0 < i \<Longrightarrow> i < width \<Longrightarrow> \<not> matches (take width (drop i xs))"
    and keeps: "ok s \<Longrightarrow> matches xs \<Longrightarrow> ok (fst (new s xs))"
begin

text \<open>A window that matches at the front: where the others are, and what the first segment is.\<close>

lemma front_window:
  assumes "matches (take width xs)"
  shows "positions width matches xs = 0 # map ((+) width) (positions width matches (drop width xs))"
    "segments width matches xs = take width xs # segments width matches (drop width xs)"
proof -
  let ?win = "take width xs" and ?rest = "drop width xs"
  have len: "length ?win = width" using whole [OF assms] .
  then obtain y rest where Cons: "xs = y # rest" using several by (cases xs) auto
  let ?more = "take (width - 1) rest"
  have win: "?win = y # ?more" and tail: "?rest = drop (width - 1) rest" using several Cons by (cases width; simp)+
  have "\<not> matches (take width (drop i (?more @ ?rest)))" if "i < length ?more" for i
  proof -
    have "?more @ ?rest = rest" by (simp add: tail)
    then have "drop i (?more @ ?rest) = drop (Suc i) xs" by (simp add: Cons)
    moreover have "Suc i < width" using that by auto
    ultimately show ?thesis using apart [OF assms, of "Suc i"] by simp
  qed
  from positions_append [where matches = matches and width = width and ys = ?more and xs = ?rest, OF this]
  have "positions width matches rest = map ((+) (width - 1)) (positions width matches ?rest)"
    using len win by (simp add: tail)
  then show "positions width matches xs = 0 # map ((+) width) (positions width matches ?rest)"
    using assms several by (simp add: Cons positions_Cons o_def)
  show "segments width matches xs = ?win # segments width matches ?rest" using assms win tail by (simp add: Cons)
qed

lemma other_window:
  assumes "\<not> matches (take width (y # rest))"
  shows "positions width matches (y # rest) = map Suc (positions width matches rest)"
    "segments width matches (y # rest) = [y] # segments width matches rest"
  using assms by (simp_all add: positions_Cons)

lemma positions_segments:
  "map (\<lambda>at. take width (drop at xs)) (positions width matches xs) = filter matches (segments width matches xs)"
proof (induction xs rule: length_induct)
  case (1 xs)
  show ?case
  proof (cases xs)
    case (Cons y rest)
    show ?thesis
    proof (cases "matches (take width xs)")
      case True
      have "length (drop width xs) < length xs" using Cons several by simp
      then have "map (\<lambda>at. take width (drop at (drop width xs))) (positions width matches (drop width xs))
          = filter matches (segments width matches (drop width xs))" using 1 by blast
      then show ?thesis using True by (simp add: front_window [OF True] o_def add.commute)
    next
      case False
      moreover have "\<not> matches [y]" using whole [of "[y]"] several by auto
      ultimately show ?thesis using 1 Cons other_window [of y rest] by (simp add: o_def)
    qed
  qed simp
qed

lemma segments_from:
  assumes "ok s" "foldr (splice_at width new) (positions width matches xs) (s, xs) = (s', ys)"
  shows "ok s' \<and> (\<exists>segs. ys = concat segs \<and> list_all2 (segment_from matches new ok) (segments width matches xs) segs)"
  using assms
proof (induction xs arbitrary: s' ys rule: length_induct)
  case (1 xs)
  note IH = 1(1) [rule_format] and start = 1(2) and spliced = 1(3)
  show ?case
  proof (cases xs)
    case Nil
    then show ?thesis using start spliced by simp
  next
    case (Cons y rest)
    let ?win = "take width xs" and ?rest = "drop width xs"
    show ?thesis
    proof (cases "matches ?win")
      case True
      have len: "length ?win = width" using whole [OF True] .
      obtain t zs where inner: "foldr (splice_at width new) (positions width matches ?rest) (s, ?rest) = (t, zs)" by fastforce
      have "foldr (splice_at width new) (map ((+) width) (positions width matches ?rest)) (s, ?win @ ?rest) = (t, ?win @ zs)"
        using inner len by (intro splice_shifted) (auto simp: o_def)
      then have "(s', ys) = splice_at width new 0 (t, ?win @ zs)" using spliced front_window(1) [OF True] by simp
      with splice_at_first [OF len, of new t zs] have out: "s' = fst (new t ?win)" "ys = snd (new t ?win) @ zs" by simp_all
      obtain segs where ih: "ok t" "zs = concat segs" "list_all2 (segment_from matches new ok) (segments width matches ?rest) segs"
        using IH [OF _ start inner] Cons several by auto
      have "segment_from matches new ok ?win (snd (new t ?win))" using True ih(1) by (auto simp: segment_from_def)
      then show ?thesis using out ih keeps [OF ih(1) True] front_window(2) [OF True] by (auto intro!: exI [of _ "snd (new t ?win) # segs"])
    next
      case False
      then have pos: "positions width matches xs = map Suc (positions width matches rest)" using other_window Cons by blast
      obtain t zs where inner: "foldr (splice_at width new) (positions width matches rest) (s, rest) = (t, zs)" by fastforce
      have "foldr (splice_at width new) (map Suc (positions width matches rest)) (s, [y] @ rest) = (t, [y] @ zs)"
        using inner by (intro splice_shifted) (auto simp: o_def)
      then have "s' = t" "ys = y # zs" using spliced pos Cons by auto
      moreover obtain segs where "ok t" "zs = concat segs" "list_all2 (segment_from matches new ok) (segments width matches rest) segs"
        using IH [OF _ start inner] Cons by auto
      moreover have "segment_from matches new ok [y] [y]" using whole [of "[y]"] several by (auto simp: segment_from_def)
      ultimately show ?thesis using False Cons by (auto intro!: exI [of _ "[y] # segs"])
    qed
  qed
qed

end

lemma blocks_from:
  assumes windows: "windows width matches new ok" and "ok s"
    and "foldr (splice_block width new)
      (concat (map (\<lambda>(b, blk). map (Pair b) (positions width matches (block_ops blk))) (enumerate (length pre) bs))) (s, pre @ bs) = (s', bs')"
  shows "ok s' \<and> (\<exists>news. bs' = pre @ news \<and> list_all2 (block_from width matches new ok) bs news)"
  using assms(2,3)
proof (induction bs arbitrary: pre s' bs')
  case (Cons blk bs)
  obtain t bs1 where inner: "foldr (splice_block width new)
      (concat (map (\<lambda>(b, blk). map (Pair b) (positions width matches (block_ops blk))) (enumerate (length (pre @ [blk])) bs)))
      (s, (pre @ [blk]) @ bs) = (t, bs1)" by fastforce
  from Cons.IH [OF Cons.prems(1) inner] obtain news where news: "ok t" "bs1 = (pre @ [blk]) @ news"
    "list_all2 (block_from width matches new ok) bs news" by blast
  obtain t' ops where here: "foldr (splice_at width new) (positions width matches (block_ops blk)) (t, block_ops blk) = (t', ops)" by fastforce
  have "(s', bs') = (t', pre @ blk\<lparr>block_ops := ops\<rparr> # news)"
    using Cons.prems(2) inner splice_one_block [OF here, of pre news] by (simp add: news(2))
  moreover have "ok t' \<and> block_from width matches new ok blk (blk\<lparr>block_ops := ops\<rparr>)"
    using windows.segments_from [OF windows news(1) here] by (auto simp: block_from_def)
  ultimately show ?case using news(3) by auto
qed simp

lemma sites_spliced:
  assumes "windows width matches new ok" "ok s" "foldr (splice_block width new) (sites width matches bs) (s, bs) = (s', bs')"
  shows "ok s' \<and> list_all2 (block_from width matches new ok) bs bs'"
  using blocks_from [OF assms(1,2), of "[]" bs s' bs'] assms(3) by (simp add: sites_def)

text \<open>If every segment is alike, the block is.\<close>

lemma block_from_alike:
  assumes "block_from width matches new ok old blk"
    and "\<And>seg seg'. seg \<in> set (segments width matches (block_ops old)) \<Longrightarrow> segment_from matches new ok seg seg' \<Longrightarrow> alike_but M T seg seg'"
    and "\<And>r. Register r \<in> set (term_operands (terminator old)) \<Longrightarrow> r \<notin> T"
  shows "rewritten_block M T old blk"
proof -
  obtain segs where segs: "blk = old\<lparr>block_ops := concat segs\<rparr>"
    "list_all2 (segment_from matches new ok) (segments width matches (block_ops old)) segs"
    using assms(1) by (auto simp: block_from_def)
  have "alike_but M T (concat olds) (concat news)"
    if "list_all2 (segment_from matches new ok) olds news" "set olds \<subseteq> set (segments width matches (block_ops old))" for olds news
    using that
  proof (induction rule: list_all2_induct)
    case (Cons o' os n ns)
    then show ?case using assms(2) [of o' n] by (auto intro!: alike_but_append)
  qed simp
  from this [OF segs(2)] have "alike_but M T (block_ops old) (concat segs)" by simp
  then show ?thesis using assms(3) by (simp add: rewritten_block_def segs(1))
qed

lemma spliced_function_behaves:
  assumes "list_all2 (block_from width matches new ok) (blocks f) (blocks g)" "param_count g = param_count f"
    and "\<And>blk seg seg'. \<lbrakk>blk \<in> set (blocks f); seg \<in> set (segments width matches (block_ops blk)); segment_from matches new ok seg seg'\<rbrakk>
      \<Longrightarrow> alike_but M T seg seg'"
    and "\<And>blk r. blk \<in> set (blocks f) \<Longrightarrow> Register r \<in> set (term_operands (terminator blk)) \<Longrightarrow> r \<notin> T"
  shows "call M g n args w = call M f n args w"
proof (rule rewritten_function_behaves [OF _ assms(2)])
  show "list_all2 (rewritten_block M T) (blocks f) (blocks g)"
    using assms(1) by (rule list.rel_mono_strong) (use assms(3,4) block_from_alike in blast)
qed

text \<open>Operations that read of \<open>T\<close> only what they have written before.\<close>

fun reads_settled :: "register_id set \<Rightarrow> nat op list \<Rightarrow> bool" where
  "reads_settled T [] = True"
| "reads_settled T (op # ops) \<longleftrightarrow> looks_at op \<inter> T = {} \<and> reads_settled (T - set_option (dest op)) ops"

lemma settled_run:
  assumes "reads_settled T' ops" "T' \<subseteq> T" "\<forall>r. r \<notin> T' \<longrightarrow> env' r = env r"
  shows "rel_sum (agrees_but T) (agrees_but T) (run_ops M ops (env, w)) (run_ops M ops (env', w))"
  using assms
proof (induction ops arbitrary: T' env env' w)
  case (Cons op ops)
  have "rel_sum (\<lambda>(e, w) (e', w'). w = w' \<and> (\<forall>r. env' r = env r \<longrightarrow> e' r = e r))
      (\<lambda>(e, w) (e', w'). w = w' \<and> (\<forall>r. env' r = env r \<or> dest op = Some r \<longrightarrow> e' r = e r))
    (exec_op M op (env, w)) (exec_op M op (env', w))"
    using Cons.prems(1,3) by (intro exec_op_agree) auto
  then show ?case
  proof (cases rule: rel_sum.cases)
    case (1 s s')
    then show ?thesis using Cons.prems(2,3) by (cases s; cases s') auto
  next
    case (2 s s')
    obtain e v e' v' where s: "s = (e, v)" "s' = (e', v')" by (cases s; cases s')
    with 2 have "v = v'" and agree: "\<forall>r. env' r = env r \<or> dest op = Some r \<longrightarrow> e' r = e r" by auto
    have "\<forall>r. r \<notin> T' - set_option (dest op) \<longrightarrow> e' r = e r" using agree Cons.prems(3) by auto
    moreover have "T' - set_option (dest op) \<subseteq> T" using Cons.prems(2) by blast
    ultimately have "rel_sum (agrees_but T) (agrees_but T) (run_ops M ops (e, v')) (run_ops M ops (e', v'))"
      using Cons.prems(1) by (intro Cons.IH) auto
    then show ?thesis using 2 s \<open>v = v'\<close> by simp
  qed
qed auto

lemma settled_alike: "reads_settled T ops \<Longrightarrow> alike_but M T ops ops"
  unfolding alike_but_def by (intro allI impI settled_run) auto

section \<open>Counting\<close>

text \<open>A \<open>HashMap\<close> whose entries are counted up from zero.\<close>

definition count_up :: "register_id \<Rightarrow> (register_id \<rightharpoonup> nat) \<Rightarrow> register_id \<rightharpoonup> nat" where
  "count_up r counts = counts(r \<mapsto> (case counts r of Some n \<Rightarrow> n | None \<Rightarrow> 0) + 1)"

definition tally :: "register_id list \<Rightarrow> register_id \<rightharpoonup> nat" where
  "tally rs = fold count_up rs Map.empty"

definition writes_in :: "bir_function \<Rightarrow> register_id list" where
  "writes_in f =
     concat (map (\<lambda>blk. concat (map (\<lambda>op. option_list (dest op)) (block_ops blk)) @ option_list (term_dest (terminator blk))) (blocks f))"

text \<open>The reads, what a \<open>del\<close> unbinds included.\<close>

definition reads_in :: "bir_function \<Rightarrow> register_id list" where
  "reads_in f =
     concat (map (\<lambda>blk. concat (map (\<lambda>op. option_list (unbinds op) @ filter_map register (operands op)) (block_ops blk))
         @ filter_map register (term_operands (terminator blk))) (blocks f))"

text \<open>An unnamed register written and read just as often as the windows found say.\<close>

definition wholly_owned :: "bir_function \<Rightarrow> register_id list \<Rightarrow> register_id \<Rightarrow> bool" where
  "wholly_owned f found r \<longleftrightarrow>
     r \<in> set found \<and> map_option decl_name (register_at f r) = Some None
     \<and> tally (writes_in f) r = tally found r \<and> tally (reads_in f) r = tally found r"

lemma tally_is: "tally rs r = (if r \<in> set rs then Some (count_list rs r) else None)"
proof -
  have "fold count_up rs counts r = (if r \<in> set rs then Some ((case counts r of Some n \<Rightarrow> n | None \<Rightarrow> 0) + count_list rs r) else counts r)"
    for counts :: "register_id \<rightharpoonup> nat"
    by (induction rs arbitrary: counts) (auto simp: count_up_def count_list_0_iff split: option.splits)
  from this [of Map.empty] show ?thesis by (simp add: tally_def)
qed

lemma wholly_owned_reads: "wholly_owned f found r \<Longrightarrow> count_list (reads_in f) r = count_list found r"
  by (auto simp: wholly_owned_def tally_is split: if_splits)

section \<open>Accounting\<close>

text \<open>What a pass counts of the windows it finds, and what the segments of the blocks read.\<close>

definition found_registers :: "nat \<Rightarrow> (nat op list \<Rightarrow> bool) \<Rightarrow> (nat op list \<Rightarrow> register_id list) \<Rightarrow> basic_block list \<Rightarrow> register_id list" where
  "found_registers width matches named bs =
     concat (map (\<lambda>(b, at). case get bs b of Some blk \<Rightarrow> named (take width (drop at (block_ops blk))) | None \<Rightarrow> [])
       (sites width matches bs))"

definition op_reads :: "nat op \<Rightarrow> register_id list" where
  "op_reads op = option_list (unbinds op) @ filter_map register (operands op)"

definition segment_reads :: "nat op list \<Rightarrow> register_id list" where
  "segment_reads seg = concat (map op_reads seg)"

lemma count_op_reads:
  "count_list (op_reads op) r = count_list (option_list (unbinds op)) r + count_list (operands op) (Register r)"
proof -
  have "count_list (filter_map register vs) r = count_list vs (Register r)" for vs :: "nat val list"
  proof (induction vs)
    case (Cons v vs)
    then show ?case by (cases v) auto
  qed simp
  then show ?thesis by (simp add: op_reads_def)
qed

lemma found_registers_are:
  assumes "windows width matches new ok"
  shows "found_registers width matches named bs
    = concat (map (\<lambda>blk. concat (map named (filter matches (segments width matches (block_ops blk))))) bs)"
proof -
  let ?h = "\<lambda>(b, at). case get bs b of Some blk \<Rightarrow> named (take width (drop at (block_ops blk))) | None \<Rightarrow> []"
  have "concat (map ?h (map (Pair b) (positions width matches (block_ops blk))))
      = concat (map named (filter matches (segments width matches (block_ops blk))))" if "(b, blk) \<in> set (enumerate 0 bs)" for b blk
  proof -
    have "get bs b = Some blk" using that by (auto simp: in_set_enumerate_eq get_Some_iff)
    then have "concat (map ?h (map (Pair b) (positions width matches (block_ops blk))))
        = concat (map named (map (\<lambda>at. take width (drop at (block_ops blk))) (positions width matches (block_ops blk))))"
      by (simp add: o_def)
    then show ?thesis by (simp add: windows.positions_segments [OF assms])
  qed
  then have "concat (map ?h (concat (map (\<lambda>(b, blk). map (Pair b) (positions width matches (block_ops blk))) xs)))
      = concat (map (\<lambda>(b, blk). concat (map named (filter matches (segments width matches (block_ops blk))))) xs)"
    if "set xs \<subseteq> set (enumerate 0 bs)" for xs
    using that by (induction xs) (auto simp: case_prod_beta)
  from this [of "enumerate 0 bs"] have "found_registers width matches named bs
      = concat (map ((\<lambda>blk. concat (map named (filter matches (segments width matches (block_ops blk))))) \<circ> snd) (enumerate 0 bs))"
    by (simp add: found_registers_def sites_def split_def o_def)
  then show ?thesis by (simp flip: map_map)
qed

lemma sum_list_tight:
  fixes a c :: "'a \<Rightarrow> nat"
  assumes "\<And>x. x \<in> set xs \<Longrightarrow> a x \<le> c x" "sum_list (map c xs) \<le> sum_list (map a xs)" "x \<in> set xs"
  shows "c x = a x"
  using assms
proof (induction xs)
  case (Cons y ys)
  have "sum_list (map a ys) \<le> sum_list (map c ys)" using Cons.prems(1) by (intro sum_list_mono) auto
  moreover have "a y \<le> c y" using Cons.prems(1) by simp
  ultimately have "c y = a y" "sum_list (map c ys) \<le> sum_list (map a ys)" using Cons.prems(2) by auto
  then show ?case using Cons by auto
qed simp

text \<open>
  A register that is read no more often than the windows say is read nowhere else: by no segment that
  does not match, by no terminator, and by a window only as often as it says.
\<close>

lemma wholly_owned_elsewhere:
  assumes windows: "windows width matches new ok"
    and owned: "wholly_owned f (found_registers width matches named (blocks f)) r"
    and named: "\<And>seg. matches seg \<Longrightarrow> count_list (named seg) r \<le> count_list (segment_reads seg) r"
    and blk: "blk \<in> set (blocks f)"
  shows "Register r \<notin> set (term_operands (terminator blk))"
    "\<And>seg. seg \<in> set (segments width matches (block_ops blk)) \<Longrightarrow>
       count_list (segment_reads seg) r = (if matches seg then count_list (named seg) r else 0)"
proof -
  let ?says = "\<lambda>seg. if matches seg then count_list (named seg) r else 0"
  let ?segs = "\<lambda>blk. segments width matches (block_ops blk)"
  let ?ends = "\<lambda>blk. count_list (filter_map register (term_operands (terminator blk))) r"
  let ?does = "\<lambda>blk. sum_list (map (\<lambda>seg. count_list (segment_reads seg) r) (?segs blk)) + ?ends blk"
  have "count_list (concat (map named (filter matches segs))) r = sum_list (map ?says segs)" for segs
    by (induction segs) auto
  then have found: "count_list (found_registers width matches named (blocks f)) r = sum_list (map (\<lambda>blk. sum_list (map ?says (?segs blk))) (blocks f))"
    by (simp add: found_registers_are [OF windows] count_list_concat_map)
  have "count_list (concat (map op_reads ops)) r = sum_list (map (\<lambda>seg. count_list (segment_reads seg) r) segs)" if "concat segs = ops" for segs ops
    using that by (induction segs arbitrary: ops) (auto simp: segment_reads_def)
  from this [OF concat_segments]
  have "count_list (concat (map op_reads (block_ops blk))) r = sum_list (map (\<lambda>seg. count_list (segment_reads seg) r) (?segs blk))"
    for blk :: basic_block .
  then have reads: "count_list (reads_in f) r = sum_list (map ?does (blocks f))"
    by (simp add: reads_in_def op_reads_def [symmetric] count_list_concat_map)
  have le: "sum_list (map ?says (?segs blk)) \<le> sum_list (map (\<lambda>seg. count_list (segment_reads seg) r) (?segs blk))" for blk
    using named by (intro sum_list_mono) auto
  have "?does blk = sum_list (map ?says (?segs blk))"
    by (rule sum_list_tight [OF _ _ blk]) (use le wholly_owned_reads [OF owned] found reads in \<open>auto intro: trans_le_add1\<close>)
  then have none: "?ends blk = 0"
    and tight: "sum_list (map (\<lambda>seg. count_list (segment_reads seg) r) (?segs blk)) \<le> sum_list (map ?says (?segs blk))"
    using le [of blk] by linarith+
  show "Register r \<notin> set (term_operands (terminator blk))"
    using none by (auto simp: count_list_0_iff set_filter_map register_eq_Some_iff)
  show "count_list (segment_reads seg) r = ?says seg" if "seg \<in> set (?segs blk)" for seg
    by (rule sum_list_tight [OF _ tight that]) (use named in auto)
qed

end
