(* ===== verification/Opt_StrOfInt.thy ===== *)
theory Opt_StrOfInt
  imports Opt_Splices
begin

text \<open>
  \<^verbatim>\<open>by_opt/src/str_of_int.rs\<close>: boxing an integer and calling \<open>str\<close> on the box becomes one operation, which
  formats the digits, and the box goes where nothing else reads it. An integer held as a machine word is
  handed to that operation tagged, in a register of its own, so a rewriting adds registers. On a machine
  whose operation gives what the call gives, the pass changes no answer.
\<close>

section \<open>The pass\<close>

definition type_among :: "register_decl list \<Rightarrow> nat val \<Rightarrow> rtype option" where
  "type_among rs v = (case register v of Some r \<Rightarrow> map_option decl_ty (get rs r) | None \<Rightarrow> immediate_type v)"

fun integral :: "rtype option \<Rightarrow> bool" where
  "integral (Some (Primitive PInt)) = True"
| "integral (Some (Primitive (PFixed _))) = True"
| "integral _ = False"

fun fixed_width :: "rtype option \<Rightarrow> bool" where
  "fixed_width (Some (Primitive (PFixed _))) = True"
| "fixed_width _ = False"

text \<open>The register a window boxes into, and what it boxes.\<close>

fun pair_of :: "register_decl list \<Rightarrow> nat op list \<Rightarrow> (register_id \<times> nat val) option" where
  "pair_of rs [PlaceOp (Box boxed src), CallOp (CallPython d callee args)] =
     (if callee = lit ''str'' \<and> args = [Register boxed] \<and> integral (type_among rs src) then Some (boxed, src) else None)"
| "pair_of rs _ = None"

definition is_pair :: "register_decl list \<Rightarrow> nat op list \<Rightarrow> bool" where
  "is_pair rs win \<longleftrightarrow> pair_of rs win \<noteq> None"

definition boxed_register :: "register_decl list \<Rightarrow> nat op list \<Rightarrow> register_id list" where
  "boxed_register rs win = (case pair_of rs win of Some (boxed, _) \<Rightarrow> [boxed] | None \<Rightarrow> [])"

definition str_pairs :: "bir_function \<Rightarrow> (block_id \<times> nat) list" where
  "str_pairs f = sites 2 (is_pair (registers f)) (blocks f)"

definition droppable :: "bir_function \<Rightarrow> register_id \<Rightarrow> bool" where
  "droppable f = wholly_owned f (found_registers 2 (is_pair (registers f)) (boxed_register (registers f)) (blocks f))"

definition tagged_register :: register_decl where
  "tagged_register = \<lparr>decl_name = None, decl_ty = TInt, borrowed = False, may_be_unassigned = False\<rparr>"

text \<open>One pair, over the registers the function has by then.\<close>

fun fuse_pair :: "(register_id \<Rightarrow> bool) \<Rightarrow> register_decl list \<Rightarrow> nat op list \<Rightarrow> register_decl list \<times> nat op list" where
  "fuse_pair drops rs [PlaceOp (Box boxed src), CallOp (CallPython d callee args)] =
     (let box = (if drops boxed then [] else [PlaceOp (Box boxed src)])
      in if fixed_width (type_among rs src)
         then (rs @ [tagged_register], box @ [PlaceOp (Box (length rs) src), StrOp (StrOfInt d (Register (length rs)))])
         else (rs, box @ [StrOp (StrOfInt d src)]))"
| "fuse_pair drops rs win = (rs, win)"

definition format_ints :: "bir_function \<Rightarrow> bir_function" where
  "format_ints f =
     (if str_pairs f = [] then f
      else let (rs, bs) = foldr (splice_block 2 (fuse_pair (droppable f))) (str_pairs f) (registers f, blocks f)
           in f\<lparr>registers := rs, blocks := bs\<rparr>)"

definition str_of_int_run :: "module_ir \<Rightarrow> module_ir" where
  "str_of_int_run = map_functions format_ints"

section \<open>A pair\<close>

lemma is_pair_cases:
  assumes "is_pair rs win"
  obtains boxed src d where
    "win = [PlaceOp (Box boxed src), CallOp (CallPython d (lit ''str'') [Register boxed])]" "integral (type_among rs src)"
    "boxed_register rs win = [boxed]"
  using assms by (cases "(rs, win)" rule: pair_of.cases) (auto simp: is_pair_def boxed_register_def split: if_splits)

definition extends :: "register_decl list \<Rightarrow> register_decl list \<Rightarrow> bool" where
  "extends rs rs' \<longleftrightarrow> (\<exists>more. rs' = rs @ more)"

interpretation pairing_up: windows 2 "is_pair rs" "fuse_pair drops" "extends rs" for rs drops
proof
  show "length win = 2" if "is_pair rs win" for win using that by (elim is_pair_cases) auto
  show "\<not> is_pair rs (take 2 (drop i win))" if win: "is_pair rs (take 2 win)" and i: "0 < i" "i < 2" for win i
  proof
    assume "is_pair rs (take 2 (drop i win))"
    then obtain boxed src where first: "take 2 (drop i win) ! 0 = PlaceOp (Box boxed src)" "0 < length (take 2 (drop i win))"
      by (elim is_pair_cases) auto
    have "take 2 win ! i = take 2 (drop i win) ! 0" "i = 1" using i first(2) by auto
    with win first(1) show False by (elim is_pair_cases) auto
  qed
  show "extends rs (fst (fuse_pair drops st win))" if "extends rs st" "is_pair rs win" for st win
    using that by (elim is_pair_cases) (auto simp: extends_def Let_def)
qed simp

text \<open>
  What the runtime promises: boxing an integer gives a value and does nothing else, as long as there is
  memory, and calling the name \<open>str\<close> on the box gives what formatting the integer, tagged or not, gives.
\<close>

definition formats_ints :: "('v, 'w) machine \<Rightarrow> bool" where
  "formats_ints M \<longleftrightarrow>
     (\<forall>n w. \<exists>b k. perform M (shape (PlaceOp (Box 0 VNone))) [n] None None w = Done b k w
        \<and> (\<forall>w. same_result (perform M (shape (CallOp (CallPython 0 (lit ''str'') [VNone]))) [b] None None w)
               (perform M (shape (StrOp (StrOfInt 0 VNone))) [n] None None w)
             \<and> same_result (perform M (shape (CallOp (CallPython 0 (lit ''str'') [VNone]))) [b] None None w)
               (perform M (shape (StrOp (StrOfInt 0 VNone))) [b] None None w)))"

lemma fused_pair_alike:
  fixes M :: "('v, 'w) machine"
  assumes "formats_ints M" "\<And>r. src = Register r \<Longrightarrow> r \<notin> T" "src \<noteq> Register boxed"
    and "box = (if boxed \<in> T then [] else [PlaceOp (Box boxed src)])"
    and "fused = [StrOp (StrOfInt d src)] \<or> (\<exists>t \<in> T. fused = [PlaceOp (Box t src), StrOp (StrOfInt d (Register t))])"
  shows "alike_but M T [PlaceOp (Box boxed src), CallOp (CallPython d (lit ''str'') [Register boxed])] (box @ fused)"
  unfolding alike_but_def
proof (intro allI impI)
  fix env env' :: "register_id \<Rightarrow> 'v" and w :: 'w
  assume agree: "\<forall>r. r \<notin> T \<longrightarrow> env' r = env r"
  let ?n = "value_in M env src"
  have same: "value_in M env' src = ?n" using agree assms(2) by (cases src) (auto simp: value_in_def)
  obtain b k where boxing: "perform M (shape (PlaceOp (Box 0 VNone))) [?n] None None w = Done b k w"
    and call: "\<And>w. same_result (perform M (shape (CallOp (CallPython 0 (lit ''str'') [VNone]))) [b] None None w)
               (perform M (shape (StrOp (StrOfInt 0 VNone))) [?n] None None w)"
      "\<And>w. same_result (perform M (shape (CallOp (CallPython 0 (lit ''str'') [VNone]))) [b] None None w)
               (perform M (shape (StrOp (StrOfInt 0 VNone))) [b] None None w)"
    using assms(1) unfolding formats_ints_def by metis
  have boxed: "exec_op M (PlaceOp (Box t src)) (e, w) = Inr (e(t := b), w)" if "value_in M e src = ?n" for t e
    using boxing that by (simp add: exec_plain attempt_def shape_def write_to_def)
  let ?called = "perform M (shape (CallOp (CallPython 0 (lit ''str'') [VNone]))) [b] None None w"
  have "exec_op M (CallOp (CallPython d (lit ''str'') [Register boxed])) (env(boxed := b), w)
      = (case ?called of Done v _ w' \<Rightarrow> Inr (env(boxed := b, d := v), w') | Fails _ w' \<Rightarrow> Inl (env(boxed := b), w'))"
    by (simp add: exec_plain attempt_def shape_def value_in_def write_to_def split: outcome.split)
  then have old: "run_ops M [PlaceOp (Box boxed src), CallOp (CallPython d (lit ''str'') [Register boxed])] (env, w)
      = (case ?called of Done v _ w' \<Rightarrow> Inr (env(boxed := b, d := v), w') | Fails _ w' \<Rightarrow> Inl (env(boxed := b), w'))"
    by (simp add: boxed [OF refl] split: outcome.split)
  have formatted: "exec_op M (StrOp (StrOfInt d u)) (e, w)
      = (case perform M (shape (StrOp (StrOfInt 0 VNone))) [value_in M e u] None None w of
           Done v _ w' \<Rightarrow> Inr (e(d := v), w') | Fails _ w' \<Rightarrow> Inl (e, w'))" for u e
    by (simp add: exec_plain attempt_def shape_def write_to_def split: outcome.split)
  define mid where "mid = (if boxed \<in> T then env' else env'(boxed := b))"
  have start: "run_ops M (box @ fused) (env', w) = run_ops M fused (mid, w)"
    using boxed [OF same] by (simp add: assms(4) mid_def)
  have still: "value_in M mid src = ?n" using same by (simp add: value_in_other [OF assms(3)] mid_def)
  have after: "\<forall>r. r \<notin> T \<longrightarrow> mid r = (env(boxed := b)) r" using agree by (auto simp: mid_def)
  show "rel_sum (agrees_but T) (agrees_but T)
     (run_ops M [PlaceOp (Box boxed src), CallOp (CallPython d (lit ''str'') [Register boxed])] (env, w)) (run_ops M (box @ fused) (env', w))"
    using assms(5)
  proof
    assume fused: "fused = [StrOp (StrOfInt d src)]"
    show ?thesis using call(1) [of w] after
      unfolding old start unfolding fused by (auto simp: formatted still same_result_def split: outcome.splits)
  next
    assume "\<exists>t \<in> T. fused = [PlaceOp (Box t src), StrOp (StrOfInt d (Register t))]"
    then obtain t where t: "t \<in> T" "fused = [PlaceOp (Box t src), StrOp (StrOfInt d (Register t))]" by blast
    have "value_in M (mid(t := b)) (Register t) = b" by (simp add: value_in_def)
    then show ?thesis using call(2) [of w] after t(1)
      unfolding old start unfolding t(2) by (auto simp: boxed [OF still] formatted same_result_def split: outcome.splits)
  qed
qed

section \<open>The function\<close>

text \<open>
  What the pass takes for granted: operations name registers the function has, no loop cursor is a box, no
  box is of its own register.
\<close>

definition boxes_apart :: "bir_function \<Rightarrow> bool" where
  "boxes_apart f \<longleftrightarrow>
     list_all (\<lambda>op. list_all (\<lambda>r. r < length (registers f)) (op_reads op @ option_list (loop_cursor op))
         \<and> list_all (\<lambda>r. r \<notin> set (found_registers 2 (is_pair (registers f)) (boxed_register (registers f)) (blocks f))) (option_list (loop_cursor op))
         \<and> (case op of PlaceOp (Box boxed src) \<Rightarrow> src \<noteq> Register boxed \<and> boxed < length (registers f) | _ \<Rightarrow> True)) (all_ops f)
     \<and> list_all (\<lambda>blk. list_all (\<lambda>r. r < length (registers f)) (filter_map register (term_operands (terminator blk)))) (blocks f)"

lemma pair_reads:
  assumes "is_pair rs seg"
  shows "count_list (boxed_register rs seg) r \<le> count_list (segment_reads seg) r"
  using assms by (elim is_pair_cases) (simp add: segment_reads_def count_op_reads)

lemma type_among_extends: "extends rs rs' \<Longrightarrow> type_among rs v = Some ty \<Longrightarrow> type_among rs' v = Some ty"
  by (auto simp: extends_def type_among_def get_Some_iff nth_append split: option.splits)

lemma fused_pair_is:
  assumes "extends (registers f) rs" "integral (type_among (registers f) src)"
  shows "\<exists>fused. snd (fuse_pair drops rs [PlaceOp (Box boxed src), CallOp (CallPython d callee args)])
      = (if drops boxed then [] else [PlaceOp (Box boxed src)]) @ fused
    \<and> (fused = [StrOp (StrOfInt d src)] \<or> (\<exists>t \<ge> length (registers f). fused = [PlaceOp (Box t src), StrOp (StrOfInt d (Register t))]))"
  using assms(1) by (auto simp: extends_def Let_def)

lemma format_ints_behaves:
  assumes "formats_ints M" "boxes_apart f"
  shows "call M (format_ints f) n args w = call M f n args w"
proof (cases "str_pairs f = []")
  case False
  let ?drops = "droppable f" and ?T = "Collect (droppable f) \<union> {length (registers f)..}"
  let ?new = "fuse_pair ?drops" and ?pair = "is_pair (registers f)"
  obtain rs bs where bs: "foldr (splice_block 2 ?new) (sites 2 ?pair (blocks f)) (registers f, blocks f) = (rs, bs)" by fastforce
  have "extends (registers f) (registers f)" by (simp add: extends_def)
  from sites_spliced [OF pairing_up.windows_axioms this bs]
  have from_old: "list_all2 (block_from 2 ?pair ?new (extends (registers f))) (blocks f) bs" by blast
  have elsewhere: "Register r \<notin> set (term_operands (terminator blk))"
    "\<And>seg. seg \<in> set (segments 2 ?pair (block_ops blk)) \<Longrightarrow>
       count_list (segment_reads seg) r = (if ?pair seg then count_list (boxed_register (registers f) seg) r else 0)"
    if "?drops r" "blk \<in> set (blocks f)" for r blk
    using wholly_owned_elsewhere [OF pairing_up.windows_axioms that(1) [unfolded droppable_def] pair_reads that(2)] by blast+
  have within: "r < length (registers f)" if "op \<in> set (all_ops f)" "r \<in> set (op_reads op) \<or> loop_cursor op = Some r" for op r
    using assms(2) that by (auto simp: boxes_apart_def list_all_iff)
  have op_at: "op \<in> set (all_ops f)" if "blk \<in> set (blocks f)" "seg \<in> set (segments 2 ?pair (block_ops blk))" "op \<in> set seg" for blk seg op
  proof -
    have "op \<in> set (block_ops blk)" using that(2,3) concat_segments [of 2 ?pair "block_ops blk"] by (metis UN_I set_concat)
    then show ?thesis using that(1) by (auto simp: all_ops_def)
  qed
  have alike: "alike_but M ?T seg seg'"
    if blk: "blk \<in> set (blocks f)" and seg: "seg \<in> set (segments 2 ?pair (block_ops blk))"
      and came: "segment_from ?pair ?new (extends (registers f)) seg seg'" for blk seg seg'
  proof (cases "?pair seg")
    case True
    then obtain boxed src d where win: "seg = [PlaceOp (Box boxed src), CallOp (CallPython d (lit ''str'') [Register boxed])]"
      "integral (type_among (registers f) src)" by (rule is_pair_cases)
    have box: "PlaceOp (Box boxed src) \<in> set (all_ops f)" using op_at [OF blk seg] win(1) by simp
    then have apart: "src \<noteq> Register boxed" "boxed < length (registers f)" using assms(2) by (auto simp: boxes_apart_def list_all_iff)
    have outer: "r \<notin> ?T" if "src = Register r" for r
      using elsewhere(2) [OF _ blk seg, of r] within [OF box, of r] that True win(2) apart
      by (auto simp: win(1) segment_reads_def count_op_reads boxed_register_def op_reads_def split: if_splits)
    obtain st where st: "extends (registers f) st" "seg' = snd (?new st seg)" using came True by (auto simp: segment_from_def)
    obtain fused where fused: "seg' = (if ?drops boxed then [] else [PlaceOp (Box boxed src)]) @ fused"
      "fused = [StrOp (StrOfInt d src)] \<or> (\<exists>t \<ge> length (registers f). fused = [PlaceOp (Box t src), StrOp (StrOfInt d (Register t))])"
      using fused_pair_is [OF st(1) win(2), of ?drops boxed d "lit ''str''" "[Register boxed]"] st(2) by (auto simp: win(1))
    have "boxed \<in> ?T \<longleftrightarrow> ?drops boxed" using apart(2) by auto
    then show ?thesis unfolding win(1) fused(1)
      by (intro fused_pair_alike [OF assms(1) outer apart(1)]) (use fused(2) in auto)
  next
    case False
    have "r \<notin> ?T" if op: "op \<in> set seg" "r \<in> looks_at op" for op r
    proof
      assume r: "r \<in> ?T"
      have looks: "r \<in> set (op_reads op) \<or> loop_cursor op = Some r"
        using op(2) by (auto simp: looks_at_def op_reads_def set_filter_map register_eq_Some_iff)
      then have "r < length (registers f)" using within op_at [OF blk seg op(1)] by blast
      then have drops: "?drops r" using r by auto
      then have "count_list (op_reads op) r = 0"
        using elsewhere(2) [OF drops blk seg] False op(1) by (auto simp: segment_reads_def count_list_concat_map sum_list_eq_0_iff)
      then have "loop_cursor op = Some r" using looks by (simp add: count_list_0_iff)
      moreover have "r \<in> set (found_registers 2 ?pair (boxed_register (registers f)) (blocks f))"
        using drops by (simp add: droppable_def wholly_owned_def)
      ultimately show False using assms(2) op_at [OF blk seg op(1)] by (auto simp: boxes_apart_def list_all_iff)
    qed
    then have "alike_but M ?T seg seg" by (intro alike_but_same) blast
    then show ?thesis using came False by (simp add: segment_from_def)
  qed
  have ends: "r \<notin> ?T" if "blk \<in> set (blocks f)" "Register r \<in> set (term_operands (terminator blk))" for blk r
    using that elsewhere(1) assms(2) by (fastforce simp: boxes_apart_def list_all_iff set_filter_map register_eq_Some_iff)
  have "call M (f\<lparr>registers := rs, blocks := bs\<rparr>) n args w = call M f n args w"
    by (rule spliced_function_behaves [where T = ?T]) (use from_old ends alike in auto)
  then show ?thesis using False bs by (simp add: format_ints_def str_pairs_def)
qed (simp add: format_ints_def)

end
