(* ===== verification/Opt_StrConcatInt.thy ===== *)
theory Opt_StrConcatInt
  imports Opt_StrOfInt
begin

text \<open>
  \<^verbatim>\<open>by_opt/src/str_concat_int.rs\<close>: the digits of an integer, checked to be a string and appended to another,
  become one operation where nothing else sees the two strings in between. On a machine whose one
  operation does what the three do, the pass changes no answer. It runs on what \<open>Opt_StrOfInt\<close> leaves, and
  the property is of both together.
\<close>

section \<open>The pass\<close>

text \<open>The digits and the checked string a window passes along.\<close>

fun chain_of :: "nat op list \<Rightarrow> (register_id \<times> register_id) option" where
  "chain_of [StrOp (StrOfInt digits _), PlaceOp (Unbox checked src to _), StrOp (StrConcat _ _ rhs consumes_lhs (Operator _))] =
     (if consumes_lhs \<or> to \<noteq> TStr \<or> src \<noteq> Register digits \<or> rhs \<noteq> Register checked then None
      else Some (digits, checked))"
| "chain_of _ = None"

definition is_chain :: "nat op list \<Rightarrow> bool" where
  "is_chain win \<longleftrightarrow> chain_of win \<noteq> None"

definition chain_registers :: "nat op list \<Rightarrow> register_id list" where
  "chain_registers win = (case chain_of win of Some (digits, checked) \<Rightarrow> [digits, checked] | None \<Rightarrow> [])"

definition chains :: "bir_function \<Rightarrow> (block_id \<times> nat) list" where
  "chains f = sites 3 is_chain (blocks f)"

definition owned_strings :: "bir_function \<Rightarrow> register_id \<Rightarrow> bool" where
  "owned_strings f = wholly_owned f (found_registers 3 is_chain chain_registers (blocks f))"

fun fuse_window :: "(register_id \<Rightarrow> bool) \<Rightarrow> unit \<Rightarrow> nat op list \<Rightarrow> unit \<times> nat op list" where
  "fuse_window owned s [StrOp (StrOfInt digits v), PlaceOp (Unbox checked src to prv), StrOp (StrConcat d lhs rhs consumes_lhs (Operator m))] =
     (s, if owned digits \<and> owned checked then [StrOp (StrConcatInt d lhs v m)]
         else [StrOp (StrOfInt digits v), PlaceOp (Unbox checked src to prv), StrOp (StrConcat d lhs rhs consumes_lhs (Operator m))])"
| "fuse_window owned s win = (s, win)"

definition fuse_strings :: "bir_function \<Rightarrow> bir_function" where
  "fuse_strings f =
     (if chains f = [] then f
      else f\<lparr>blocks := snd (foldr (splice_block 3 (fuse_window (owned_strings f))) (chains f) ((), blocks f))\<rparr>)"

definition str_concat_int_run :: "module_ir \<Rightarrow> module_ir" where
  "str_concat_int_run = map_functions fuse_strings"

section \<open>A chain\<close>

lemma is_chain_cases:
  assumes "is_chain win"
  obtains digits v checked prv d lhs m where
    "win = [StrOp (StrOfInt digits v), PlaceOp (Unbox checked (Register digits) TStr prv),
       StrOp (StrConcat d lhs (Register checked) False (Operator m))]"
    "chain_registers win = [digits, checked]"
  using assms by (cases win rule: chain_of.cases) (auto simp: is_chain_def chain_registers_def split: if_splits)

interpretation chaining: windows 3 is_chain "fuse_window owned" "\<lambda>_. True" for owned
proof
  show "length win = 3" if "is_chain win" for win using that by (elim is_chain_cases) auto
  show "\<not> is_chain (take 3 (drop i win))" if win: "is_chain (take 3 win)" and i: "0 < i" "i < 3" for win i
  proof
    assume "is_chain (take 3 (drop i win))"
    then obtain digits v where first: "take 3 (drop i win) ! 0 = StrOp (StrOfInt digits v)" "0 < length (take 3 (drop i win))"
      by (elim is_chain_cases) auto
    have "take 3 win ! i = take 3 (drop i win) ! 0" using i first(2) by auto
    moreover from win have "\<exists>checked src to prv d lhs rhs c k.
        take 3 win ! i \<in> {PlaceOp (Unbox checked src to prv), StrOp (StrConcat d lhs rhs c k)}"
      using i by (elim is_chain_cases) (auto simp: less_Suc_eq numeral_3_eq_3)
    ultimately show False using first(1) by auto
  qed
qed auto

text \<open>
  What the runtime promises of the fused operation: the string of the integer, checked, appended. It is the
  name \<open>str\<close> and what it is bound to that can give anything but a string, which the operation asks too.
\<close>

definition appends_digits :: "('v, 'w) machine \<Rightarrow> bool" where
  "appends_digits M \<longleftrightarrow>
     (\<forall>l n m prv w. same_result
        (perform M (shape (StrOp (StrConcatInt 0 VNone VNone m))) [l, n] None None w)
        (case perform M (shape (StrOp (StrOfInt 0 VNone))) [n] None None w of
           Fails k w' \<Rightarrow> Fails k w'
         | Done s _ w' \<Rightarrow>
             (case perform M (shape (PlaceOp (Unbox 0 VNone TStr prv))) [s] None None w' of
                Fails k w'' \<Rightarrow> Fails k w''
              | Done t _ w'' \<Rightarrow> perform M (shape (StrOp (StrConcat 0 VNone VNone False (Operator m)))) [l, t] None None w'')))"

lemma fused_chain_alike:
  fixes M :: "('v, 'w) machine"
  assumes "appends_digits M" "digits \<in> T" "checked \<in> T"
    and "\<And>r. v = Register r \<or> lhs = Register r \<Longrightarrow> r \<notin> T"
  shows "alike_but M T
     [StrOp (StrOfInt digits v), PlaceOp (Unbox checked (Register digits) TStr prv),
      StrOp (StrConcat d lhs (Register checked) False (Operator m))]
     [StrOp (StrConcatInt d lhs v m)]"
  unfolding alike_but_def
proof (intro allI impI)
  fix env env' :: "register_id \<Rightarrow> 'v" and w :: 'w
  assume agree: "\<forall>r. r \<notin> T \<longrightarrow> env' r = env r"
  let ?one = "StrOp (StrOfInt digits v)" and ?two = "PlaceOp (Unbox checked (Register digits) TStr prv)"
    and ?three = "StrOp (StrConcat d lhs (Register checked) False (Operator m))" and ?fused = "StrOp (StrConcatInt d lhs v m)"
  have same: "value_in M env' u = value_in M env u" if "u = v \<or> u = lhs" for u
    using agree assms(4) that by (cases u) (auto simp: value_in_def)
  have lhs: "lhs \<noteq> Register digits" "lhs \<noteq> Register checked" using assms(2-4) by auto
  have fused: "attempt M ?fused env' w
      = perform M (shape (StrOp (StrConcatInt 0 VNone VNone m))) [value_in M env lhs, value_in M env v] None None w"
    by (simp add: attempt_def shape_def same)
  have one: "attempt M ?one env w = perform M (shape (StrOp (StrOfInt 0 VNone))) [value_in M env v] None None w"
    by (simp add: attempt_def shape_def)
  have two: "attempt M ?two (env(digits := s)) w' = perform M (shape (PlaceOp (Unbox 0 VNone TStr prv))) [s] None None w'" for s w'
    by (simp add: attempt_def shape_def value_in_def)
  have three: "attempt M ?three (env(digits := s, checked := t)) w'
      = perform M (shape (StrOp (StrConcat 0 VNone VNone False (Operator m)))) [value_in M env lhs, t] None None w'" for s t w'
    by (simp add: attempt_def shape_def value_in_other lhs) (simp add: value_in_def)
  have law: "same_result (attempt M ?fused env' w)
      (case attempt M ?one env w of
         Fails k w' \<Rightarrow> Fails k w'
       | Done s _ w' \<Rightarrow>
           (case attempt M ?two (env(digits := s)) w' of
              Fails k w'' \<Rightarrow> Fails k w''
            | Done t _ w'' \<Rightarrow> attempt M ?three (env(digits := s, checked := t)) w''))"
    using assms(1) unfolding appends_digits_def fused one two three by blast
  show "rel_sum (agrees_but T) (agrees_but T) (run_ops M [?one, ?two, ?three] (env, w)) (run_ops M [?fused] (env', w))"
  proof (cases "attempt M ?one env w")
    case (Fails k w')
    with law agree show ?thesis by (auto simp: exec_plain same_result_def split: outcome.splits)
  next
    case one': (Done s k w')
    show ?thesis
    proof (cases "attempt M ?two (env(digits := s)) w'")
      case (Fails k w'')
      with law one' agree assms(2) show ?thesis
        by (auto simp: exec_plain same_result_def write_to_def split: outcome.splits)
    next
      case (Done t k w'')
      with law one' agree assms(2,3) show ?thesis
        by (auto simp: exec_plain same_result_def write_to_def split: outcome.splits)
    qed
  qed
qed

section \<open>The function\<close>

text \<open>What the counting does not see: no loop cursor is a register a chain passes its string along.\<close>

definition kept_cursors :: "bir_function \<Rightarrow> bool" where
  "kept_cursors f \<longleftrightarrow>
     list_all (\<lambda>op. list_all (\<lambda>r. r \<notin> set (found_registers 3 is_chain chain_registers (blocks f))) (option_list (loop_cursor op)))
       (all_ops f)"

lemma chain_reads:
  assumes "is_chain seg"
  shows "count_list (chain_registers seg) r \<le> count_list (segment_reads seg) r"
  using assms by (elim is_chain_cases) (simp add: segment_reads_def count_op_reads)

lemma fuse_strings_behaves:
  assumes "appends_digits M" "kept_cursors f"
  shows "call M (fuse_strings f) n args w = call M f n args w"
proof (cases "chains f = []")
  case False
  let ?owned = "owned_strings f" and ?T = "Collect (owned_strings f)"
  let ?new = "fuse_window ?owned"
  define bs where "bs = snd (foldr (splice_block 3 ?new) (sites 3 is_chain (blocks f)) ((), blocks f))"
  then have bs: "foldr (splice_block 3 ?new) (sites 3 is_chain (blocks f)) ((), blocks f) = ((), bs)" by (simp add: prod_eq_iff)
  have from_old: "list_all2 (block_from 3 is_chain ?new (\<lambda>_. True)) (blocks f) bs"
    using sites_spliced [OF chaining.windows_axioms _ bs] by simp
  have elsewhere: "Register r \<notin> set (term_operands (terminator blk))"
    "\<And>seg. seg \<in> set (segments 3 is_chain (block_ops blk)) \<Longrightarrow>
       count_list (segment_reads seg) r = (if is_chain seg then count_list (chain_registers seg) r else 0)"
    if "?owned r" "blk \<in> set (blocks f)" for r blk
    using wholly_owned_elsewhere [OF chaining.windows_axioms that(1) [unfolded owned_strings_def] chain_reads that(2)] by blast+
  have alike: "alike_but M ?T seg seg'"
    if blk: "blk \<in> set (blocks f)" and seg: "seg \<in> set (segments 3 is_chain (block_ops blk))"
      and "segment_from is_chain ?new (\<lambda>_. True) seg seg'" for blk seg seg'
  proof (cases "is_chain seg")
    case True
    then obtain digits v checked prv d lhs m where win: "seg = [StrOp (StrOfInt digits v), PlaceOp (Unbox checked (Register digits) TStr prv),
       StrOp (StrConcat d lhs (Register checked) False (Operator m))]" "chain_registers seg = [digits, checked]"
      by (rule is_chain_cases)
    have outer: "r \<notin> ?T" if "v = Register r \<or> lhs = Register r" for r
      using elsewhere(2) [OF _ blk seg, of r] that True by (auto simp: win(1) segment_reads_def count_op_reads chain_registers_def split: if_splits)
    show ?thesis
    proof (cases "?owned digits \<and> ?owned checked")
      case both: True
      then have "seg' = [StrOp (StrConcatInt d lhs v m)]" using that(3) True by (auto simp: segment_from_def win(1))
      then show ?thesis using fused_chain_alike [OF assms(1), where T = ?T] both outer by (simp add: win(1))
    next
      case False
      then have "seg' = seg" using that(3) True by (auto simp: segment_from_def win(1))
      moreover have "reads_settled ?T seg" using outer by (auto simp: win(1) looks_at_def)
      ultimately show ?thesis using settled_alike by simp
    qed
  next
    case False
    have "r \<notin> ?T" if "op \<in> set seg" "r \<in> looks_at op" for op r
    proof
      assume r: "r \<in> ?T"
      then have "count_list (op_reads op) r = 0"
        using elsewhere(2) [OF _ blk seg, of r] False that(1) by (auto simp: segment_reads_def count_list_concat_map sum_list_eq_0_iff)
      moreover have "loop_cursor op \<noteq> Some r"
      proof -
        have "op \<in> set (block_ops blk)" using seg that(1) concat_segments [of 3 is_chain "block_ops blk"] by (metis UN_I set_concat)
        then have "op \<in> set (all_ops f)" using blk by (auto simp: all_ops_def)
        moreover have "r \<in> set (found_registers 3 is_chain chain_registers (blocks f))"
          using r by (simp add: owned_strings_def wholly_owned_def)
        ultimately show ?thesis using assms(2) by (auto simp: kept_cursors_def list_all_iff)
      qed
      ultimately show False using that(2) by (auto simp: looks_at_def count_op_reads count_list_0_iff)
    qed
    then have "alike_but M ?T seg seg" by (intro alike_but_same) blast
    then show ?thesis using that(3) False by (simp add: segment_from_def)
  qed
  have "call M (f\<lparr>blocks := bs\<rparr>) n args w = call M f n args w"
    by (rule spliced_function_behaves [where T = ?T]) (use from_old elsewhere(1) alike in auto)
  then show ?thesis using False bs by (simp add: fuse_strings_def chains_def)
qed (simp add: fuse_strings_def)

section \<open>A machine to look at\<close>

text \<open>Values are texts, an integer its digits; \<open>str\<close> of nothing raises.\<close>

fun digit_perform :: "nat op \<Rightarrow> ustr list \<Rightarrow> ustr option \<Rightarrow> ustr option \<Rightarrow> nat \<Rightarrow> (ustr, nat) outcome" where
  "digit_perform (StrOp (StrOfInt _ _)) [s] c u w = (if s = [] then Fails [] w else Done s [] w)"
| "digit_perform (StrOp (StrConcatInt _ _ _ _)) [l, s] c u w = (if s = [] then Fails [] w else Done (l @ s) [] w)"
| "digit_perform (CallOp (CallPython _ _ _)) [s] c u w = (if s = [] then Fails [] w else Done s [] w)"
| "digit_perform _ vs c u w = Done (concat vs) [] w"

definition digit_machine :: "(ustr, nat) machine" where
  "digit_machine = text_machine\<lparr>perform := digit_perform\<rparr>"

lemma digit_machine_appends: "appends_digits digit_machine"
  by (auto simp: appends_digits_def digit_machine_def same_result_def shape_def)

lemma digit_machine_formats: "formats_ints digit_machine"
  by (auto simp: formats_ints_def digit_machine_def same_result_def shape_def)

definition naming :: "nat op list \<Rightarrow> bir_function" where
  "naming ops = plain_function\<lparr>
     ret := TStr,
     registers := map (\<lambda>(n, ty). \<lparr>decl_name = n, decl_ty = ty, borrowed = False, may_be_unassigned = False\<rparr>)
       [(Some (lit ''i''), TInt), (None, TObject), (None, TObject), (None, TStr), (None, TStr), (Some (lit ''digits''), TObject),
        (None, TFixed I64)],
     blocks := [\<lparr>block_ops = ops, terminator = Return (Register 4), owned_at_exit = None, block_range = None,
       block_position = None, error_target = None\<rparr>]\<rparr>"

text \<open>\<open>"k" + str(i)\<close>, by way of a box, a register for the digits, and one for the checked string.\<close>

abbreviation named_after :: "nat \<Rightarrow> nat \<Rightarrow> nat op list" where
  "named_after i digits \<equiv> [PlaceOp (Box 1 (Register i)), CallOp (CallPython digits (lit ''str'') [Register 1]),
     PlaceOp (Unbox 3 (Register digits) TStr False), StrOp (StrConcat 4 (VStr (lit ''k'')) (Register 3) False (Operator Fresh))]"

section \<open>Properties\<close>

text \<open>
  C8. The two passes that write the digits of an integer straight into a string, one after the other: on a
  machine whose operations give what the calls and concatenations they replace give, the function they leave
  gives, after every number of blocks, the answer the old one gave, in the same world. A box and a string
  that are never built were seen by nothing else. No loop cursor may be such a register.
\<close>

theorem digits_are_written_straight:
  assumes "formats_ints M" "appends_digits M" "boxes_apart f" "kept_cursors (format_ints f)"
  shows "call M (fuse_strings (format_ints f)) n args w = call M f n args w"
  using fuse_strings_behaves [OF assms(2,4)] format_ints_behaves [OF assms(1,3)] by simp

theorem digits_are_written_straight_witness:
  "let f = naming (named_after 0 2 @ named_after 6 2); g = fuse_strings (format_ints f)
   in map block_ops (blocks g) = [[StrOp (StrConcatInt 4 (VStr (lit ''k'')) (Register 0) Fresh),
        PlaceOp (Box 7 (Register 6)), StrOp (StrConcatInt 4 (VStr (lit ''k'')) (Register 7) Fresh)]]
      \<and> map block_ops (blocks (fuse_strings (format_ints (naming (named_after 0 5)))))
        = [StrOp (StrOfInt 5 (Register 0)) # drop 2 (named_after 0 5)]
      \<and> call digit_machine g 1 (\<lambda>_. lit ''7'') 0 = call digit_machine f 1 (\<lambda>_. lit ''7'') 0"
proof -
  let ?f = "naming (named_after 0 2 @ named_after 6 2)"
  have "map block_ops (blocks (fuse_strings (format_ints ?f))) = [[StrOp (StrConcatInt 4 (VStr (lit ''k'')) (Register 0) Fresh),
      PlaceOp (Box 7 (Register 6)), StrOp (StrConcatInt 4 (VStr (lit ''k'')) (Register 7) Fresh)]]"
    by code_simp
  moreover have "map block_ops (blocks (fuse_strings (format_ints (naming (named_after 0 5)))))
      = [StrOp (StrOfInt 5 (Register 0)) # drop 2 (named_after 0 5)]" by code_simp
  moreover have "boxes_apart ?f" "kept_cursors (format_ints ?f)" by code_simp+
  then have "call digit_machine (fuse_strings (format_ints ?f)) 1 (\<lambda>_. lit ''7'') 0 = call digit_machine ?f 1 (\<lambda>_. lit ''7'') 0"
    by (rule digits_are_written_straight [OF digit_machine_formats digit_machine_appends])
  ultimately show ?thesis by (simp add: Let_def)
qed

end
