(* ===== verification/Res_Parse.thy ===== *)
theory Res_Parse
  imports BIR_Prelude
begin

text \<open>
  \<^verbatim>\<open>by_resource/src/value.rs\<close> and \<^verbatim>\<open>by_resource/src/parse.rs\<close>: reading a json, toml or yaml document into
  one tree, within a budget of values and levels. What the three parsers hand over is data here:
  the calls \<open>serde_json\<close> makes on a visitor, the table \<open>toml_edit\<close> has read, the events of
  \<open>saphyr_parser\<close>; the parsers themselves, and how yaml reads the text of a scalar, are parameters.
  The yaml reader is a machine over events with a stack of its own. It is shown to read what a
  reader that recurses over the document would, to never hold more values or levels than the budget
  has, and a mapping to keep the last value of each key.
\<close>

section \<open>Values\<close>

datatype resource =
    RNull
  | RBool bool
  | RInt i64
  | RBigInt ustr
  | RFloat "64 word"
  | RStr ustr
  | RSeq "resource list"
  | RMap "(ustr \<times> resource) list"

fun res_size :: "resource \<Rightarrow> nat" where
  "res_size (RSeq items) = 1 + sum_list (map res_size items)"
| "res_size (RMap entries) = 1 + sum_list (map (\<lambda>(_, v). res_size v) entries)"
| "res_size _ = 1"

text \<open>\<open>iter().max().unwrap_or(0)\<close>\<close>

definition max_or_0 :: "nat list \<Rightarrow> nat" where
  "max_or_0 ns = fold max ns 0"

fun res_depth :: "resource \<Rightarrow> nat" where
  "res_depth (RSeq items) = 1 + max_or_0 (map res_depth items)"
| "res_depth (RMap entries) = 1 + max_or_0 (map (\<lambda>(_, v). res_depth v) entries)"
| "res_depth _ = 1"

section \<open>Formats and errors\<close>

datatype resource_format = Json | Toml | Yaml

definition from_extension :: "ustr \<Rightarrow> resource_format option" where
  "from_extension extension =
     (if extension = lit ''json'' then Some Json
      else if extension = lit ''toml'' then Some Toml
      else if extension = lit ''yaml'' \<or> extension = lit ''yml'' then Some Yaml
      else None)"

definition extensions :: "ustr list" where
  "extensions = [lit ''json'', lit ''toml'', lit ''yaml'', lit ''yml'']"

fun format_name :: "resource_format \<Rightarrow> ustr" where
  "format_name Json = lit ''json''"
| "format_name Toml = lit ''toml''"
| "format_name Yaml = lit ''yaml''"

text \<open>A \<open>ParseError\<close> is its message; \<open>?\<close> goes on with what was read, or returns the error.\<close>

type_synonym 'a parsed = "ustr + 'a"

definition and_then :: "'a parsed \<Rightarrow> ('a \<Rightarrow> 'b parsed) \<Rightarrow> 'b parsed" where
  "and_then x g = (case x of Inl e \<Rightarrow> Inl e | Inr v \<Rightarrow> g v)"

lemma and_then_simps [simp]: "and_then (Inl e) g = Inl e" "and_then (Inr v) g = g v"
  by (simp_all add: and_then_def)

lemma and_then_Inr_iff: "and_then x g = Inr y \<longleftrightarrow> (\<exists>v. x = Inr v \<and> g v = Inr y)"
  by (cases x) auto

lemma and_then_assoc: "and_then (and_then x g) h = and_then x (\<lambda>v. and_then (g v) h)"
  by (cases x) auto

definition MAX_NODES :: nat where
  "MAX_NODES = 100000"

definition MAX_DEPTH :: nat where
  "MAX_DEPTH = 32"

definition too_large :: ustr where
  "too_large = lit ''the document holds more than '' @ decimal MAX_NODES
     @ lit '' values, which is too large to import as a static resource''"

definition too_deep :: ustr where
  "too_deep = lit ''the document nests more than '' @ decimal MAX_DEPTH
     @ lit '' levels deep, which is too deep to import as a static resource''"

section \<open>The budget\<close>

record budget =
  nodes :: nat
  levels :: nat

definition new_budget :: budget where
  "new_budget = \<lparr>nodes = MAX_NODES, levels = MAX_DEPTH\<rparr>"

definition charge :: "nat \<Rightarrow> budget \<Rightarrow> budget parsed" where
  "charge n b = (if n \<le> nodes b then Inr (b\<lparr>nodes := nodes b - n\<rparr>) else Inl too_large)"

definition enter :: "budget \<Rightarrow> budget parsed" where
  "enter b = and_then (charge 1 b) (\<lambda>b.
     if 1 \<le> levels b then Inr (b\<lparr>levels := levels b - 1\<rparr>) else Inl too_deep)"

definition leave_level :: "budget \<Rightarrow> budget" where
  "leave_level b = b\<lparr>levels := levels b + 1\<rparr>"

section \<open>Mappings\<close>

text \<open>An earlier entry of the same key is emptied rather than removed.\<close>

record entries =
  slots :: "(ustr \<times> resource) option list"
  positions :: "ustr \<rightharpoonup> nat"

definition no_entries :: entries where
  "no_entries = \<lparr>slots = [], positions = Map.empty\<rparr>"

definition insert_entry :: "ustr \<Rightarrow> resource \<Rightarrow> entries \<Rightarrow> entries" where
  "insert_entry key v e =
     \<lparr>slots = (case positions e key of Some previous \<Rightarrow> (slots e)[previous := None] | None \<Rightarrow> slots e) @ [Some (key, v)],
      positions = (positions e)(key \<mapsto> length (slots e))\<rparr>"

definition kept :: "entries \<Rightarrow> (ustr \<times> resource) list" where
  "kept e = filter_map id (slots e)"

definition into_value :: "entries \<Rightarrow> resource" where
  "into_value e = RMap (kept e)"

section \<open>Json\<close>

text \<open>What \<open>serde_json\<close> calls the visitor with.\<close>

datatype json_visit =
    VisitUnit
  | VisitBool bool
  | VisitI64 i64
  | VisitU64 "64 word"
  | VisitF64 "64 word"
  | VisitStr ustr
  | VisitSeq "json_visit list"
  | VisitMap "(ustr \<times> json_visit) list"

definition visit_u64 :: "64 word \<Rightarrow> resource" where
  "visit_u64 v = (if unat v < 2 ^ 63 then RInt v else RBigInt (decimal (unat v)))"

fun document_visitor :: "json_visit \<Rightarrow> resource" where
  "document_visitor VisitUnit = RNull"
| "document_visitor (VisitBool b) = RBool b"
| "document_visitor (VisitI64 v) = RInt v"
| "document_visitor (VisitU64 v) = visit_u64 v"
| "document_visitor (VisitF64 v) = RFloat v"
| "document_visitor (VisitStr s) = RStr s"
| "document_visitor (VisitSeq items) = RSeq (map document_visitor items)"
| "document_visitor (VisitMap kvs) =
     into_value (fold (\<lambda>(k, v). insert_entry k v) (map (\<lambda>(k, v). (k, document_visitor v)) kvs) no_entries)"

section \<open>Toml\<close>

text \<open>The values and items of \<open>toml_edit\<close>; a datetime is the text it displays as.\<close>

datatype toml_value =
    TomlString ustr
  | TomlInteger i64
  | TomlFloat "64 word"
  | TomlBoolean bool
  | TomlDatetime ustr
  | TomlArray "toml_value list"
  | TomlInlineTable "(ustr \<times> toml_value) list"

datatype toml_item =
    ItemValue toml_value
  | ItemTable "(ustr \<times> toml_item) list"
  | ItemArrayOfTables "(ustr \<times> toml_item) list list"
  | ItemNone

fun from_toml_value :: "toml_value \<Rightarrow> resource" where
  "from_toml_value (TomlString s) = RStr s"
| "from_toml_value (TomlInteger i) = RInt i"
| "from_toml_value (TomlFloat x) = RFloat x"
| "from_toml_value (TomlBoolean b) = RBool b"
| "from_toml_value (TomlDatetime s) = RStr s"
| "from_toml_value (TomlArray items) = RSeq (map from_toml_value items)"
| "from_toml_value (TomlInlineTable table) =
     into_value (fold (\<lambda>(k, v). insert_entry k v) (map (\<lambda>(k, v). (k, from_toml_value v)) table) no_entries)"

fun from_toml_item :: "toml_item \<Rightarrow> resource" and from_toml_table :: "(ustr \<times> toml_item) list \<Rightarrow> resource"
  and from_toml_entries :: "(ustr \<times> toml_item) list \<Rightarrow> (ustr \<times> resource) list"
  and from_toml_tables :: "(ustr \<times> toml_item) list list \<Rightarrow> resource list" where
  "from_toml_item (ItemValue v) = from_toml_value v"
| "from_toml_item (ItemTable table) = from_toml_table table"
| "from_toml_item (ItemArrayOfTables tables) = RSeq (from_toml_tables tables)"
| "from_toml_item ItemNone = RNull"
| "from_toml_table table = into_value (fold (\<lambda>(k, v). insert_entry k v) (from_toml_entries table) no_entries)"
| "from_toml_entries [] = []"
| "from_toml_entries ((k, item) # rest) = (k, from_toml_item item) # from_toml_entries rest"
| "from_toml_tables [] = []"
| "from_toml_tables (t # ts) = from_toml_table t # from_toml_tables ts"

section \<open>Yaml\<close>

text \<open>The events of \<open>saphyr_parser\<close>; an anchor is a number, 0 where there is none.\<close>

datatype ('s, 't) yaml_event =
    NothingEvent
  | StreamStart
  | StreamEnd
  | DocumentStart bool
  | DocumentEnd
  | Alias nat
  | Scalar ustr 's nat 't
  | SequenceStart nat 't
  | SequenceEnd
  | MappingStart nat 't
  | MappingEnd

datatype yaml_scalar =
    ScalarNull
  | ScalarBoolean bool
  | ScalarInteger i64
  | ScalarFloatingPoint "64 word"
  | ScalarString ustr

fun yaml_scalar_value :: "yaml_scalar \<Rightarrow> resource" where
  "yaml_scalar_value ScalarNull = RNull"
| "yaml_scalar_value (ScalarBoolean b) = RBool b"
| "yaml_scalar_value (ScalarInteger i) = RInt i"
| "yaml_scalar_value (ScalarFloatingPoint x) = RFloat x"
| "yaml_scalar_value (ScalarString s) = RStr s"

type_synonym ('s, 't) scalar_reader = "ustr \<Rightarrow> 's \<Rightarrow> 't \<Rightarrow> yaml_scalar option"

text \<open>The frames are a stack, the innermost first.\<close>

datatype frame = Sequence nat "resource list" | Mapping nat entries "ustr option"

record yaml_reader =
  budget_left :: budget
  frames :: "frame list"
  anchors :: "nat \<rightharpoonup> resource"
  document :: "resource option"
  documents :: nat

definition new_reader :: yaml_reader where
  "new_reader = \<lparr>budget_left = new_budget, frames = [], anchors = Map.empty, document = None, documents = 0\<rparr>"

definition key_not_string :: ustr where
  "key_not_string = lit ''a mapping key is not a string, and a static resource is read through its keys''"

definition many_documents :: ustr where
  "many_documents = lit ''the file holds more than one yaml document, and a static resource is a single value''"

definition unreadable_scalar :: ustr where
  "unreadable_scalar = lit ''the document holds a value yaml could not read''"

definition undefined_anchor :: ustr where
  "undefined_anchor = lit ''the document uses a yaml alias for an anchor it never defined''"

definition place :: "resource \<Rightarrow> nat \<Rightarrow> yaml_reader \<Rightarrow> yaml_reader parsed" where
  "place v anchor r =
     (let r = (if anchor \<noteq> 0 then r\<lparr>anchors := (anchors r)(anchor \<mapsto> v)\<rparr> else r)
      in case frames r of
           Sequence a items # rest \<Rightarrow> Inr (r\<lparr>frames := Sequence a (items @ [v]) # rest\<rparr>)
         | Mapping a e (Some name) # rest \<Rightarrow> Inr (r\<lparr>frames := Mapping a (insert_entry name v e) None # rest\<rparr>)
         | Mapping a e None # rest \<Rightarrow>
             (case v of
                RStr name \<Rightarrow> Inr (r\<lparr>frames := Mapping a e (Some name) # rest\<rparr>)
              | _ \<Rightarrow> Inl key_not_string)
         | [] \<Rightarrow> Inr (r\<lparr>document := Some v\<rparr>))"

text \<open>Taking the innermost frame off, as the value it holds.\<close>

definition end_collection :: "yaml_reader \<Rightarrow> yaml_reader parsed" where
  "end_collection r =
     (let r = r\<lparr>budget_left := leave_level (budget_left r)\<rparr>
      in case frames r of
           Sequence a items # rest \<Rightarrow> place (RSeq items) a (r\<lparr>frames := rest\<rparr>)
         | Mapping a e _ # rest \<Rightarrow> place (into_value e) a (r\<lparr>frames := rest\<rparr>)
         | [] \<Rightarrow> Inr r)"

fun read_event :: "('s, 't) scalar_reader \<Rightarrow> ('s, 't) yaml_event \<Rightarrow> yaml_reader \<Rightarrow> yaml_reader parsed" where
  "read_event P (DocumentStart _) r =
     (let r = r\<lparr>documents := documents r + 1\<rparr> in if 1 < documents r then Inl many_documents else Inr r)"
| "read_event P (Scalar txt style anchor tag) r =
     and_then (enter (budget_left r)) (\<lambda>b.
       (case P txt style tag of
          None \<Rightarrow> Inl unreadable_scalar
        | Some scalar \<Rightarrow> place (yaml_scalar_value scalar) anchor (r\<lparr>budget_left := leave_level b\<rparr>)))"
| "read_event P (SequenceStart anchor _) r =
     and_then (enter (budget_left r)) (\<lambda>b. Inr (r\<lparr>budget_left := b, frames := Sequence anchor [] # frames r\<rparr>))"
| "read_event P (MappingStart anchor _) r =
     and_then (enter (budget_left r)) (\<lambda>b. Inr (r\<lparr>budget_left := b, frames := Mapping anchor no_entries None # frames r\<rparr>))"
| "read_event P SequenceEnd r = end_collection r"
| "read_event P MappingEnd r = end_collection r"
| "read_event P (Alias anchor) r =
     (case anchors r anchor of
        None \<Rightarrow> Inl undefined_anchor
      | Some v \<Rightarrow> and_then (charge (res_size v) (budget_left r)) (\<lambda>b. place v 0 (r\<lparr>budget_left := b\<rparr>)))"
| "read_event P _ r = Inr r"

fun read_events :: "('s, 't) scalar_reader \<Rightarrow> ('s, 't) yaml_event parsed list \<Rightarrow> yaml_reader \<Rightarrow> yaml_reader parsed" where
  "read_events P [] r = Inr r"
| "read_events P (event # rest) r = and_then event (\<lambda>e. and_then (read_event P e r) (read_events P rest))"

definition yaml :: "('s, 't) scalar_reader \<Rightarrow> ('s, 't) yaml_event parsed list \<Rightarrow> resource parsed" where
  "yaml P events = and_then (read_events P events new_reader) (\<lambda>r.
     Inr (case document r of Some v \<Rightarrow> v | None \<Rightarrow> RNull))"

section \<open>Reading a document\<close>

text \<open>The three parsers.\<close>

record ('s, 't) parsers =
  json_from_str :: "ustr \<Rightarrow> json_visit parsed"
  toml_document :: "ustr \<Rightarrow> ((ustr \<times> toml_item) list) parsed"
  yaml_events :: "ustr \<Rightarrow> ('s, 't) yaml_event parsed list"
  yaml_scalar_of :: "('s, 't) scalar_reader"

definition json :: "('s, 't) parsers \<Rightarrow> ustr \<Rightarrow> resource parsed" where
  "json E txt = and_then (json_from_str E txt) (\<lambda>d. Inr (document_visitor d))"

definition toml :: "('s, 't) parsers \<Rightarrow> ustr \<Rightarrow> resource parsed" where
  "toml E txt = and_then (toml_document E txt) (\<lambda>table. Inr (from_toml_table table))"

definition parse :: "('s, 't) parsers \<Rightarrow> resource_format \<Rightarrow> ustr \<Rightarrow> resource parsed" where
  "parse E format txt =
     and_then
       (case format of
          Json \<Rightarrow> json E txt
        | Toml \<Rightarrow> toml E txt
        | Yaml \<Rightarrow> yaml (yaml_scalar_of E) (yaml_events E txt))
       (\<lambda>v. if MAX_NODES < res_size v then Inl too_large
            else if MAX_DEPTH < res_depth v then Inl too_deep
            else Inr v)"

end
