(* ===== verification/Text_Prelude.thy ===== *)
theory Text_Prelude
  imports BIR_Prelude
begin

text \<open>
  What the parts that write python text share: joining, looking at how a text starts, its lines, and
  the characters of a quoted literal.
\<close>

abbreviation quote :: nat where "quote \<equiv> 34"
abbreviation backslash :: nat where "backslash \<equiv> 92"
abbreviation newline :: nat where "newline \<equiv> 10"

fun join :: "ustr \<Rightarrow> ustr list \<Rightarrow> ustr" where
  "join sep [] = []"
| "join sep [x] = x"
| "join sep (x # y # rest) = x @ sep @ join sep (y # rest)"

lemma set_join: "set (join sep xs) \<subseteq> set sep \<union> (\<Union> (set ` set xs))"
  by (induction sep xs rule: join.induct) auto

definition starts_with :: "ustr \<Rightarrow> ustr \<Rightarrow> bool" where
  "starts_with pre s \<longleftrightarrow> take (length pre) s = pre"

lemma starts_with_append [simp]: "starts_with pre (pre @ s)"
  by (simp add: starts_with_def)

lemma starts_withE: "starts_with pre s \<Longrightarrow> (\<And>t. s = pre @ t \<Longrightarrow> P) \<Longrightarrow> P"
  by (metis append_take_drop_id starts_with_def)

lemma starts_with_Cons [simp]: "starts_with (a # pre) (b # s) \<longleftrightarrow> a = b \<and> starts_with pre s"
  by (auto simp: starts_with_def)

lemma starts_with_Nil [simp]: "starts_with [] s" "\<not> starts_with (a # pre) []"
  by (simp_all add: starts_with_def)

section \<open>Lines\<close>

text \<open>\<open>str::split_inclusive('\n')\<close>\<close>

fun split_inclusive :: "ustr \<Rightarrow> ustr list" where
  "split_inclusive [] = []"
| "split_inclusive (c # cs) =
     (if c = newline then [c] # split_inclusive cs
      else (case split_inclusive cs of [] \<Rightarrow> [[c]] | l # ls \<Rightarrow> (c # l) # ls))"

text \<open>\<open>str::lines\<close> drops the line end, \<open>\n\<close> or \<open>\r\n\<close>.\<close>

definition chomp :: "ustr \<Rightarrow> ustr" where
  "chomp l =
     (if l \<noteq> [] \<and> last l = newline
      then (let b = butlast l in if b \<noteq> [] \<and> last b = 13 then butlast b else b)
      else l)"

definition text_lines :: "ustr \<Rightarrow> ustr list" where
  "text_lines s = map chomp (split_inclusive s)"

definition written_lines :: "ustr list \<Rightarrow> ustr" where
  "written_lines ls = concat (map (\<lambda>l. l @ [newline]) ls)"

lemma written_lines_simps [simp]:
  "written_lines [] = []" "written_lines (l # ls) = l @ newline # written_lines ls"
  "written_lines (ls @ ms) = written_lines ls @ written_lines ms"
  by (simp_all add: written_lines_def)

lemma split_inclusive_concat: "concat (split_inclusive s) = s"
  by (induction s) (auto split: list.splits)

lemma split_inclusive_line: "newline \<notin> set l \<Longrightarrow> split_inclusive (l @ newline # s) = (l @ [newline]) # split_inclusive s"
  by (induction l) auto

lemma split_inclusive_written:
  "(\<And>l. l \<in> set ls \<Longrightarrow> newline \<notin> set l) \<Longrightarrow> split_inclusive (written_lines ls) = map (\<lambda>l. l @ [newline]) ls"
  by (induction ls) (simp_all add: split_inclusive_line)

end
