(* ===== verification/Res_Render.thy ===== *)
theory Res_Render
  imports Res_Parse Text_Prelude
begin

unbundle bit_operations_syntax

text \<open>
  \<^verbatim>\<open>by_resource/src/render.rs\<close>: the python text a resource stands for, with the identifiers of
  \<^verbatim>\<open>ruff_python_stdlib\<close> it asks about. What Unicode says of a character, and the shortest text of a
  finite \<open>f64\<close>, are parameters.
\<close>

section \<open>Identifiers\<close>

record text_tables =
  is_xid_start :: "nat \<Rightarrow> bool"
  is_xid_continue :: "nat \<Rightarrow> bool"
  is_alphanumeric :: "nat \<Rightarrow> bool"
  f64_debug :: "64 word \<Rightarrow> ustr"

definition between :: "char \<Rightarrow> char \<Rightarrow> nat \<Rightarrow> bool" where
  "between a b c \<longleftrightarrow> of_char a \<le> c \<and> c \<le> (of_char b :: nat)"

definition is_identifier_start :: "text_tables \<Rightarrow> nat \<Rightarrow> bool" where
  "is_identifier_start T c \<longleftrightarrow>
     between CHR ''a'' CHR ''z'' c \<or> between CHR ''A'' CHR ''Z'' c \<or> c = of_char CHR ''_'' \<or> is_xid_start T c"

definition is_identifier_continuation :: "text_tables \<Rightarrow> nat \<Rightarrow> bool" where
  "is_identifier_continuation T c \<longleftrightarrow>
     (if c < 128
      then between CHR ''a'' CHR ''z'' c \<or> between CHR ''A'' CHR ''Z'' c \<or> c = of_char CHR ''_'' \<or> between CHR ''0'' CHR ''9'' c
      else is_xid_continue T c)"

definition is_keyword :: "ustr \<Rightarrow> bool" where
  "is_keyword name \<longleftrightarrow> name \<in> set (map lit
     [''False'', ''None'', ''True'', ''and'', ''as'', ''assert'', ''async'', ''await'', ''break'', ''class'', ''continue'',
      ''def'', ''del'', ''elif'', ''else'', ''except'', ''finally'', ''for'', ''from'', ''global'', ''if'', ''import'', ''in'',
      ''is'', ''lambda'', ''nonlocal'', ''not'', ''or'', ''pass'', ''raise'', ''return'', ''try'', ''while'', ''with'', ''yield''])"

definition is_identifier :: "text_tables \<Rightarrow> ustr \<Rightarrow> bool" where
  "is_identifier T name =
     (case name of
        [] \<Rightarrow> False
      | c # cs \<Rightarrow> is_identifier_start T c \<and> list_all (is_identifier_continuation T) cs \<and> \<not> is_keyword name)"

definition HELPER_PREFIX :: ustr where
  "HELPER_PREFIX = lit ''_by_''"

definition is_usable_key :: "text_tables \<Rightarrow> ustr \<Rightarrow> bool" where
  "is_usable_key T key \<longleftrightarrow>
     is_identifier T key \<and> \<not> starts_with (lit ''__'') key \<and> \<not> starts_with HELPER_PREFIX key \<and> key \<noteq> lit ''Final''"

definition binding_name :: "text_tables \<Rightarrow> ustr \<Rightarrow> ustr" where
  "binding_name T stem =
     (if is_identifier T stem then stem
      else (let name = map (\<lambda>c. if is_alphanumeric T c \<or> c = of_char CHR ''_'' then c else of_char CHR ''_'') stem
            in if is_identifier T name then name else lit ''resource_'' @ name))"

section \<open>Literals\<close>

definition f64_is_nan :: "64 word \<Rightarrow> bool" where
  "f64_is_nan x \<longleftrightarrow> 0x7FF0000000000000 < take_bit 63 x"

definition f64_infinity :: "64 word" where
  "f64_infinity = 0x7FF0000000000000"

definition f64_neg_infinity :: "64 word" where
  "f64_neg_infinity = 0xFFF0000000000000"

definition f64_is_infinite :: "64 word \<Rightarrow> bool" where
  "f64_is_infinite x \<longleftrightarrow> x = f64_infinity \<or> x = f64_neg_infinity"

definition float_call :: "ustr \<Rightarrow> ustr" where
  "float_call arg = lit ''float('' @ [quote] @ arg @ [quote] @ lit '')''"

definition float_literal :: "text_tables \<Rightarrow> 64 word \<Rightarrow> ustr" where
  "float_literal T x =
     (if f64_is_nan x then float_call (lit ''nan'')
      else if f64_is_infinite x then (if x = f64_neg_infinity then float_call (lit ''-inf'') else float_call (lit ''inf''))
      else f64_debug T x)"

definition escaped :: "nat \<Rightarrow> ustr" where
  "escaped c =
     (if c = backslash then [backslash, backslash]
      else if c = quote then [backslash, quote]
      else if c = 10 then [backslash, of_char CHR ''n'']
      else if c = 13 then [backslash, of_char CHR ''r'']
      else if c = 9 then [backslash, of_char CHR ''t'']
      else if c < 32 \<or> c = 127 then [backslash, of_char CHR ''x''] @ (if c < 16 then lit ''0'' else []) @ lower_hex c
      else [c])"

definition string_literal :: "ustr \<Rightarrow> ustr" where
  "string_literal s = [quote] @ concat (map escaped s) @ [quote]"

definition i64_text :: "i64 \<Rightarrow> ustr" where
  "i64_text i = (if sint i < 0 then lit ''-'' @ decimal (nat (- sint i)) else decimal (nat (sint i)))"

section \<open>The renderer\<close>

record renderer =
  helper_prefix :: ustr
  helpers :: "ustr list"
  unusable_keys :: "ustr list"
  next_helper :: nat

definition INDENT :: ustr where
  "INDENT = lit ''    ''"

definition tuple_text :: "ustr list \<Rightarrow> ustr" where
  "tuple_text parts =
     (case parts of
        [] \<Rightarrow> lit ''()''
      | [part] \<Rightarrow> lit ''('' @ part @ lit '',)''
      | _ \<Rightarrow> lit ''('' @ join (lit '', '') parts @ lit '')'')"

definition class_text :: "ustr \<Rightarrow> ustr \<Rightarrow> ustr \<Rightarrow> ustr" where
  "class_text indent name body =
     indent @ lit ''class '' @ name @ lit '':'' @ [newline] @
       (if body = [] then indent @ INDENT @ lit ''pass'' @ [newline] else body)"

definition final_text :: "ustr \<Rightarrow> ustr \<Rightarrow> ustr \<Rightarrow> ustr" where
  "final_text indent key expr = indent @ key @ lit '': Final = '' @ expr @ [newline]"

fun as_map :: "resource \<Rightarrow> (ustr \<times> resource) list option" where
  "as_map (RMap kvs) = Some kvs"
| "as_map _ = None"

lemma as_map_Some: "as_map v = Some kvs \<longleftrightarrow> v = RMap kvs"
  by (cases v) auto

text \<open>A loop over the entries, or over the items, is the function beside the one that has the loop.\<close>

function (sequential) render_class :: "text_tables \<Rightarrow> ustr \<Rightarrow> (ustr \<times> resource) list \<Rightarrow> ustr \<Rightarrow> ustr \<Rightarrow> renderer \<Rightarrow> ustr \<times> renderer"
  and class_body :: "text_tables \<Rightarrow> (ustr \<times> resource) list \<Rightarrow> ustr \<Rightarrow> ustr \<Rightarrow> renderer \<Rightarrow> ustr \<times> renderer"
  and expression :: "text_tables \<Rightarrow> resource \<Rightarrow> renderer \<Rightarrow> ustr \<times> renderer"
  and expressions :: "text_tables \<Rightarrow> resource list \<Rightarrow> renderer \<Rightarrow> ustr list \<times> renderer" where
  "render_class T name kvs indent path r =
     (let (body, r) = class_body T kvs (indent @ INDENT) path r in (class_text indent name body, r))"
| "class_body T [] indent path r = ([], r)"
| "class_body T ((key, v) # rest) indent path r =
     (if \<not> is_usable_key T key then class_body T rest indent path (r\<lparr>unusable_keys := unusable_keys r @ [path @ key]\<rparr>)
      else
        let (line, r) =
          (case as_map v of
             Some kvs \<Rightarrow> render_class T key kvs indent (path @ key @ lit ''.'') r
           | None \<Rightarrow> (let (expr, r) = expression T v r in (final_text indent key expr, r)));
          (body, r) = class_body T rest indent path r
        in (line @ body, r))"
| "expression T RNull r = (lit ''None'', r)"
| "expression T (RBool b) r = (if b then lit ''True'' else lit ''False'', r)"
| "expression T (RInt i) r = (i64_text i, r)"
| "expression T (RBigInt digits) r = (digits, r)"
| "expression T (RFloat x) r = (float_literal T x, r)"
| "expression T (RStr s) r = (string_literal s, r)"
| "expression T (RSeq items) r = (let (parts, r) = expressions T items r in (tuple_text parts, r))"
| "expression T (RMap kvs) r =
     (let name = helper_prefix r @ decimal (next_helper r);
          (definition_text, r) = render_class T name kvs [] [] (r\<lparr>next_helper := next_helper r + 1\<rparr>)
      in (name, r\<lparr>helpers := helpers r @ [definition_text]\<rparr>))"
| "expressions T [] r = ([], r)"
| "expressions T (v # vs) r =
     (let (part, r) = expression T v r; (parts, r) = expressions T vs r in (part # parts, r))"
  by pat_completeness auto
termination
  by (relation "measure (\<lambda>x. case x of
        Inl (Inl (_, _, kvs, _)) \<Rightarrow> 2 * size_list (size_prod (\<lambda>_. 0) size) kvs + 1
      | Inl (Inr (_, kvs, _)) \<Rightarrow> 2 * size_list (size_prod (\<lambda>_. 0) size) kvs
      | Inr (Inl (_, v, _)) \<Rightarrow> 2 * size v
      | Inr (Inr (_, vs, _)) \<Rightarrow> 2 * size_list size vs)") (auto simp: as_map_Some)

record rendered =
  rendered_source :: ustr
  rendered_root :: ustr
  rendered_unusable :: "ustr list"

definition REQUIRED_IMPORT :: ustr where
  "REQUIRED_IMPORT = lit ''from typing import Final''"

definition module_source :: "rendered \<Rightarrow> ustr" where
  "module_source m = REQUIRED_IMPORT @ [newline, newline] @ rendered_source m"

definition render :: "text_tables \<Rightarrow> resource \<Rightarrow> ustr \<Rightarrow> rendered" where
  "render T v root =
     (let r = \<lparr>helper_prefix = HELPER_PREFIX @ root @ lit ''_'', helpers = [], unusable_keys = [], next_helper = 0\<rparr>;
          (binding, r) =
            (case as_map v of
               Some kvs \<Rightarrow> render_class T root kvs [] [] r
             | None \<Rightarrow> (let (expr, r) = expression T v r in (root @ lit '': Final = '' @ expr @ [newline], r)))
      in \<lparr>rendered_source = concat (map (\<lambda>h. h @ [newline]) (helpers r)) @ binding, rendered_root = root,
          rendered_unusable = unusable_keys r\<rparr>)"

definition transpile :: "text_tables \<Rightarrow> ('s, 't) parsers \<Rightarrow> resource_format \<Rightarrow> ustr \<Rightarrow> ustr \<Rightarrow> rendered parsed" where
  "transpile T E format txt root = and_then (parse E format txt) (\<lambda>v. Inr (render T v root))"

end
