(* ===== verification/Res_Reads.thy ===== *)
theory Res_Reads
  imports Res_Parse
begin

text \<open>
  What reading a resource gives: the last value of each key, in the order the last entries have; for
  yaml, what a reader that recurses over the document gives, error for error; and never more values
  or open collections than the budget allows, whatever the document names by its anchors.
\<close>

section \<open>Mappings\<close>

text \<open>The entries whose key no later entry has.\<close>

fun last_of :: "('k \<times> 'v) list \<Rightarrow> ('k \<times> 'v) list" where
  "last_of [] = []"
| "last_of ((k, v) # rest) = (if k \<in> fst ` set rest then last_of rest else (k, v) # last_of rest)"

lemma last_of_snoc: "last_of (kvs @ [(k, v)]) = filter (\<lambda>kv. fst kv \<noteq> k) (last_of kvs) @ [(k, v)]"
  by (induction kvs rule: last_of.induct) auto

lemma fst_last_of: "fst ` set (last_of kvs) = fst ` set kvs"
  by (induction kvs rule: last_of.induct) (auto simp: image_iff)

lemma distinct_last_of: "distinct (map fst (last_of kvs))"
  by (induction kvs rule: last_of.induct) (simp_all add: fst_last_of)

lemma map_of_last_of:
  fixes kvs :: "('a \<times> 'b) list"
  shows "map_of (last_of kvs) k = map_of (rev kvs) k"
proof (induction kvs rule: rev_induct)
  case (snoc kv kvs)
  obtain k' v where kv: "kv = (k', v)" by fastforce
  have "map_of (filter (\<lambda>kv. fst kv \<noteq> k') xs) k = (if k = k' then None else map_of xs k)" for xs :: "('a \<times> 'b) list"
    by (induction xs) auto
  then show ?case using snoc by (auto simp: kv last_of_snoc map_add_def split: option.splits)
qed simp

text \<open>The positions are those of the entries that are left.\<close>

definition entries_ok :: "entries \<Rightarrow> bool" where
  "entries_ok e \<longleftrightarrow> (\<forall>k i. positions e k = Some i \<longleftrightarrow> i < length (slots e) \<and> (\<exists>v. slots e ! i = Some (k, v)))"

lemma entries_ok_new: "entries_ok no_entries" "kept no_entries = []"
  by (simp_all add: entries_ok_def no_entries_def kept_def)

lemma entries_okD:
  assumes "entries_ok e"
  shows "positions e k = Some i \<Longrightarrow> i < length (slots e) \<and> (\<exists>v. slots e ! i = Some (k, v))"
    "i < length (slots e) \<Longrightarrow> slots e ! i = Some (k, v) \<Longrightarrow> positions e k = Some i"
  using assms by (auto simp: entries_ok_def)

text \<open>The slots with the earlier entry of a key emptied.\<close>

definition emptied_slots :: "ustr \<Rightarrow> entries \<Rightarrow> (ustr \<times> resource) option list" where
  "emptied_slots key e = (case positions e key of Some previous \<Rightarrow> (slots e)[previous := None] | None \<Rightarrow> slots e)"

lemma emptied_slots_nth:
  assumes "entries_ok e" "i < length (slots e)"
  shows "(\<exists>v. emptied_slots key e ! i = Some (k, v)) \<longleftrightarrow> k \<noteq> key \<and> positions e k = Some i"
proof -
  have "emptied_slots key e ! i = (if positions e key = Some i then None else slots e ! i)"
    using assms(2) by (auto simp: emptied_slots_def nth_list_update split: option.splits)
  then show ?thesis using entries_okD [OF assms(1)] assms(2) by (metis option.distinct(1) option.inject prod.inject)
qed

lemma entries_ok_insert:
  assumes "entries_ok e"
  shows "entries_ok (insert_entry k v e)"
proof -
  have len: "length (emptied_slots k e) = length (slots e)" by (simp add: emptied_slots_def split: option.split)
  have new: "insert_entry k v e = \<lparr>slots = emptied_slots k e @ [Some (k, v)], positions = (positions e)(k \<mapsto> length (slots e))\<rparr>"
    by (simp add: insert_entry_def emptied_slots_def)
  show ?thesis
    unfolding entries_ok_def
  proof (intro allI)
    fix k' i
    consider "i < length (slots e)" | "i = length (slots e)" | "length (slots e) < i" by linarith
    then show "positions (insert_entry k v e) k' = Some i \<longleftrightarrow>
      i < length (slots (insert_entry k v e)) \<and> (\<exists>v'. slots (insert_entry k v e) ! i = Some (k', v'))"
    proof cases
      case 1
      with emptied_slots_nth [OF assms 1, of k k'] show ?thesis by (auto simp: new nth_append len)
    qed (use entries_okD(1) [OF assms, of k' i] in \<open>auto simp: new nth_append len\<close>)
  qed
qed

lemma kept_insert:
  assumes "entries_ok e"
  shows "kept (insert_entry k v e) = filter (\<lambda>kv. fst kv \<noteq> k) (kept e) @ [(k, v)]"
proof -
  note D = entries_okD [OF assms]
  have other: "filter (\<lambda>kv. fst kv \<noteq> k) (filter_map id xs) = filter_map id xs"
    if "\<And>v. Some (k, v) \<notin> set xs" for xs :: "(ustr \<times> resource) option list"
    using that by (induction xs) (auto split: option.splits)
  show ?thesis
  proof (cases "positions e k")
    case None
    have "Some (k, v) \<notin> set (slots e)" for v
    proof
      assume "Some (k, v) \<in> set (slots e)"
      then obtain i where "i < length (slots e)" "slots e ! i = Some (k, v)" by (metis in_set_conv_nth)
      with D(2) None show False by simp
    qed
    from other [OF this] None show ?thesis by (simp add: kept_def insert_entry_def)
  next
    case (Some p)
    then obtain u where p: "p < length (slots e)" "slots e ! p = Some (k, u)" using D(1) by blast
    have split: "slots e = take p (slots e) @ Some (k, u) # drop (Suc p) (slots e)"
      using id_take_nth_drop [OF p(1)] p(2) by simp
    have only: "i = p" if "i < length (slots e)" "slots e ! i = Some (k, v)" for i v
      using D(2) [OF that] Some by simp
    have "Some (k, v) \<notin> set (take p (slots e))" for v
    proof
      assume "Some (k, v) \<in> set (take p (slots e))"
      then obtain i where "i < p" "slots e ! i = Some (k, v)" using p(1) by (auto simp: in_set_conv_nth)
      with only [of i v] p(1) show False by simp
    qed
    moreover have "Some (k, v) \<notin> set (drop (Suc p) (slots e))" for v
    proof
      assume "Some (k, v) \<in> set (drop (Suc p) (slots e))"
      then obtain i where "Suc p + i < length (slots e)" "slots e ! (Suc p + i) = Some (k, v)"
        by (auto simp: in_set_conv_nth less_diff_conv ac_simps)
      with only [of "Suc p + i" v] show False by simp
    qed
    ultimately have "filter (\<lambda>kv. fst kv \<noteq> k) (filter_map id (slots e)) =
        filter_map id (take p (slots e)) @ filter_map id (drop (Suc p) (slots e))"
      by (subst split) (simp add: other)
    moreover have "(slots e)[p := None] = take p (slots e) @ None # drop (Suc p) (slots e)"
      using p(1) by (simp add: upd_conv_take_nth_drop)
    ultimately show ?thesis using Some by (simp add: kept_def insert_entry_def)
  qed
qed

lemma inserted_entries:
  "entries_ok (fold (\<lambda>(k, v). insert_entry k v) kvs no_entries)
   \<and> kept (fold (\<lambda>(k, v). insert_entry k v) kvs no_entries) = last_of kvs"
proof (induction kvs rule: rev_induct)
  case (snoc kv kvs)
  then show ?case by (cases kv) (simp add: entries_ok_insert kept_insert last_of_snoc)
qed (simp add: entries_ok_new)

section \<open>Documents read by recursion\<close>

text \<open>A yaml document as a tree, the events it is handed over as, and the reader that recurses over it.\<close>

datatype ('s, 't) yaml_node =
    ScalarNode ustr 's nat 't
  | AliasNode nat
  | SequenceNode nat 't "('s, 't) yaml_node list"
  | MappingNode nat 't "(('s, 't) yaml_node \<times> ('s, 't) yaml_node) list"

fun events_of :: "('s, 't) yaml_node \<Rightarrow> ('s, 't) yaml_event list" where
  "events_of (ScalarNode x s a t) = [Scalar x s a t]"
| "events_of (AliasNode a) = [Alias a]"
| "events_of (SequenceNode a t ns) = SequenceStart a t # concat (map events_of ns) @ [SequenceEnd]"
| "events_of (MappingNode a t kvs) =
     MappingStart a t # concat (map (\<lambda>(k, v). events_of k @ events_of v) kvs) @ [MappingEnd]"

definition remember :: "nat \<Rightarrow> resource \<Rightarrow> (nat \<rightharpoonup> resource) \<Rightarrow> nat \<rightharpoonup> resource" where
  "remember a v an = (if a \<noteq> 0 then an(a \<mapsto> v) else an)"

function (sequential) load :: "('s, 't) scalar_reader \<Rightarrow> ('s, 't) yaml_node \<Rightarrow> budget \<Rightarrow> (nat \<rightharpoonup> resource) \<Rightarrow> (resource \<times> budget \<times> (nat \<rightharpoonup> resource)) parsed"
  and load_items :: "('s, 't) scalar_reader \<Rightarrow> ('s, 't) yaml_node list \<Rightarrow> budget \<Rightarrow> (nat \<rightharpoonup> resource) \<Rightarrow>
    (resource list \<times> budget \<times> (nat \<rightharpoonup> resource)) parsed"
  and load_pairs :: "('s, 't) scalar_reader \<Rightarrow> (('s, 't) yaml_node \<times> ('s, 't) yaml_node) list \<Rightarrow> entries \<Rightarrow> budget \<Rightarrow>
    (nat \<rightharpoonup> resource) \<Rightarrow> (entries \<times> budget \<times> (nat \<rightharpoonup> resource)) parsed" where
  "load P (ScalarNode x s a t) b an = and_then (enter b) (\<lambda>b.
     (case P x s t of
        None \<Rightarrow> Inl unreadable_scalar
      | Some sc \<Rightarrow> Inr (yaml_scalar_value sc, leave_level b, remember a (yaml_scalar_value sc) an)))"
| "load P (AliasNode a) b an =
     (case an a of
        None \<Rightarrow> Inl undefined_anchor
      | Some v \<Rightarrow> and_then (charge (res_size v) b) (\<lambda>b. Inr (v, b, an)))"
| "load P (SequenceNode a t ns) b an = and_then (enter b) (\<lambda>b.
     and_then (load_items P ns b an) (\<lambda>(vs, b, an). Inr (RSeq vs, leave_level b, remember a (RSeq vs) an)))"
| "load P (MappingNode a t kvs) b an = and_then (enter b) (\<lambda>b.
     and_then (load_pairs P kvs no_entries b an) (\<lambda>(e, b, an). Inr (into_value e, leave_level b, remember a (into_value e) an)))"
| "load_items P [] b an = Inr ([], b, an)"
| "load_items P (n # ns) b an = and_then (load P n b an) (\<lambda>(v, b, an).
     and_then (load_items P ns b an) (\<lambda>(vs, b, an). Inr (v # vs, b, an)))"
| "load_pairs P [] e b an = Inr (e, b, an)"
| "load_pairs P ((k, v) # rest) e b an = and_then (load P k b an) (\<lambda>(key, b, an).
     (case key of
        RStr name \<Rightarrow> and_then (load P v b an) (\<lambda>(x, b, an). load_pairs P rest (insert_entry name x e) b an)
      | _ \<Rightarrow> Inl key_not_string))"
  by pat_completeness auto
termination
  by (relation "measure (case_sum (\<lambda>(_, n, _, _). size n) (case_sum (\<lambda>(_, ns, _, _). size_list size ns)
      (\<lambda>(_, kvs, _, _, _). size_list (size_prod size size) kvs)))") auto

abbreviation reader_at :: "yaml_reader \<Rightarrow> budget \<Rightarrow> (nat \<rightharpoonup> resource) \<Rightarrow> yaml_reader" where
  "reader_at r b an \<equiv> r\<lparr>budget_left := b, anchors := an\<rparr>"

lemma place_remembers: "place v a r = place v 0 (r\<lparr>anchors := remember a v (anchors r)\<rparr>)"
  by (simp add: place_def remember_def)


text \<open>The machine, over the events of a node, hands on what the recursive reader loads.\<close>

definition reads_as_loaded :: "('s, 't) scalar_reader \<Rightarrow> ('s, 't) yaml_node \<Rightarrow> bool" where
  "reads_as_loaded P n \<longleftrightarrow> (\<forall>rest r. read_events P (map Inr (events_of n) @ rest) r =
     and_then (load P n (budget_left r) (anchors r)) (\<lambda>(v, b, an). and_then (place v 0 (reader_at r b an)) (read_events P rest)))"

lemma read_items:
  assumes "\<And>n. n \<in> set ns \<Longrightarrow> reads_as_loaded P n" "frames r = Sequence a items # fs"
  shows "read_events P (map Inr (concat (map events_of ns)) @ rest) r =
     and_then (load_items P ns (budget_left r) (anchors r))
       (\<lambda>(vs, b, an). read_events P rest ((reader_at r b an)\<lparr>frames := Sequence a (items @ vs) # fs\<rparr>))"
  using assms
proof (induction ns arbitrary: r items)
  case Nil
  then show ?case by (cases r) simp
next
  case (Cons n ns)
  have "read_events P (map Inr (events_of n) @ map Inr (concat (map events_of ns)) @ rest) r =
      and_then (load P n (budget_left r) (anchors r)) (\<lambda>(v, b, an). and_then (place v 0 (reader_at r b an))
        (read_events P (map Inr (concat (map events_of ns)) @ rest)))"
    using Cons.prems(1) by (simp add: reads_as_loaded_def)
  with Cons show ?case by (cases "load P n (budget_left r) (anchors r)") (auto simp: place_def and_then_assoc split_def)
qed

lemma read_pairs:
  assumes "\<And>k v. (k, v) \<in> set kvs \<Longrightarrow> reads_as_loaded P k \<and> reads_as_loaded P v" "frames r = Mapping a e None # fs"
  shows "read_events P (map Inr (concat (map (\<lambda>(k, v). events_of k @ events_of v) kvs)) @ rest) r =
     and_then (load_pairs P kvs e (budget_left r) (anchors r))
       (\<lambda>(e, b, an). read_events P rest ((reader_at r b an)\<lparr>frames := Mapping a e None # fs\<rparr>))"
  using assms
proof (induction kvs arbitrary: r e)
  case Nil
  then show ?case by (cases r) simp
next
  case (Cons kv kvs)
  obtain k v where kv: "kv = (k, v)" by fastforce
  let ?more = "map Inr (concat (map (\<lambda>(k, v). events_of k @ events_of v) kvs)) @ rest"
  have key: "read_events P (map Inr (events_of k) @ map Inr (events_of v) @ ?more) r =
      and_then (load P k (budget_left r) (anchors r)) (\<lambda>(x, b, an). and_then (place x 0 (reader_at r b an))
        (read_events P (map Inr (events_of v) @ ?more)))"
    using Cons.prems(1) kv unfolding reads_as_loaded_def by (metis list.set_intros(1))
  have val: "read_events P (map Inr (events_of v) @ ?more) r' =
      and_then (load P v (budget_left r') (anchors r')) (\<lambda>(x, b, an). and_then (place x 0 (reader_at r' b an)) (read_events P ?more))" for r'
    using Cons.prems(1) kv unfolding reads_as_loaded_def by (metis list.set_intros(1))
  show ?case
  proof (cases "load P k (budget_left r) (anchors r)")
    case (Inl err)
    with key show ?thesis by (simp add: kv)
  next
    case (Inr out)
    obtain x b an where out: "out = (x, b, an)" by (cases out)
    show ?thesis
    proof (cases "\<exists>name. x = RStr name")
      case False
      with key Inr out Cons.prems(2) show ?thesis by (cases x) (simp_all add: kv place_def)
    next
      case True
      then obtain name where x: "x = RStr name" ..
      show ?thesis
      proof (cases "load P v b an")
        case Inl
        with key val Inr out x Cons.prems(2) show ?thesis by (simp add: kv place_def)
      next
        case v: (Inr w)
        obtain y b' an' where w: "w = (y, b', an')" by (cases w)
        have "read_events P ?more ((reader_at r b' an')\<lparr>frames := Mapping a (insert_entry name y e) None # fs\<rparr>) =
            and_then (load_pairs P kvs (insert_entry name y e) b' an')
              (\<lambda>(e, b, an). read_events P rest ((reader_at r b an)\<lparr>frames := Mapping a e None # fs\<rparr>))"
          using Cons.IH [of "(reader_at r b' an')\<lparr>frames := Mapping a (insert_entry name y e) None # fs\<rparr>" "insert_entry name y e"] Cons.prems(1)
          by (auto simp: split_def)
        with key val Inr out x v w Cons.prems(2) show ?thesis by (simp add: kv place_def)
      qed
    qed
  qed
qed

lemma read_node: "reads_as_loaded P n"
proof (induction n)
  case (ScalarNode x s a t)
  show ?case unfolding reads_as_loaded_def
  proof (intro allI)
    fix rest r
    show "read_events P (map Inr (events_of (ScalarNode x s a t)) @ rest) r =
      and_then (load P (ScalarNode x s a t) (budget_left r) (anchors r))
        (\<lambda>(v, b, an). and_then (place v 0 (reader_at r b an)) (read_events P rest))"
      by (cases "enter (budget_left r)") (auto simp: place_remembers [of _ a] split: option.split)
  qed
next
  case (AliasNode a)
  show ?case unfolding reads_as_loaded_def
    by (auto simp: and_then_assoc split: option.split)
next
  case (SequenceNode a t ns)
  show ?case unfolding reads_as_loaded_def
  proof (intro allI)
    fix rest r
    show "read_events P (map Inr (events_of (SequenceNode a t ns)) @ rest) r =
      and_then (load P (SequenceNode a t ns) (budget_left r) (anchors r))
        (\<lambda>(v, b, an). and_then (place v 0 (reader_at r b an)) (read_events P rest))"
    proof (cases "enter (budget_left r)")
      case (Inr b)
      have "read_events P (map Inr (concat (map events_of ns)) @ Inr SequenceEnd # rest) (r\<lparr>budget_left := b, frames := Sequence a [] # frames r\<rparr>) =
          and_then (load_items P ns b (anchors r)) (\<lambda>(vs, b, an). read_events P (Inr SequenceEnd # rest)
            (r\<lparr>budget_left := b, anchors := an, frames := Sequence a vs # frames r\<rparr>))"
        using read_items [OF SequenceNode, of ns "r\<lparr>budget_left := b, frames := Sequence a [] # frames r\<rparr>" a "[]" "frames r" "Inr SequenceEnd # rest"]
        by simp
      with Inr show ?thesis
        by (cases "load_items P ns b (anchors r)") (auto simp: end_collection_def place_remembers [of _ a])
    qed simp
  qed
next
  case (MappingNode a t kvs)
  show ?case unfolding reads_as_loaded_def
  proof (intro allI)
    fix rest r
    show "read_events P (map Inr (events_of (MappingNode a t kvs)) @ rest) r =
      and_then (load P (MappingNode a t kvs) (budget_left r) (anchors r))
        (\<lambda>(v, b, an). and_then (place v 0 (reader_at r b an)) (read_events P rest))"
    proof (cases "enter (budget_left r)")
      case (Inr b)
      have "\<And>k v. (k, v) \<in> set kvs \<Longrightarrow> reads_as_loaded P k \<and> reads_as_loaded P v" using MappingNode by fastforce
      from read_pairs [OF this, of kvs "r\<lparr>budget_left := b, frames := Mapping a no_entries None # frames r\<rparr>" a no_entries "frames r" "Inr MappingEnd # rest"]
      have "read_events P (map Inr (concat (map (\<lambda>(k, v). events_of k @ events_of v) kvs)) @ Inr MappingEnd # rest)
          (r\<lparr>budget_left := b, frames := Mapping a no_entries None # frames r\<rparr>) =
          and_then (load_pairs P kvs no_entries b (anchors r)) (\<lambda>(e, b, an). read_events P (Inr MappingEnd # rest)
            (r\<lparr>budget_left := b, anchors := an, frames := Mapping a e None # frames r\<rparr>))"
        by simp
      with Inr show ?thesis
        by (cases "load_pairs P kvs no_entries b (anchors r)") (auto simp: end_collection_def place_remembers [of _ a])
    qed simp
  qed
qed


section \<open>What the reader holds\<close>

text \<open>Every mapping has each key once, throughout a value.\<close>

fun keys_once :: "resource \<Rightarrow> bool" where
  "keys_once (RSeq items) = list_all keys_once items"
| "keys_once (RMap kvs) = (distinct (map fst kvs) \<and> list_all (\<lambda>(_, v). keys_once v) kvs)"
| "keys_once _ = True"

definition entries_held :: "entries \<Rightarrow> bool" where
  "entries_held e \<longleftrightarrow> entries_ok e \<and> keys_once (into_value e)"

lemma entries_held_new: "entries_held no_entries"
  by (simp add: entries_held_def entries_ok_new into_value_def)

lemma entries_held_insert: "entries_held e \<Longrightarrow> keys_once v \<Longrightarrow> entries_held (insert_entry k v e)"
  by (auto simp: entries_held_def entries_ok_insert into_value_def kept_insert list_all_iff distinct_map inj_on_filter_key_eq
      intro: inj_on_subset)

lemma entries_held_fold:
  assumes "list_all (\<lambda>(_, v). keys_once v) kvs"
  shows "entries_held (fold (\<lambda>(k, v). insert_entry k v) kvs no_entries)"
  using assms by (induction kvs rule: rev_induct) (auto simp: entries_held_new entries_held_insert)

lemma size_insert:
  "entries_ok e \<Longrightarrow> res_size (into_value (insert_entry k v e)) \<le> res_size (into_value e) + res_size v"
proof -
  assume "entries_ok e"
  have "sum_list (map (\<lambda>(_, v). res_size v) (filter (\<lambda>kv. fst kv \<noteq> k) xs)) \<le> sum_list (map (\<lambda>(_, v). res_size v) xs)" for xs
    by (induction xs) auto
  then show ?thesis using kept_insert [OF \<open>entries_ok e\<close>] by (simp add: into_value_def)
qed

fun frame_value :: "frame \<Rightarrow> resource" where
  "frame_value (Sequence _ items) = RSeq items"
| "frame_value (Mapping _ e _) = into_value e"

fun frame_held :: "frame \<Rightarrow> bool" where
  "frame_held (Sequence _ items) = list_all keys_once items"
| "frame_held (Mapping _ e _) = entries_held e"

text \<open>How many values the reader holds, in the collections it is in the middle of and in its document.\<close>

definition holding :: "yaml_reader \<Rightarrow> nat" where
  "holding r = sum_list (map (res_size \<circ> frame_value) (frames r)) + (case document r of Some v \<Rightarrow> res_size v | None \<Rightarrow> 0)"

definition within_budget :: "yaml_reader \<Rightarrow> bool" where
  "within_budget r \<longleftrightarrow> holding r + nodes (budget_left r) \<le> MAX_NODES
     \<and> list_all frame_held (frames r) \<and> (\<forall>v. document r = Some v \<longrightarrow> keys_once v) \<and> (\<forall>a v. anchors r a = Some v \<longrightarrow> keys_once v)"

lemma within_budget_new: "within_budget new_reader"
  by (simp add: within_budget_def holding_def new_reader_def new_budget_def)

lemma within_budget_place:
  assumes "place v a r = Inr r'" "within_budget (r\<lparr>budget_left := b\<rparr>)" "keys_once v"
    and "nodes (budget_left r) + res_size v \<le> nodes b"
  shows "within_budget r'"
proof -
  note simps = place_def Let_def within_budget_def holding_def
  show ?thesis
  proof (cases "frames r")
    case Nil
    with assms show ?thesis by (auto simp: simps split: if_splits)
  next
    case (Cons fr rest)
    show ?thesis
    proof (cases fr)
      case (Sequence c items)
      with assms Cons show ?thesis by (auto simp: simps split: if_splits)
    next
      case (Mapping c e key)
      show ?thesis
      proof (cases key)
        case None
        with assms Cons Mapping show ?thesis by (auto simp: simps split: if_splits resource.splits)
      next
        case (Some name)
        have "entries_held e" using assms(2) Cons Mapping by (simp add: within_budget_def)
        then have "res_size (into_value (insert_entry name v e)) \<le> res_size (into_value e) + res_size v"
          "entries_held (insert_entry name v e)"
          using assms(3) by (simp_all add: size_insert entries_held_insert entries_held_def [of e])
        with assms Cons Mapping Some show ?thesis by (auto simp: simps split: if_splits)
      qed
    qed
  qed
qed


lemma charge_InrD: "charge n b = Inr b' \<Longrightarrow> nodes b' + n = nodes b \<and> levels b' = levels b"
  by (auto simp: charge_def split: if_splits)

lemma enter_InrD: "enter b = Inr b' \<Longrightarrow> nodes b' + 1 = nodes b \<and> levels b' + 1 = levels b"
  by (auto simp: enter_def and_then_Inr_iff split: if_splits dest!: charge_InrD)

lemma leave_level_simps [simp]: "nodes (leave_level b) = nodes b" "levels (leave_level b) = levels b + 1"
  by (simp_all add: leave_level_def)

lemma yaml_scalar_plain [simp]: "res_size (yaml_scalar_value sc) = 1" "keys_once (yaml_scalar_value sc)"
  by (cases sc; simp)+

lemma within_budget_end:
  assumes "end_collection r = Inr r'" "within_budget r"
  shows "within_budget r'"
proof (cases "frames r")
  case Nil
  with assms show ?thesis by (auto simp: end_collection_def within_budget_def holding_def)
next
  case (Cons fr rest)
  let ?r = "r\<lparr>budget_left := leave_level (budget_left r), frames := rest\<rparr>"
    and ?b = "(budget_left r)\<lparr>nodes := nodes (budget_left r) + res_size (frame_value fr)\<rparr>"
  obtain a where "place (frame_value fr) a ?r = Inr r'"
    using assms(1) Cons by (cases fr) (auto simp: end_collection_def)
  moreover have "within_budget (?r\<lparr>budget_left := ?b\<rparr>)"
    using assms(2) Cons by (auto simp: within_budget_def holding_def)
  moreover have "keys_once (frame_value fr)"
    using assms(2) Cons by (cases fr) (auto simp: within_budget_def entries_held_def)
  ultimately show ?thesis by (rule within_budget_place) simp
qed

lemma within_budget_event:
  assumes "read_event P e r = Inr r'" "within_budget r"
  shows "within_budget r'"
proof -
  note simps = within_budget_def holding_def
  show ?thesis
  proof (cases "(P, e, r)" rule: read_event.cases)
    case 1
    with assms show ?thesis by (auto simp: simps Let_def split: if_splits)
  next
    case (2 _ x s a t _)
    then obtain b sc where b: "enter (budget_left r) = Inr b" "place (yaml_scalar_value sc) a (r\<lparr>budget_left := leave_level b\<rparr>) = Inr r'"
      using assms(1) by (auto simp: and_then_Inr_iff split: option.splits)
    show ?thesis
      by (rule within_budget_place [OF b(2), of "budget_left r"]) (use assms(2) enter_InrD [OF b(1)] in simp_all)
  next
    case (3 _ a t _)
    with assms show ?thesis
      by (auto simp: and_then_Inr_iff simps dest!: enter_InrD)
  next
    case (4 _ a t _)
    with assms show ?thesis
      by (auto simp: and_then_Inr_iff simps entries_held_new into_value_def entries_ok_new dest!: enter_InrD)
  next
    case (7 _ a _)
    then obtain v b where v: "anchors r a = Some v" "charge (res_size v) (budget_left r) = Inr b" "place v 0 (r\<lparr>budget_left := b\<rparr>) = Inr r'"
      using assms(1) by (auto simp: and_then_Inr_iff split: option.splits)
    show ?thesis
      by (rule within_budget_place [OF v(3), of "budget_left r"])
        (use assms(2) charge_InrD [OF v(2)] v(1) in \<open>auto simp: within_budget_def\<close>)
  next
    case 5
    with assms within_budget_end show ?thesis by simp
  next
    case 6
    with assms within_budget_end show ?thesis by simp
  qed (use assms in simp_all)
qed

lemma read_events_within_budget:
  "read_events P events r = Inr r' \<Longrightarrow> within_budget r \<Longrightarrow> within_budget r'"
  by (induction P events r rule: read_events.induct) (auto simp: and_then_Inr_iff dest: within_budget_event)






section \<open>Reading a document\<close>

lemma keys_once_visitor: "keys_once (document_visitor d)"
proof (induction d rule: document_visitor.induct)
  case (8 kvs)
  have "entries_held (fold (\<lambda>(k, v). insert_entry k v) (map (\<lambda>(k, v). (k, document_visitor v)) kvs) no_entries)"
    by (rule entries_held_fold) (use 8 in \<open>force simp: list_all_iff\<close>)
  then show ?case by (simp add: entries_held_def)
qed (auto simp: visit_u64_def list_all_iff)

lemma keys_once_toml_value: "keys_once (from_toml_value v)"
proof (induction v rule: from_toml_value.induct)
  case (7 table)
  have "entries_held (fold (\<lambda>(k, v). insert_entry k v) (map (\<lambda>(k, v). (k, from_toml_value v)) table) no_entries)"
    by (rule entries_held_fold) (use 7 in \<open>force simp: list_all_iff\<close>)
  then show ?case by (simp add: entries_held_def)
qed (auto simp: list_all_iff)

lemma keys_once_toml:
  "keys_once (from_toml_item item)" "keys_once (from_toml_table table)"
  "list_all (\<lambda>(_, v). keys_once v) (from_toml_entries table)" "list_all keys_once (from_toml_tables tables)"
proof (induction item and table and table and tables rule: from_toml_item_from_toml_table_from_toml_entries_from_toml_tables.induct)
  case (5 table)
  then show ?case using entries_held_fold by (simp add: entries_held_def)
qed (simp_all add: keys_once_toml_value)

lemma yaml_within:
  assumes "yaml P events = Inr v"
  shows "res_size v \<le> MAX_NODES \<and> keys_once v"
proof -
  obtain r where r: "read_events P events new_reader = Inr r" "v = (case document r of Some v \<Rightarrow> v | None \<Rightarrow> RNull)"
    using assms by (auto simp: yaml_def and_then_Inr_iff)
  from read_events_within_budget [OF r(1) within_budget_new] r(2) show ?thesis
    by (auto simp: within_budget_def holding_def MAX_NODES_def split: option.splits)
qed

lemma parse_within:
  assumes "parse E format txt = Inr v"
  shows "res_size v \<le> MAX_NODES" "res_depth v \<le> MAX_DEPTH" "keys_once v"
  using assms yaml_within keys_once_visitor keys_once_toml(2)
  by (auto simp: parse_def and_then_Inr_iff json_def toml_def split: resource_format.splits if_splits)


section \<open>Samples\<close>

text \<open>A scalar with a text is a string, and the empty one nothing.\<close>

definition plain_scalar :: "(unit, unit) scalar_reader" where
  "plain_scalar txt _ _ = Some (if txt = [] then ScalarNull else ScalarString txt)"

text \<open>A mapping of so many keys to nothing, as json and as yaml hand it over.\<close>

definition wide_json :: "nat \<Rightarrow> json_visit" where
  "wide_json n = VisitMap (map (\<lambda>i. (decimal i, VisitUnit)) [0..<n])"

definition wide_yaml :: "nat \<Rightarrow> (unit, unit) yaml_node" where
  "wide_yaml n = MappingNode 0 () (map (\<lambda>i. (ScalarNode (decimal i) () 0 (), ScalarNode [] () 0 ())) [0..<n])"

definition document_events :: "('s, 't) yaml_node \<Rightarrow> ('s, 't) yaml_event parsed list" where
  "document_events n = map Inr ([StreamStart, DocumentStart False] @ events_of n @ [DocumentEnd, StreamEnd])"

definition wide_parsers :: "(unit, unit) parsers" where
  "wide_parsers = \<lparr>json_from_str = (\<lambda>_. Inr (wide_json 50000)), toml_document = (\<lambda>_. Inr []),
     yaml_events = (\<lambda>_. document_events (wide_yaml 50000)), yaml_scalar_of = plain_scalar\<rparr>"

lemma last_of_distinct: "distinct (map fst kvs) \<Longrightarrow> last_of kvs = kvs"
  by (induction kvs rule: last_of.induct) auto

lemma wide_json_value: "document_visitor (wide_json n) = RMap (map (\<lambda>i. (decimal i, RNull)) [0..<n])"
proof -
  let ?kvs = "map (\<lambda>i. (decimal i, RNull)) [0..<n]"
  have "document_visitor (wide_json n) = into_value (fold (\<lambda>(k, v). insert_entry k v) ?kvs no_entries)"
    by (simp add: wide_json_def comp_def)
  also have "\<dots> = RMap (last_of ?kvs)" using inserted_entries [of ?kvs] by (simp add: into_value_def)
  also have "last_of ?kvs = ?kvs" by (rule last_of_distinct) (auto simp: distinct_map comp_def inj_on_def)
  finally show ?thesis .
qed

lemma max_or_0_replicate: "max_or_0 (replicate n 1) = (if n = 0 then 0 else 1)"
proof -
  have "fold max (replicate n 1) (1::nat) = 1" for n by (induction n) auto
  then show ?thesis by (cases n) (simp_all add: max_or_0_def)
qed

lemma wide_json_measures:
  "res_size (document_visitor (wide_json n)) = n + 1" "res_depth (document_visitor (wide_json n)) \<le> 2"
proof -
  show "res_size (document_visitor (wide_json n)) = n + 1"
    by (simp add: wide_json_value comp_def sum_list_triv)
  have "map (\<lambda>(_, v). res_depth v) (map (\<lambda>i. (decimal i, RNull)) [0..<n]) = replicate n 1"
    by (simp add: comp_def map_replicate_const)
  then show "res_depth (document_visitor (wide_json n)) \<le> 2"
    by (simp only: wide_json_value res_depth.simps max_or_0_replicate) simp
qed

lemma wide_pairs_too_large:
  assumes "nodes b < 2 * length ns" "1 \<le> levels b"
  shows "load_pairs plain_scalar (map (\<lambda>i. (ScalarNode (decimal i) () 0 (), ScalarNode [] () 0 ())) ns) e b an = Inl too_large"
  using assms
proof (induction ns arbitrary: e b an)
  case (Cons i ns)
  show ?case
  proof (cases "nodes b < 2")
    case True
    with Cons.prems show ?thesis by (auto simp: enter_def charge_def plain_scalar_def leave_level_def remember_def)
  next
    case False
    with Cons show ?thesis by (auto simp: enter_def charge_def plain_scalar_def leave_level_def remember_def)
  qed
qed simp

section \<open>Properties\<close>

lemma yaml_is_load:
  "yaml P (document_events n) = and_then (load P n new_budget Map.empty) (\<lambda>(v, _, _). Inr v)"
proof -
  let ?r = "new_reader\<lparr>documents := 1\<rparr>"
  have "read_events P (map Inr (events_of n) @ [Inr DocumentEnd, Inr StreamEnd]) ?r =
      and_then (load P n new_budget Map.empty) (\<lambda>(v, b, an). place v 0 (reader_at ?r b an))"
    using read_node [of P n] by (auto simp: reads_as_loaded_def and_then_def new_reader_def split: sum.splits)
  then have "read_events P (document_events n) new_reader =
      and_then (load P n new_budget Map.empty) (\<lambda>(v, b, an). place v 0 (reader_at ?r b an))"
    by (simp add: document_events_def new_reader_def)
  then show ?thesis
    by (cases "load P n new_budget Map.empty") (auto simp: yaml_def place_def new_reader_def)
qed

text \<open>
  C16. The yaml reader, a machine over the parser's events with a stack of its own, gives for the
  events of a document exactly what a reader that recurses over the document gives: the same value,
  with every alias replaced by what its anchor stood for by then, or the same error.
\<close>

theorem yaml_reads_what_recursion_would:
  "yaml P (document_events n) = and_then (load P n new_budget Map.empty) (\<lambda>(v, _, _). Inr v)"
  by (rule yaml_is_load)



text \<open>
  Entries inserted in any order come out as a mapping that has every key once, with the value it
  was given last, in the order of those last entries.
\<close>

theorem entries_keep_the_last_value:
  "into_value (fold (\<lambda>(k, v). insert_entry k v) kvs no_entries) = RMap (last_of kvs)
   \<and> distinct (map fst (last_of kvs)) \<and> map_of (last_of kvs) = map_of (rev kvs)"
  using inserted_entries [of kvs] by (auto simp: into_value_def distinct_last_of map_of_last_of)

text \<open>
  The yaml budget is charged for the keys of a mapping as well, which are no values: a mapping of
  50000 keys, 50001 values in all, is read from json, and from yaml refused for holding more than
  100000 values.
\<close>

theorem yaml_counts_keys_as_values:
  "(\<exists>v. parse wide_parsers Json txt = Inr v \<and> res_size v = 50001) \<and> parse wide_parsers Yaml txt = Inl too_large"
proof
  show "\<exists>v. parse wide_parsers Json txt = Inr v \<and> res_size v = 50001"
    using wide_json_measures [of 50000]
    by (auto simp: parse_def json_def wide_parsers_def MAX_NODES_def MAX_DEPTH_def simp del: document_visitor.simps)
  have "load plain_scalar (wide_yaml 50000) new_budget Map.empty = Inl too_large"
    by (simp add: wide_yaml_def new_budget_def enter_def charge_def MAX_NODES_def MAX_DEPTH_def wide_pairs_too_large)
  then show "parse wide_parsers Yaml txt = Inl too_large"
    by (simp add: parse_def wide_parsers_def yaml_is_load)
qed

end
