(* ===== verification/Res_Rendered.thy ===== *)
theory Res_Rendered
  imports Res_Render Res_Reads "HOL-Library.AList"
begin

text \<open>
  What the rendered text means. The text is shown to be the printed form of python statements, and
  running those statements, with python's rules for what a bare name in a class body stands for, to
  bind the root to the document: a class for a mapping, a tuple for a sequence, and every usable key
  an attribute. A string literal reads back as the string.
\<close>

section \<open>Statements\<close>

datatype py_expr =
    Literal resource
  | FloatOf "64 word"  \<comment> \<open>\<open>float("nan")\<close>, \<open>float("inf")\<close>, \<open>float("-inf")\<close>\<close>
  | TupleOf "py_expr list"
  | NameOf ustr

datatype py_stmt = FinalStmt ustr py_expr | ClassStmt ustr "py_stmt list"

text \<open>A float with no literal of its own.\<close>

definition special :: "64 word \<Rightarrow> bool" where
  "special x \<longleftrightarrow> f64_is_nan x \<or> f64_is_infinite x"

definition helper_name :: "ustr \<Rightarrow> nat \<Rightarrow> ustr" where
  "helper_name root n = HELPER_PREFIX @ root @ lit ''_'' @ decimal n"

text \<open>The statements of a value: its expression, the helpers that must run before it, and the next helper's number.\<close>

function (sequential) body_of :: "text_tables \<Rightarrow> ustr \<Rightarrow> (ustr \<times> resource) list \<Rightarrow> nat \<Rightarrow> py_stmt list \<times> py_stmt list \<times> nat"
  and expr_of :: "text_tables \<Rightarrow> ustr \<Rightarrow> resource \<Rightarrow> nat \<Rightarrow> py_expr \<times> py_stmt list \<times> nat"
  and exprs_of :: "text_tables \<Rightarrow> ustr \<Rightarrow> resource list \<Rightarrow> nat \<Rightarrow> py_expr list \<times> py_stmt list \<times> nat" where
  "body_of T root [] n = ([], [], n)"
| "body_of T root ((key, v) # rest) n =
     (if \<not> is_usable_key T key then body_of T root rest n
      else
        let (stmt, hs, n) =
          (case as_map v of
             Some kvs \<Rightarrow> (let (body, hs, n) = body_of T root kvs n in (ClassStmt key body, hs, n))
           | None \<Rightarrow> (let (e, hs, n) = expr_of T root v n in (FinalStmt key e, hs, n)));
          (stmts, hs', n) = body_of T root rest n
        in (stmt # stmts, hs @ hs', n))"
| "expr_of T root (RSeq items) n = (let (es, hs, n) = exprs_of T root items n in (TupleOf es, hs, n))"
| "expr_of T root (RMap kvs) n =
     (let (body, hs, m) = body_of T root kvs (n + 1)
      in (NameOf (helper_name root n), hs @ [ClassStmt (helper_name root n) body], m))"
| "expr_of T root (RFloat x) n = (if special x then FloatOf x else Literal (RFloat x), [], n)"
| "expr_of T root v n = (Literal v, [], n)"
| "exprs_of T root [] n = ([], [], n)"
| "exprs_of T root (v # vs) n =
     (let (e, hs, n) = expr_of T root v n; (es, hs', n) = exprs_of T root vs n in (e # es, hs @ hs', n))"
  by pat_completeness auto
termination
  by (relation "measure (\<lambda>x. case x of
        Inl (_, _, kvs, _) \<Rightarrow> size_list (size_prod (\<lambda>_. 0) size) kvs
      | Inr (Inl (_, _, v, _)) \<Rightarrow> size v
      | Inr (Inr (_, _, vs, _)) \<Rightarrow> size_list size vs)") (auto simp: as_map_Some)

text \<open>The helpers of a document and the statement that binds it.\<close>

definition module_of :: "text_tables \<Rightarrow> resource \<Rightarrow> ustr \<Rightarrow> py_stmt list \<times> py_stmt" where
  "module_of T v root =
     (case as_map v of
        Some kvs \<Rightarrow> (let (body, hs, _) = body_of T root kvs 0 in (hs, ClassStmt root body))
      | None \<Rightarrow> (let (e, hs, _) = expr_of T root v 0 in (hs, FinalStmt root e)))"

section \<open>Printing\<close>

fun print_expr :: "text_tables \<Rightarrow> py_expr \<Rightarrow> ustr" where
  "print_expr T (Literal v) =
     (case v of
        RNull \<Rightarrow> lit ''None''
      | RBool b \<Rightarrow> if b then lit ''True'' else lit ''False''
      | RInt i \<Rightarrow> i64_text i
      | RBigInt digits \<Rightarrow> digits
      | RFloat x \<Rightarrow> f64_debug T x
      | RStr s \<Rightarrow> string_literal s
      | _ \<Rightarrow> [])"
| "print_expr T (FloatOf x) = float_literal T x"
| "print_expr T (TupleOf es) = tuple_text (map (print_expr T) es)"
| "print_expr T (NameOf n) = n"

fun print_stmt :: "text_tables \<Rightarrow> ustr \<Rightarrow> py_stmt \<Rightarrow> ustr" where
  "print_stmt T indent (FinalStmt key e) = final_text indent key (print_expr T e)"
| "print_stmt T indent (ClassStmt name body) = class_text indent name (concat (map (print_stmt T (indent @ INDENT)) body))"

definition print_module :: "text_tables \<Rightarrow> py_stmt list \<times> py_stmt \<Rightarrow> ustr" where
  "print_module T = (\<lambda>(hs, binding). concat (map (\<lambda>h. print_stmt T [] h @ [newline]) hs) @ print_stmt T [] binding)"

text \<open>The keys that have no name.\<close>

function (sequential) unusable_of :: "text_tables \<Rightarrow> (ustr \<times> resource) list \<Rightarrow> ustr \<Rightarrow> ustr list"
  and unusable_in :: "text_tables \<Rightarrow> resource \<Rightarrow> ustr list"
  and unusable_ins :: "text_tables \<Rightarrow> resource list \<Rightarrow> ustr list" where
  "unusable_of T [] path = []"
| "unusable_of T ((key, v) # rest) path =
     (if \<not> is_usable_key T key then [path @ key]
      else (case as_map v of Some kvs \<Rightarrow> unusable_of T kvs (path @ key @ lit ''.'') | None \<Rightarrow> unusable_in T v)) @ unusable_of T rest path"
| "unusable_in T (RSeq items) = unusable_ins T items"
| "unusable_in T (RMap kvs) = unusable_of T kvs []"
| "unusable_in T _ = []"
| "unusable_ins T [] = []"
| "unusable_ins T (v # vs) = unusable_in T v @ unusable_ins T vs"
  by pat_completeness auto
termination
  by (relation "measure (\<lambda>x. case x of
        Inl (_, kvs, _) \<Rightarrow> size_list (size_prod (\<lambda>_. 0) size) kvs
      | Inr (Inl (_, v)) \<Rightarrow> size v
      | Inr (Inr (_, vs)) \<Rightarrow> size_list size vs)") (auto simp: as_map_Some)

text \<open>What a part of the rendering adds to the renderer.\<close>

definition adds :: "text_tables \<Rightarrow> py_stmt list \<Rightarrow> nat \<Rightarrow> ustr list \<Rightarrow> renderer \<Rightarrow> renderer" where
  "adds T hs n us r = r\<lparr>helpers := helpers r @ map (print_stmt T []) hs, next_helper := n, unusable_keys := unusable_keys r @ us\<rparr>"

lemma adds_simps [simp]:
  "helper_prefix (adds T hs n us r) = helper_prefix r" "next_helper (adds T hs n us r) = n"
  "adds T hs' n' us' (adds T hs n us r) = adds T (hs @ hs') n' (us @ us') r"
  "(adds T hs n us r)\<lparr>helpers := helpers (adds T hs n us r) @ [class_text [] name (concat (map (print_stmt T INDENT) body))]\<rparr> =
     adds T (hs @ [ClassStmt name body]) n us r"
  "adds T [] (next_helper r) [] r = r"
  by (simp_all add: adds_def)

lemma adds_before [simp]:
  "adds T hs n us (r\<lparr>unusable_keys := unusable_keys r @ us'\<rparr>) = adds T hs n (us' @ us) r"
  "adds T hs n us (r\<lparr>next_helper := m\<rparr>) = adds T hs n us r"
  by (simp_all add: adds_def)

lemma expr_text: "print_expr T (if special x then FloatOf x else Literal (RFloat x)) = float_literal T x"
  by (auto simp: special_def float_literal_def)

lemma concat_nonempty_stmt [simp]: "print_stmt T i s \<noteq> []"
  by (cases s) (simp_all add: final_text_def class_text_def)

text \<open>The rendered text is the printed form of the statements.\<close>

lemma render_prints:
  "helper_prefix r = HELPER_PREFIX @ root @ lit ''_'' \<Longrightarrow>
   render_class T name kvs indent path r =
     (let (body, hs, n) = body_of T root kvs (next_helper r)
      in (print_stmt T indent (ClassStmt name body), adds T hs n (unusable_of T kvs path) r))"
  "helper_prefix r = HELPER_PREFIX @ root @ lit ''_'' \<Longrightarrow>
   class_body T kvs indent path r =
     (let (body, hs, n) = body_of T root kvs (next_helper r)
      in (concat (map (print_stmt T indent) body), adds T hs n (unusable_of T kvs path) r))"
  "helper_prefix r = HELPER_PREFIX @ root @ lit ''_'' \<Longrightarrow>
   expression T v r =
     (let (e, hs, n) = expr_of T root v (next_helper r) in (print_expr T e, adds T hs n (unusable_in T v) r))"
  "helper_prefix r = HELPER_PREFIX @ root @ lit ''_'' \<Longrightarrow>
   expressions T vs r =
     (let (es, hs, n) = exprs_of T root vs (next_helper r) in (map (print_expr T) es, adds T hs n (unusable_ins T vs) r))"
proof (induction T name kvs indent path r and T kvs indent path r and T v r and T vs r
    rule: render_class_class_body_expression_expressions.induct)
  case (3 T key v rest indent path r)
  show ?case
  proof (cases "is_usable_key T key")
    case False
    then show ?thesis using 3 by (simp add: split_def Let_def)
  next
    case True
    let ?out = "case as_map v of Some kvs \<Rightarrow> render_class T key kvs indent (path @ key @ lit ''.'') r
      | None \<Rightarrow> (let (expr, r) = expression T v r in (final_text indent key expr, r))"
    let ?abs = "case as_map v of Some kvs \<Rightarrow> (let (body, hs, n) = body_of T root kvs (next_helper r) in (ClassStmt key body, hs, n))
      | None \<Rightarrow> (let (e, hs, n) = expr_of T root v (next_helper r) in (FinalStmt key e, hs, n))"
    let ?us = "case as_map v of Some kvs \<Rightarrow> unusable_of T kvs (path @ key @ lit ''.'') | None \<Rightarrow> unusable_in T v"
    obtain stmt hs n where abs: "?abs = (stmt, hs, n)" by (cases ?abs)
    have out: "?out = (print_stmt T indent stmt, adds T hs n ?us r)"
    proof (cases "as_map v")
      case None
      with 3(2) [OF _ None 3(5)] True abs show ?thesis by (auto simp: split_def Let_def)
    next
      case (Some kvs)
      with 3(3) [OF _ Some 3(5)] True abs show ?thesis by (auto simp: split_def Let_def)
    qed
    have "class_body T rest indent path (adds T hs n ?us r) =
        (let (body, hs', n') = body_of T root rest n
         in (concat (map (print_stmt T indent) body), adds T hs' n' (unusable_of T rest path) (adds T hs n ?us r)))"
      using 3(4) [OF _ refl out [symmetric]] True 3(5) by simp
    then show ?thesis using True out abs by (simp add: split_def Let_def)
  qed
qed (simp_all add: Let_def split_def expr_text helper_name_def)


lemma render_is_printed:
  "rendered_source (render T v root) = print_module T (module_of T v root)"
  "rendered_unusable (render T v root) = (case as_map v of Some kvs \<Rightarrow> unusable_of T kvs [] | None \<Rightarrow> unusable_in T v)"
  by (auto simp: render_def module_of_def print_module_def render_prints [where root = root] adds_def final_text_def
      Let_def split_def comp_def as_map_Some simp del: render_class.simps expression.simps split: option.split)

section \<open>Running the statements\<close>

text \<open>Objects: a class is its attributes. \<open>float("nan")\<close> is the quiet not-a-number.\<close>

datatype py_obj = OScalar resource | OTuple "py_obj list" | OClass "(ustr \<times> py_obj) list" | OFinal | OFloatType

definition canonical :: "64 word \<Rightarrow> 64 word" where
  "canonical x = (if f64_is_nan x then 0x7FF8000000000000 else x)"

type_synonym scope = "ustr \<rightharpoonup> py_obj"

fun eval_expr :: "scope \<Rightarrow> py_expr \<Rightarrow> py_obj option" and eval_exprs :: "scope \<Rightarrow> py_expr list \<Rightarrow> py_obj list option" where
  "eval_expr S (Literal v) = Some (OScalar v)"
| "eval_expr S (FloatOf x) = (case S (lit ''float'') of Some OFloatType \<Rightarrow> Some (OScalar (RFloat (canonical x))) | _ \<Rightarrow> None)"
| "eval_expr S (TupleOf es) = map_option OTuple (eval_exprs S es)"
| "eval_expr S (NameOf n) = S n"
| "eval_exprs S [] = Some []"
| "eval_exprs S (e # es) =
     (case eval_expr S e of
        None \<Rightarrow> None
      | Some x \<Rightarrow> map_option (\<lambda>xs. x # xs) (eval_exprs S es))"

text \<open>
  A bare name in a class body is an attribute of that body, or else a name of the module: not an
  attribute of a class around it. An annotation is evaluated, and must be \<open>typing.Final\<close>.
\<close>

definition class_scope :: "scope \<Rightarrow> (ustr \<times> py_obj) list \<Rightarrow> scope" where
  "class_scope G attrs = G ++ map_of attrs"

definition eval_final :: "scope \<Rightarrow> py_expr \<Rightarrow> py_obj option" where
  "eval_final S e = (case S (lit ''Final'') of Some OFinal \<Rightarrow> eval_expr S e | _ \<Rightarrow> None)"

function (sequential) run_body :: "scope \<Rightarrow> (ustr \<times> py_obj) list \<Rightarrow> py_stmt list \<Rightarrow> (ustr \<times> py_obj) list option" where
  "run_body G attrs [] = Some attrs"
| "run_body G attrs (FinalStmt key e # rest) =
     (case eval_final (class_scope G attrs) e of
        None \<Rightarrow> None
      | Some x \<Rightarrow> run_body G (AList.update key x attrs) rest)"
| "run_body G attrs (ClassStmt name body # rest) =
     (case run_body G [] body of
        None \<Rightarrow> None
      | Some inner \<Rightarrow> run_body G (AList.update name (OClass inner) attrs) rest)"
  by pat_completeness auto
termination
  by (relation "measure (\<lambda>(_, _, ss). size_list size ss)") auto

fun run_module :: "scope \<Rightarrow> py_stmt list \<Rightarrow> scope option" where
  "run_module G [] = Some G"
| "run_module G (FinalStmt key e # rest) =
     (case eval_final G e of None \<Rightarrow> None | Some x \<Rightarrow> run_module (G(key \<mapsto> x)) rest)"
| "run_module G (ClassStmt name body # rest) =
     (case run_body G [] body of None \<Rightarrow> None | Some attrs \<Rightarrow> run_module (G(name \<mapsto> OClass attrs)) rest)"

text \<open>The names a module starts from, its import done.\<close>

definition python_names :: scope where
  "python_names = [lit ''Final'' \<mapsto> OFinal, lit ''float'' \<mapsto> OFloatType]"

text \<open>The object a document should be.\<close>

fun object_of :: "text_tables \<Rightarrow> resource \<Rightarrow> py_obj" where
  "object_of T (RSeq items) = OTuple (map (object_of T) items)"
| "object_of T (RMap kvs) = OClass (map (\<lambda>(k, v). (k, object_of T v)) (filter (\<lambda>(k, _). is_usable_key T k) kvs))"
| "object_of T (RFloat x) = OScalar (RFloat (canonical x))"
| "object_of T v = OScalar v"

text \<open>No key \<open>float\<close> comes before a sibling whose expression calls \<open>float\<close>.\<close>

fun calls_float :: "resource \<Rightarrow> bool" where
  "calls_float (RFloat x) = special x"
| "calls_float (RSeq items) = list_ex calls_float items"
| "calls_float _ = False"

fun float_kept :: "(ustr \<times> resource) list \<Rightarrow> bool" where
  "float_kept [] = True"
| "float_kept ((k, _) # rest) = ((k = lit ''float'' \<longrightarrow> \<not> list_ex (\<lambda>(_, v). calls_float v) rest) \<and> float_kept rest)"

fun floats_kept :: "resource \<Rightarrow> bool" where
  "floats_kept (RSeq items) = list_all floats_kept items"
| "floats_kept (RMap kvs) = (float_kept kvs \<and> list_all (\<lambda>(_, v). floats_kept v) kvs)"
| "floats_kept _ = True"

lemma canonical_plain: "\<not> special x \<Longrightarrow> canonical x = x"
  by (simp add: special_def canonical_def)

lemma run_module_append: "run_module G (ss @ ts) = Option.bind (run_module G ss) (\<lambda>G'. run_module G' ts)"
proof (induction ss arbitrary: G)
  case (Cons s ss)
  then show ?case by (cases s) (simp_all del: fun_upd_apply split: option.split)
qed simp

lemma helper_name_inj: "helper_name root m = helper_name root n \<longleftrightarrow> m = n"
  by (auto simp: helper_name_def)

lemma helper_name_not_usable: "\<not> is_usable_key T (helper_name root n)"
  by (simp add: is_usable_key_def starts_with_def helper_name_def)

lemma helper_name_other: "helper_name root n \<noteq> lit ''Final''" "helper_name root n \<noteq> lit ''float''"
  by (simp_all add: helper_name_def HELPER_PREFIX_def)


section \<open>What running gives\<close>

definition ready :: "scope \<Rightarrow> bool" where
  "ready G \<longleftrightarrow> G (lit ''Final'') = Some OFinal \<and> G (lit ''float'') = Some OFloatType"

abbreviation helper_names :: "ustr \<Rightarrow> nat \<Rightarrow> nat \<Rightarrow> ustr set" where
  "helper_names root n m \<equiv> helper_name root ` {n..<m}"

text \<open>The helpers numbered \<open>n\<close> to \<open>m\<close> run, and bind no other names.\<close>

definition runs_to :: "ustr \<Rightarrow> scope \<Rightarrow> py_stmt list \<Rightarrow> nat \<Rightarrow> nat \<Rightarrow> scope \<Rightarrow> bool" where
  "runs_to root G hs n m G' \<longleftrightarrow> n \<le> m \<and> run_module G hs = Some G' \<and> (\<forall>x. x \<notin> helper_names root n m \<longrightarrow> G' x = G x)"

lemma runs_to_none: "runs_to root G [] n n G"
  by (simp add: runs_to_def)

lemma runs_to_ready: "runs_to root G hs n m G' \<Longrightarrow> ready G \<Longrightarrow> ready G'"
  unfolding runs_to_def ready_def using helper_name_other by (metis imageE)

lemma runs_to_append:
  assumes "runs_to root G hs n m G'" "runs_to root G' hs' m k G''"
  shows "runs_to root G (hs @ hs') n k G''" "\<forall>x \<in> helper_names root n m. G'' x = G' x"
proof -
  have "n \<le> m" "m \<le> k" using assms by (simp_all add: runs_to_def)
  then have "helper_names root n m \<subseteq> helper_names root n k" "helper_names root m k \<subseteq> helper_names root n k"
    by (auto intro!: image_mono)
  with assms show "runs_to root G (hs @ hs') n k G''"
    unfolding runs_to_def run_module_append by (metis bind.bind_lunit order_trans subsetD)
  have "helper_names root n m \<inter> helper_names root m k = {}" by (auto simp: helper_name_inj)
  with assms(2) show "\<forall>x \<in> helper_names root n m. G'' x = G' x" unfolding runs_to_def by blast
qed

definition attributes :: "text_tables \<Rightarrow> (ustr \<times> resource) list \<Rightarrow> (ustr \<times> py_obj) list" where
  "attributes T kvs = map (\<lambda>(k, v). (k, object_of T v)) (filter (\<lambda>(k, _). is_usable_key T k) kvs)"

text \<open>What the statements of a class body, an expression and a list of them give where the helpers have run.\<close>

definition body_gives :: "text_tables \<Rightarrow> ustr \<Rightarrow> nat \<Rightarrow> nat \<Rightarrow> scope \<Rightarrow> py_stmt list \<Rightarrow> (ustr \<times> resource) list \<Rightarrow> bool" where
  "body_gives T root n m G ss kvs \<longleftrightarrow> (\<forall>G' attrs.
     ready G' \<longrightarrow> (\<forall>x \<in> helper_names root n m. G' x = G x) \<longrightarrow> fst ` set attrs \<inter> fst ` set kvs = {} \<longrightarrow>
     (\<forall>k \<in> fst ` set attrs. is_usable_key T k) \<longrightarrow> (lit ''float'' \<in> fst ` set attrs \<longrightarrow> \<not> list_ex (\<lambda>(_, v). calls_float v) kvs) \<longrightarrow>
     run_body G' attrs ss = Some (attrs @ attributes T kvs))"

definition expr_gives :: "text_tables \<Rightarrow> ustr \<Rightarrow> nat \<Rightarrow> nat \<Rightarrow> scope \<Rightarrow> py_expr \<Rightarrow> resource \<Rightarrow> bool" where
  "expr_gives T root n m G e v \<longleftrightarrow> (\<forall>S. (\<forall>x \<in> helper_names root n m. S x = G x) \<longrightarrow>
     (calls_float v \<longrightarrow> S (lit ''float'') = Some OFloatType) \<longrightarrow> eval_expr S e = Some (object_of T v))"

definition exprs_give :: "text_tables \<Rightarrow> ustr \<Rightarrow> nat \<Rightarrow> nat \<Rightarrow> scope \<Rightarrow> py_expr list \<Rightarrow> resource list \<Rightarrow> bool" where
  "exprs_give T root n m G es vs \<longleftrightarrow> (\<forall>S. (\<forall>x \<in> helper_names root n m. S x = G x) \<longrightarrow>
     (list_ex calls_float vs \<longrightarrow> S (lit ''float'') = Some OFloatType) \<longrightarrow> eval_exprs S es = Some (map (object_of T) vs))"

lemma update_new: "k \<notin> fst ` set xs \<Longrightarrow> AList.update k x xs = xs @ [(k, x)]"
  by (induction xs) auto

lemma class_scope_other: "x \<notin> fst ` set attrs \<Longrightarrow> class_scope G attrs x = G x"
  by (simp add: class_scope_def map_add_def map_of_eq_None_iff [THEN iffD2])

lemma usable_not_Final: "is_usable_key T k \<Longrightarrow> k \<noteq> lit ''Final''"
  by (simp add: is_usable_key_def)

text \<open>One more attribute, an expression's or a nested class's.\<close>

lemma final_statement:
  assumes "expr_gives T root n m G e v" "ready G'" "\<forall>x \<in> helper_names root n m. G' x = G x"
    and "\<forall>k \<in> fst ` set attrs. is_usable_key T k" "lit ''float'' \<in> fst ` set attrs \<longrightarrow> \<not> calls_float v"
    and "key \<notin> fst ` set attrs"
  shows "run_body G' attrs (FinalStmt key e # rest) = run_body G' (attrs @ [(key, object_of T v)]) rest"
proof -
  let ?S = "class_scope G' attrs"
  have "\<forall>x \<in> helper_names root n m. ?S x = G x"
    using assms(3,4) helper_name_not_usable by (metis class_scope_other imageE)
  moreover have "calls_float v \<longrightarrow> ?S (lit ''float'') = Some OFloatType"
    using assms(2,5) class_scope_other by (metis ready_def)
  ultimately have "eval_expr ?S e = Some (object_of T v)" using assms(1) unfolding expr_gives_def by blast
  moreover have "?S (lit ''Final'') = Some OFinal"
    using assms(2,4) class_scope_other usable_not_Final by (metis ready_def)
  ultimately show ?thesis using assms(6) by (simp add: eval_final_def update_new)
qed

lemma class_statement:
  assumes "body_gives T root n m G body kvs" "ready G'" "\<forall>x \<in> helper_names root n m. G' x = G x" "key \<notin> fst ` set attrs"
  shows "run_body G' attrs (ClassStmt key body # rest) = run_body G' (attrs @ [(key, object_of T (RMap kvs))]) rest"
proof -
  have "run_body G' [] body = Some (attributes T kvs)"
    using assms(1-3) unfolding body_gives_def by fastforce
  with assms(4) show ?thesis by (simp add: update_new attributes_def)
qed


lemma attributes_simps [simp]:
  "attributes T [] = []"
  "attributes T ((k, v) # rest) = (if is_usable_key T k then (k, object_of T v) # attributes T rest else attributes T rest)"
  by (simp_all add: attributes_def)

text \<open>The first helpers keep what they bound while the next run.\<close>

lemma agrees_parts:
  assumes "runs_to root G hs n k G1" "runs_to root G1 hs' k m G2" "\<forall>x \<in> helper_names root n m. S x = G2 x"
  shows "\<forall>x \<in> helper_names root n k. S x = G1 x" "\<forall>x \<in> helper_names root k m. S x = G2 x"
proof -
  have "n \<le> k" "k \<le> m" using assms(1,2) by (simp_all add: runs_to_def)
  then have names: "helper_names root n k \<subseteq> helper_names root n m" "helper_names root k m \<subseteq> helper_names root n m"
    by (auto intro!: image_mono)
  from names(2) assms(3) show "\<forall>x \<in> helper_names root k m. S x = G2 x" by (meson subsetD)
  show "\<forall>x \<in> helper_names root n k. S x = G1 x"
  proof
    fix x assume "x \<in> helper_names root n k"
    with names(1) assms(3) runs_to_append(2) [OF assms(1,2)] show "S x = G1 x" by (metis subsetD)
  qed
qed

lemma body_gives_cons:
  assumes "runs_to root G hs n k G1" "runs_to root G1 hs' k m G2" "body_gives T root k m G2 ss rest"
    and stmt: "\<And>G' attrs more'. ready G' \<Longrightarrow> \<forall>x \<in> helper_names root n k. G' x = G1 x \<Longrightarrow> \<forall>k \<in> fst ` set attrs. is_usable_key T k \<Longrightarrow>
      lit ''float'' \<in> fst ` set attrs \<longrightarrow> \<not> calls_float v \<Longrightarrow> key \<notin> fst ` set attrs \<Longrightarrow>
      run_body G' attrs (stmt # more') = run_body G' (attrs @ [(key, object_of T v)]) more'"
    and key: "is_usable_key T key" "key \<notin> fst ` set rest" "key = lit ''float'' \<longrightarrow> \<not> list_ex (\<lambda>(_, v). calls_float v) rest"
  shows "body_gives T root n m G2 (stmt # ss) ((key, v) # rest)"
  unfolding body_gives_def
proof (intro allI impI)
  fix G' :: scope and attrs :: "(ustr \<times> py_obj) list"
  assume G': "ready G'" "\<forall>x \<in> helper_names root n m. G' x = G2 x" and disjoint: "fst ` set attrs \<inter> fst ` set ((key, v) # rest) = {}"
    and usable: "\<forall>k \<in> fst ` set attrs. is_usable_key T k"
    and float: "lit ''float'' \<in> fst ` set attrs \<longrightarrow> \<not> list_ex (\<lambda>(_, v). calls_float v) ((key, v) # rest)"
  note agree = agrees_parts [OF assms(1,2) G'(2)]
  have "run_body G' attrs (stmt # ss) = run_body G' (attrs @ [(key, object_of T v)]) ss"
    by (rule stmt [OF G'(1) agree(1) usable]) (use disjoint float in auto)
  also have "\<dots> = Some ((attrs @ [(key, object_of T v)]) @ attributes T rest)"
    using assms(3) unfolding body_gives_def
    by (elim allE [of _ G'] allE [of _ "attrs @ [(key, object_of T v)]"] impE)
      (use agree(2) G'(1) disjoint usable float key in auto)
  finally show "run_body G' attrs (stmt # ss) = Some (attrs @ attributes T ((key, v) # rest))" using key(1) by simp
qed

lemma exprs_give_cons:
  assumes "runs_to root G hs n k G1" "expr_gives T root n k G1 e v" "runs_to root G1 hs' k m G2" "exprs_give T root k m G2 es vs"
  shows "exprs_give T root n m G2 (e # es) (v # vs)"
  unfolding exprs_give_def
proof (intro allI impI)
  fix S
  assume S: "\<forall>x \<in> helper_names root n m. S x = G2 x" "list_ex calls_float (v # vs) \<longrightarrow> S (lit ''float'') = Some OFloatType"
  note agree = agrees_parts [OF assms(1,3) S(1)]
  have "eval_expr S e = Some (object_of T v)"
    using assms(2) unfolding expr_gives_def by (elim allE [of _ S] impE) (use S(2) agree(1) in auto)
  moreover have "eval_exprs S es = Some (map (object_of T) vs)"
    using assms(4) unfolding exprs_give_def by (elim allE [of _ S] impE) (use S(2) agree(2) in auto)
  ultimately show "eval_exprs S (e # es) = Some (map (object_of T) (v # vs))" by simp
qed

lemma renders_right:
  "body_of T root kvs n = (ss, hs, m) \<Longrightarrow> keys_once (RMap kvs) \<Longrightarrow> floats_kept (RMap kvs) \<Longrightarrow> ready G \<Longrightarrow>
    \<exists>G'. runs_to root G hs n m G' \<and> body_gives T root n m G' ss kvs"
  "expr_of T root v n = (e, hs, m) \<Longrightarrow> keys_once v \<Longrightarrow> floats_kept v \<Longrightarrow> ready G \<Longrightarrow>
    \<exists>G'. runs_to root G hs n m G' \<and> expr_gives T root n m G' e v"
  "exprs_of T root vs n = (es, hs, m) \<Longrightarrow> list_all keys_once vs \<Longrightarrow> list_all floats_kept vs \<Longrightarrow> ready G \<Longrightarrow>
    \<exists>G'. runs_to root G hs n m G' \<and> exprs_give T root n m G' es vs"
proof (induction T root kvs n and T root v n and T root vs n arbitrary: ss hs m G and e hs m G and es hs m G
    rule: body_of_expr_of_exprs_of.induct)
  case (1 T root n)
  then show ?case by (auto simp: body_gives_def intro!: exI [of _ G] runs_to_none)
next
  case (2 T root key v rest n)
  show ?case
  proof (cases "is_usable_key T key")
    case False
    with 2 obtain G' where "runs_to root G hs n m G'" "body_gives T root n m G' ss rest" by fastforce
    with False show ?thesis by (auto simp: body_gives_def intro!: exI [of _ G'])
  next
    case True
    let ?abs = "case as_map v of Some kvs \<Rightarrow> (let (body, hs, n) = body_of T root kvs n in (ClassStmt key body, hs, n))
      | None \<Rightarrow> (let (e, hs, n) = expr_of T root v n in (FinalStmt key e, hs, n))"
    obtain stmt hs1 k where abs: "?abs = (stmt, hs1, k)" by (cases ?abs)
    obtain ss2 hs2 where rest: "body_of T root rest k = (ss2, hs2, m)" and ss: "ss = stmt # ss2" "hs = hs1 @ hs2"
      using 2(5) True abs by (cases "body_of T root rest k") (auto simp: Let_def)
    have v: "keys_once v" "floats_kept v" "keys_once (RMap rest)" "floats_kept (RMap rest)" "key \<notin> fst ` set rest"
      using 2(6,7) by auto
    obtain G1 where G1: "runs_to root G hs1 n k G1"
      and stmt: "\<And>G' attrs more'. ready G' \<Longrightarrow> \<forall>x \<in> helper_names root n k. G' x = G1 x \<Longrightarrow> \<forall>k \<in> fst ` set attrs. is_usable_key T k \<Longrightarrow>
        lit ''float'' \<in> fst ` set attrs \<longrightarrow> \<not> calls_float v \<Longrightarrow> key \<notin> fst ` set attrs \<Longrightarrow>
        run_body G' attrs (stmt # more') = run_body G' (attrs @ [(key, object_of T v)]) more'"
    proof (cases "as_map v")
      case None
      obtain e where e: "expr_of T root v n = (e, hs1, k)" "stmt = FinalStmt key e"
        using abs None by (cases "expr_of T root v n") auto
      obtain G1 where G1: "runs_to root G hs1 n k G1" "expr_gives T root n k G1 e v"
        using 2(2) [OF _ None e(1) v(1,2) 2(8)] True by blast
      show ?thesis by (rule that [OF G1(1)]) (unfold e(2), rule final_statement [OF G1(2)])
    next
      case (Some kvs)
      obtain body where e: "body_of T root kvs n = (body, hs1, k)" "stmt = ClassStmt key body"
        using abs Some by (cases "body_of T root kvs n") auto
      have "v = RMap kvs" using Some by (simp add: as_map_Some)
      with 2(3) [OF _ Some e(1)] v True 2(8) obtain G1 where G1: "runs_to root G hs1 n k G1" "body_gives T root n k G1 body kvs" by auto
      show ?thesis by (rule that [OF G1(1)]) (unfold e(2) \<open>v = _\<close>, rule class_statement [OF G1(2)])
    qed
    obtain G2 where G2: "runs_to root G1 hs2 k m G2" "body_gives T root k m G2 ss2 rest"
      using 2(4) [OF _ abs [symmetric] refl refl rest v(3,4) runs_to_ready [OF G1 2(8)]] True by auto
    have "body_gives T root n m G2 ss ((key, v) # rest)"
      unfolding ss(1) by (rule body_gives_cons [OF G1 G2 stmt True]) (use 2(6,7) in auto)
    with runs_to_append(1) [OF G1 G2(1)] show ?thesis unfolding ss(2) by blast
  qed
next
  case (3 T root items n)
  obtain es where es: "exprs_of T root items n = (es, hs, m)" "e = TupleOf es"
    using 3(2) by (cases "exprs_of T root items n") auto
  with 3 obtain G' where "runs_to root G hs n m G'" "exprs_give T root n m G' es items" by auto
  with es(2) show ?case by (auto simp: expr_gives_def exprs_give_def intro!: exI [of _ G'])
next
  case (4 T root kvs n)
  obtain body hs1 where body: "body_of T root kvs (n + 1) = (body, hs1, m)" "e = NameOf (helper_name root n)"
    "hs = hs1 @ [ClassStmt (helper_name root n) body]"
    using 4(2) by (cases "body_of T root kvs (n + 1)") (auto simp: Let_def)
  from 4(1) [OF body(1) 4(3,4,5)] obtain G1 where G1: "runs_to root G hs1 (n + 1) m G1" "body_gives T root (n + 1) m G1 body kvs" by blast
  let ?G = "G1(helper_name root n \<mapsto> object_of T (RMap kvs))"
  have "run_body G1 [] body = Some (attributes T kvs)"
    using G1(2) runs_to_ready [OF G1(1) 4(5)] unfolding body_gives_def by fastforce
  then have "run_module G hs = Some ?G"
    using G1(1) by (simp add: body(3) runs_to_def run_module_append attributes_def)
  moreover have "n < m" using G1(1) by (simp add: runs_to_def)
  moreover from this have names: "helper_names root n m = insert (helper_name root n) (helper_names root (n + 1) m)"
  proof -
    have "{n..<m} = insert n {n + 1..<m}" using \<open>n < m\<close> by auto
    then show ?thesis by simp
  qed
  ultimately have "runs_to root G hs n m ?G" using G1(1) by (auto simp: runs_to_def names)
  moreover have "expr_gives T root n m ?G e (RMap kvs)"
    by (auto simp: expr_gives_def body(2) names)
  ultimately show ?case by blast
next
  case (5 T root x n)
  then show ?case by (auto simp: expr_gives_def canonical_plain intro!: exI [of _ G] runs_to_none)
next
  case (8 T root v vs n)
  obtain e1 hs1 k where e: "expr_of T root v n = (e1, hs1, k)" by (cases "expr_of T root v n")
  obtain es2 hs2 where es: "exprs_of T root vs k = (es2, hs2, m)" "es = e1 # es2" "hs = hs1 @ hs2"
    using 8(3) e by (cases "exprs_of T root vs k") auto
  obtain G1 where G1: "runs_to root G hs1 n k G1" "expr_gives T root n k G1 e1 v"
    using 8(1) [OF e] 8(4-6) by auto
  obtain G2 where G2: "runs_to root G1 hs2 k m G2" "exprs_give T root k m G2 es2 vs"
    using 8(2) [OF e [symmetric] refl refl es(1) _ _ runs_to_ready [OF G1(1) 8(6)]] 8(4,5) by auto
  from runs_to_append(1) [OF G1(1) G2(1)] exprs_give_cons [OF G1 G2] show ?case unfolding es(2,3) by blast
qed (auto simp: expr_gives_def exprs_give_def intro: runs_to_none)


lemma python_names_ready: "ready python_names"
  by (simp add: ready_def python_names_def)

lemma module_binds:
  assumes "keys_once v" "floats_kept v" "module_of T v root = (hs, binding)"
  shows "\<exists>G. run_module python_names (hs @ [binding]) = Some G \<and> G root = Some (object_of T v)"
proof (cases "as_map v")
  case None
  obtain e m where e: "expr_of T root v 0 = (e, hs, m)" "binding = FinalStmt root e"
    using assms(3) None by (cases "expr_of T root v 0") (auto simp: module_of_def)
  obtain G where G: "runs_to root python_names hs 0 m G" "expr_gives T root 0 m G e v"
    using renders_right(2) [OF e(1) assms(1,2) python_names_ready] by blast
  have "ready G" by (rule runs_to_ready [OF G(1) python_names_ready])
  then have "eval_expr G e = Some (object_of T v)" using G(2) unfolding expr_gives_def ready_def by blast
  with G(1) \<open>ready G\<close> show ?thesis by (simp add: e(2) runs_to_def run_module_append eval_final_def ready_def)
next
  case (Some kvs)
  obtain body m where b: "body_of T root kvs 0 = (body, hs, m)" "binding = ClassStmt root body"
    using assms(3) Some by (cases "body_of T root kvs 0") (auto simp: module_of_def)
  have v: "v = RMap kvs" using Some by (simp add: as_map_Some)
  obtain G where G: "runs_to root python_names hs 0 m G" "body_gives T root 0 m G body kvs"
    using renders_right(1) [OF b(1) _ _ python_names_ready] assms(1,2) v by blast
  have "ready G" by (rule runs_to_ready [OF G(1) python_names_ready])
  then have "run_body G [] body = Some (attributes T kvs)" using G(2) unfolding body_gives_def by fastforce
  with G(1) show ?thesis by (simp add: b(2) v runs_to_def run_module_append attributes_def)
qed

section \<open>String literals\<close>

fun hex_value :: "nat \<Rightarrow> nat option" where
  "hex_value c = (if 48 \<le> c \<and> c \<le> 57 then Some (c - 48) else if 97 \<le> c \<and> c \<le> 102 then Some (c - 87) else None)"

text \<open>Python's reading of a double-quoted literal on one line, as far as its escapes are used here.\<close>

fun unquote_rest :: "ustr \<Rightarrow> ustr option" where
  "unquote_rest [] = None"
| "unquote_rest (c # cs) =
     (if c = quote then (if cs = [] then Some [] else None)
      else if c = 10 \<or> c = 13 then None
      else if c \<noteq> backslash then map_option (\<lambda>s. c # s) (unquote_rest cs)
      else (case cs of
              [] \<Rightarrow> None
            | d # ds \<Rightarrow>
                if d = backslash \<or> d = quote then map_option (\<lambda>s. d # s) (unquote_rest ds)
                else if d = of_char CHR ''n'' then map_option (\<lambda>s. 10 # s) (unquote_rest ds)
                else if d = of_char CHR ''r'' then map_option (\<lambda>s. 13 # s) (unquote_rest ds)
                else if d = of_char CHR ''t'' then map_option (\<lambda>s. 9 # s) (unquote_rest ds)
                else if d = of_char CHR ''x'' then
                  (case ds of
                     x # y # rest \<Rightarrow>
                       (case (hex_value x, hex_value y) of
                          (Some a, Some b) \<Rightarrow> map_option (\<lambda>s. (16 * a + b) # s) (unquote_rest rest)
                        | _ \<Rightarrow> None)
                   | _ \<Rightarrow> None)
                else None))"

definition unquote :: "ustr \<Rightarrow> ustr option" where
  "unquote s = (case s of [] \<Rightarrow> None | c # cs \<Rightarrow> if c = quote then unquote_rest cs else None)"

lemma hex_pair:
  assumes "c < 128"
  shows "(if c < 16 then lit ''0'' else []) @ lower_hex c = [digit_char (c div 16), digit_char (c mod 16)]"
proof (cases "c < 16")
  case True
  then show ?thesis by (simp add: lower_hex_def radix_digits.simps [of 16 c] digit_char_def)
next
  case False
  with assms show ?thesis
    by (simp add: lower_hex_def radix_digits.simps [of 16 c] radix_digits.simps [of 16 "c div 16"])
qed

lemma hex_value_digit: "d < 16 \<Longrightarrow> hex_value (digit_char d) = Some d"
  by (auto simp: digit_char_def)

lemma unquote_escaped: "unquote_rest (escaped c @ rest) = map_option (\<lambda>s. c # s) (unquote_rest rest)"
proof (cases "c < 32 \<or> c = 127")
  case True
  then have "c < 128" by auto
  then have "c div 16 < 16" "16 * (c div 16) + c mod 16 = c" by auto
  with True show ?thesis
    by (auto simp: escaped_def hex_pair [OF \<open>c < 128\<close>] hex_value_digit simp del: hex_value.simps)
qed (auto simp: escaped_def)

lemma unquote_literal: "unquote (string_literal s) = Some s"
proof -
  have "unquote_rest (concat (map escaped s) @ [quote]) = Some s"
    by (induction s) (simp_all add: unquote_escaped)
  then show ?thesis by (simp add: unquote_def string_literal_def)
qed


section \<open>Reading and rendering\<close>

text \<open>What the renderer needs of whatever reads its documents: the keys of a mapping are apart.\<close>

locale document_reader =
  fixes read :: "ustr \<Rightarrow> resource parsed"
  assumes apart: "read txt = Inr v \<Longrightarrow> keys_once v"
begin

lemma reads_and_binds:
  assumes "read txt = Inr v" "module_of T v root = (hs, binding)"
  shows "rendered_source (render T v root) = print_module T (hs, binding)
    \<and> (floats_kept v \<longrightarrow> (\<exists>G. run_module python_names (hs @ [binding]) = Some G \<and> G root = Some (object_of T v)))"
  using module_binds [OF apart [OF assms(1)] _ assms(2)] assms(2) by (simp add: render_is_printed)

end

interpretation parsed: document_reader "parse E format" for E :: "('s, 't) parsers" and format
  by unfold_locales (rule parse_within)

section \<open>Samples\<close>






section \<open>Properties\<close>




text \<open>
  The literal of a string, read the way python reads a double-quoted literal on one line, is the
  string, whatever characters it has.
\<close>

theorem string_literal_reads_back: "unquote (string_literal s) = Some s"
  by (rule unquote_literal)

end
