(* ===== verification/Stage_Sourcemap.thy ===== *)
theory Stage_Sourcemap
  imports Text_Prelude "HOL-Library.List_Lexorder"
begin

text \<open>
  \<^verbatim>\<open>by_stage/src/sourcemap.rs\<close>: the module that says which \<open>.by\<close> line a generated line came from, how it
  is written whole by a build, and how one entry of it is found and replaced when a file is staged
  again. A path is the text it is spelled as, separated by \<open>/\<close>; a path relative to the tree is the
  list of its names. Reading and hashing files is the caller's.
\<close>

section \<open>Entries\<close>

datatype column_origin = Copied u32 u32 | Qualifier

record segment =
  seg_start :: u32
  seg_end :: u32
  seg_origin :: column_origin

record traceback_entry =
  py_path :: ustr
  by_path :: ustr
  line_map :: "u32 option list"
  columns :: "segment list list"
  by_source :: ustr
  by_digest :: ustr
  py_digest :: ustr

record transpiled =
  tr_by_path :: ustr
  tr_by_source :: ustr
  tr_python :: ustr
  tr_line_map :: "u32 option list"
  tr_columns :: "segment list list"

text \<open>The file system's canonical spelling of a path, if it has one, and the hexadecimal hash of a text.\<close>

record outside =
  canonicalize :: "ustr \<Rightarrow> ustr option"
  sha256_hex :: "ustr \<Rightarrow> ustr"

definition content_digest :: "outside \<Rightarrow> ustr \<Rightarrow> ustr" where
  "content_digest X bytes = lit ''sha256:'' @ sha256_hex X bytes"

definition describe_module :: "outside \<Rightarrow> transpiled \<Rightarrow> traceback_entry" where
  "describe_module X emitted =
     \<lparr>py_path = [],
      by_path = (case canonicalize X (tr_by_path emitted) of Some p \<Rightarrow> p | None \<Rightarrow> tr_by_path emitted),
      line_map = tr_line_map emitted, columns = tr_columns emitted, by_source = tr_by_source emitted,
      by_digest = content_digest X (tr_by_source emitted), py_digest = content_digest X (tr_python emitted)\<rparr>"

section \<open>Writing the map\<close>

definition map_escape :: "nat \<Rightarrow> ustr" where
  "map_escape c =
     (if c = backslash then [backslash, backslash]
      else if c = quote then [backslash, quote]
      else if c = 10 then [backslash, of_char CHR ''n'']
      else if c = 13 then [backslash, of_char CHR ''r'']
      else [c])"

definition py_str_literal :: "ustr \<Rightarrow> ustr" where
  "py_str_literal s = [quote] @ concat (map map_escape s) @ [quote]"

definition u32_text :: "u32 \<Rightarrow> ustr" where
  "u32_text n = decimal (unat n)"

text \<open>Each line is without its newline here.\<close>

definition sourcemap_line :: "traceback_entry \<Rightarrow> ustr" where
  "sourcemap_line e =
     lit ''    '' @ py_str_literal (py_path e) @ lit '': ('' @ py_str_literal (by_path e) @ lit '', [''
     @ join (lit '', '') (map (\<lambda>m. case m of None \<Rightarrow> lit ''None'' | Some n \<Rightarrow> u32_text n) (line_map e)) @ lit '']),''"

definition segment_text :: "segment \<Rightarrow> ustr" where
  "segment_text s =
     lit ''('' @ u32_text (seg_start s) @ lit '', '' @ u32_text (seg_end s) @ lit '', '' @
       (case seg_origin s of
          Copied line column \<Rightarrow> u32_text line @ lit '', '' @ u32_text column @ lit '')''
        | Qualifier \<Rightarrow> lit ''None, None)'')"

definition columns_line :: "traceback_entry \<Rightarrow> ustr" where
  "columns_line e =
     lit ''    '' @ py_str_literal (py_path e) @ lit '': [''
     @ join (lit '', '') (map (\<lambda>line. lit ''['' @ join (lit '', '') (map segment_text line) @ lit '']'') (columns e)) @ lit ''],''"

definition digests_line :: "traceback_entry \<Rightarrow> ustr" where
  "digests_line e =
     lit ''    '' @ py_str_literal (py_path e) @ lit '': {'' @ [quote] @ lit ''by'' @ [quote] @ lit '': '' @ py_str_literal (by_digest e)
     @ lit '', '' @ [quote] @ lit ''py'' @ [quote] @ lit '': '' @ py_str_literal (py_digest e) @ lit ''},''"

definition BY_SOURCEMAP_FILENAME :: ustr where
  "BY_SOURCEMAP_FILENAME = lit ''_by_sourcemap.py''"

record own_code =
  launcher :: "ustr list option"
  own_files :: "ustr list list"

definition join_path :: "ustr \<Rightarrow> ustr list \<Rightarrow> ustr" where
  "join_path tree names = (if tree = [] \<or> last tree = of_char CHR ''/'' then tree else tree @ lit ''/'') @ join (lit ''/'') names"

definition own_paths :: "own_code \<Rightarrow> ustr list list" where
  "own_paths own = remdups_adj (sort ([BY_SOURCEMAP_FILENAME] # option_list (launcher own) @ own_files own))"

definition map_header :: "ustr list" where
  "map_header =
     [lit ''# generated by basedpython '' @ [0x2014] @ lit '' maps transpiled python frames to .by source'',
      lit ''# the two tables share their keys: the generated path, spelled as it is here'',
      lit ''SOURCEMAP = {'']"

definition digests_header :: "ustr list" where
  "digests_header =
     [lit ''# sha-256 of the two files each SOURCEMAP entry describes, over the bytes'',
      lit ''# the transpiler read and wrote. recompute both from disk before trusting a'',
      lit ''# mapped line: a mismatch means the file is no longer the one mapped'',
      lit ''DIGESTS = {'']"

definition columns_header :: "ustr list" where
  "columns_header =
     [[], lit ''# for each generated line, the runs of its byte columns that are text the .by'',
      lit ''# spells: (start, end, by_line, by_column), zero-based, or (start, end, None, None)'',
      lit ''# for a qualifier written in front of the author'' @ [39] @ lit ''s name. every other column is'',
      lit ''# the transpiler'' @ [39] @ lit ''s'', lit ''COLUMNS = {'']"

definition launcher_lines :: "ustr \<Rightarrow> own_code \<Rightarrow> ustr list" where
  "launcher_lines tree own =
     [[], lit ''# the script a program in this tree is started through, which runs its entry'',
      lit ''# module as `__main__`: none of its frames is the program'' @ [39] @ lit ''s. None for a tree no'',
      lit ''# program is started from'',
      lit ''LAUNCHER = '' @ (case launcher own of None \<Rightarrow> lit ''None'' | Some l \<Rightarrow> py_str_literal (join_path tree l))]"

definition by_code_lines :: "ustr \<Rightarrow> own_code \<Rightarrow> ustr list" where
  "by_code_lines tree own =
     [[], lit ''# every file of by'' @ [39] @ lit ''s own python in this tree, none of which is the program'' @ [39] @ lit ''s code:'',
      lit ''# the launcher, the runtime'' @ [39] @ lit ''s helpers, this map'', lit ''BY_CODE = ['']
     @ map (\<lambda>file. lit ''    '' @ py_str_literal (join_path tree file) @ lit '','') (own_paths own) @ [lit '']'']"

definition map_lines :: "traceback_entry list \<Rightarrow> ustr \<Rightarrow> own_code \<Rightarrow> ustr list" where
  "map_lines es tree own =
     map_header @ map sourcemap_line es @ [lit ''}'', []]
     @ digests_header @ map digests_line es @ [lit ''}'']
     @ columns_header @ map columns_line es @ [lit ''}'']
     @ launcher_lines tree own @ by_code_lines tree own"

definition render_sourcemap_module :: "traceback_entry list \<Rightarrow> ustr \<Rightarrow> own_code \<Rightarrow> ustr" where
  "render_sourcemap_module es tree own = written_lines (map_lines es tree own)"

section \<open>Finding an entry\<close>

fun read_key :: "ustr \<Rightarrow> ustr option" where
  "read_key [] = None"
| "read_key (c # cs) =
     (if c = quote then Some []
      else if c = backslash then
        (case cs of
           [] \<Rightarrow> None
         | d # ds \<Rightarrow>
             if d = backslash then map_option (\<lambda>k. backslash # k) (read_key ds)
             else if d = quote then map_option (\<lambda>k. quote # k) (read_key ds)
             else if d = of_char CHR ''n'' then map_option (\<lambda>k. 10 # k) (read_key ds)
             else if d = of_char CHR ''r'' then map_option (\<lambda>k. 13 # k) (read_key ds)
             else None)
      else map_option (\<lambda>k. c # k) (read_key cs))"

definition entry_key :: "ustr \<Rightarrow> ustr option" where
  "entry_key line = (if starts_with (lit ''    '' @ [quote]) line then read_key (drop 5 line) else None)"

fun split_path :: "nat \<Rightarrow> ustr \<Rightarrow> ustr list" where
  "split_path sep [] = [[]]"
| "split_path sep (c # cs) =
     (if c = sep then [] # split_path sep cs
      else (case split_path sep cs of [] \<Rightarrow> [[c]] | p # ps \<Rightarrow> (c # p) # ps))"

text \<open>The names of a path, and \<open>Path::ends_with\<close> for a relative path of names.\<close>

definition components :: "ustr \<Rightarrow> ustr list" where
  "components p = filter (\<lambda>c. c \<noteq> [] \<and> c \<noteq> lit ''.'') (split_path (of_char CHR ''/'') p)"

definition path_ends_with :: "ustr \<Rightarrow> ustr list \<Rightarrow> bool" where
  "path_ends_with p names \<longleftrightarrow>
     length names \<le> length (components p) \<and> drop (length (components p) - length names) (components p) = names"

definition sourcemap_key_for :: "ustr \<Rightarrow> ustr list \<Rightarrow> ustr option" where
  "sourcemap_key_for existing relative =
     List.find (\<lambda>key. path_ends_with key relative)
       (filter_map entry_key (takeWhile (\<lambda>line. \<not> starts_with (lit ''DIGESTS = {'') line) (text_lines existing)))"

section \<open>Replacing an entry\<close>

datatype rewrite_refusal = NotInTheMap

definition table_headers :: "ustr list" where
  "table_headers = [lit ''SOURCEMAP = {'', lit ''DIGESTS = {'', lit ''COLUMNS = {'']"

text \<open>Which table a line is in, from the table of the line before.\<close>

definition table_at :: "ustr \<Rightarrow> nat option \<Rightarrow> nat option" where
  "table_at line table =
     (case List.find (\<lambda>i. starts_with (table_headers ! i) line) [0..<3] of
        Some header \<Rightarrow> Some header
      | None \<Rightarrow> if starts_with (lit ''    '') line then table else None)"

definition table_line :: "nat \<Rightarrow> traceback_entry \<Rightarrow> ustr" where
  "table_line index e = (if index = 0 then sourcemap_line e else if index = 1 then digests_line e else columns_line e)"

definition entry_prefix :: "traceback_entry \<Rightarrow> ustr" where
  "entry_prefix e = lit ''    '' @ py_str_literal (py_path e) @ lit '': ''"

text \<open>The text so far is handed back in front of the rest; with it the tables an entry was replaced in.\<close>

fun rewrite_lines :: "traceback_entry \<Rightarrow> nat option \<Rightarrow> bool list \<Rightarrow> ustr list \<Rightarrow> ustr \<times> bool list" where
  "rewrite_lines e table replaced [] = ([], replaced)"
| "rewrite_lines e table replaced (line # rest) =
     (let table = table_at line table
      in case table of
           Some index \<Rightarrow>
             if starts_with (entry_prefix e) line
             then (let (out, replaced) = rewrite_lines e table (replaced[index := True]) rest
                   in (table_line index e @ [newline] @ out, replaced))
             else (let (out, replaced) = rewrite_lines e table replaced rest in (line @ out, replaced))
         | None \<Rightarrow> (let (out, replaced) = rewrite_lines e table replaced rest in (line @ out, replaced)))"

definition rewrite_sourcemap_entry :: "ustr \<Rightarrow> traceback_entry \<Rightarrow> rewrite_refusal + ustr" where
  "rewrite_sourcemap_entry existing e =
     (let (out, replaced) = rewrite_lines e None [False, False, False] (split_inclusive existing)
      in if list_all id replaced then Inr out else Inl NotInTheMap)"

section \<open>Literals and keys\<close>

lemma read_key_escape: "read_key (map_escape c @ rest) = map_option (\<lambda>k. c # k) (read_key rest)"
  by (auto simp: map_escape_def)

text \<open>What a literal is followed by does not matter to reading it.\<close>

lemma read_key_literal: "read_key (concat (map map_escape s) @ quote # rest) = Some s"
  by (induction s) (simp_all add: read_key_escape)

lemma entry_key_literal: "entry_key (lit ''    '' @ py_str_literal s @ rest) = Some s"
  by (simp add: entry_key_def py_str_literal_def read_key_literal)

lemma newline_escape: "newline \<notin> set (map_escape c)"
  by (simp add: map_escape_def)

lemma newline_literal: "newline \<notin> set (py_str_literal s)"
  using newline_escape by (auto simp: py_str_literal_def)

lemma newline_decimal: "newline \<notin> set (decimal n)"
  by (auto simp: decimal_def digit_char_def split: if_splits)

lemma newline_join: "newline \<notin> set sep \<Longrightarrow> (\<And>x. x \<in> set xs \<Longrightarrow> newline \<notin> set x) \<Longrightarrow> newline \<notin> set (join sep xs)"
  using set_join [of sep xs] by blast

lemmas newline_free = newline_literal newline_decimal newline_join

lemma newline_segment: "newline \<notin> set (segment_text s)"
  by (auto simp: segment_text_def u32_text_def newline_free split: column_origin.split)

lemma newline_table_line: "newline \<notin> set (table_line i e)"
proof -
  have "newline \<notin> set (join (lit '', '') (map (\<lambda>m. case m of None \<Rightarrow> lit ''None'' | Some n \<Rightarrow> u32_text n) (line_map e)))"
    by (rule newline_join) (auto simp: u32_text_def newline_decimal split: option.splits)
  moreover have "newline \<notin> set (join (lit '', '') (map segment_text line))" for line
    by (rule newline_join) (auto simp: newline_segment)
  then have "newline \<notin> set (join (lit '', '') (map (\<lambda>line. lit ''['' @ join (lit '', '') (map segment_text line) @ lit '']'') (columns e)))"
    by (intro newline_join) auto
  ultimately show ?thesis
    by (simp add: table_line_def sourcemap_line_def digests_line_def columns_line_def newline_literal)
qed

lemma newline_map_lines: "l \<in> set (map_lines es tree own) \<Longrightarrow> newline \<notin> set l"
  using newline_table_line [of 0] newline_table_line [of 1] newline_table_line [of 2]
  by (auto simp: map_lines_def map_header_def digests_header_def columns_header_def launcher_lines_def by_code_lines_def
      table_line_def newline_literal split: option.splits)

lemma split_rendered: "split_inclusive (render_sourcemap_module es tree own) = map (\<lambda>l. l @ [newline]) (map_lines es tree own)"
  unfolding render_sourcemap_module_def by (rule split_inclusive_written) (rule newline_map_lines)

section \<open>Rewriting a rendered map\<close>

text \<open>A line of an entry is of that entry's key.\<close>

lemma table_line_form: "\<exists>rest. table_line i e = entry_prefix e @ rest"
  by (auto simp: table_line_def sourcemap_line_def digests_line_def columns_line_def entry_prefix_def)

lemma entry_prefix_line: "starts_with (entry_prefix e) (table_line i x @ [newline]) \<longleftrightarrow> py_path x = py_path e"
proof
  assume "starts_with (entry_prefix e) (table_line i x @ [newline])"
  then obtain t where "table_line i x @ [newline] = entry_prefix e @ t" by (rule starts_withE)
  moreover obtain u where "table_line i x = entry_prefix x @ u" using table_line_form by blast
  ultimately have "entry_key (entry_prefix x @ u @ [newline]) = entry_key (entry_prefix e @ t)" by simp
  then show "py_path x = py_path e" by (simp add: entry_prefix_def entry_key_literal [simplified])
next
  assume "py_path x = py_path e"
  moreover obtain u where "table_line i x = entry_prefix x @ u" using table_line_form by blast
  ultimately have "table_line i x @ [newline] = entry_prefix e @ u @ [newline]" by (simp add: entry_prefix_def)
  then show "starts_with (entry_prefix e) (table_line i x @ [newline])" by (simp only: starts_with_append)
qed

lemma table_at_entry: "table_at (table_line i x @ [newline]) table = table"
proof -
  obtain u where "table_line i x = entry_prefix x @ u" using table_line_form by blast
  then show ?thesis by (simp add: table_at_def entry_prefix_def table_headers_def upt_rec)
qed

definition replace_entry :: "traceback_entry \<Rightarrow> traceback_entry list \<Rightarrow> traceback_entry list" where
  "replace_entry e = map (\<lambda>x. if py_path x = py_path e then e else x)"

abbreviation with_newlines :: "ustr list \<Rightarrow> ustr list" where
  "with_newlines \<equiv> map (\<lambda>l. l @ [newline])"

text \<open>The entries of a table, and the lines outside of every table.\<close>

lemma rewrite_table:
  assumes "i < length replaced"
  shows "rewrite_lines e (Some i) replaced (with_newlines (map (table_line i) es) @ rest) =
     (let (out, r) = rewrite_lines e (Some i) (if py_path e \<in> py_path ` set es then replaced[i := True] else replaced) rest
      in (written_lines (map (table_line i) (replace_entry e es)) @ out, r))"
  using assms
proof (induction es arbitrary: replaced)
  case (Cons x es)
  then show ?case
    by (cases "py_path x = py_path e") (auto simp: table_at_entry entry_prefix_line replace_entry_def Let_def split_def)
qed (simp add: replace_entry_def)

definition outside_tables :: "ustr \<Rightarrow> bool" where
  "outside_tables l \<longleftrightarrow> (\<forall>h \<in> set table_headers. \<not> starts_with h (l @ [newline])) \<and> \<not> starts_with (lit ''    '') (l @ [newline])"

lemma table_at_outside: "outside_tables l \<Longrightarrow> table_at (l @ [newline]) table = None"
  by (auto simp: outside_tables_def table_at_def table_headers_def upt_rec)

lemma rewrite_outside:
  assumes "list_all outside_tables ls"
  shows "rewrite_lines e table replaced (with_newlines ls @ rest) =
    (let (out, r) = rewrite_lines e (if ls = [] then table else None) replaced rest in (written_lines ls @ out, r))"
  using assms
proof (induction ls arbitrary: table)
  case (Cons l ls)
  then show ?case by (cases ls) (auto simp: table_at_outside Let_def split_def)
qed simp


text \<open>Lines before a table, its header, and its entries.\<close>

lemma rewrite_section:
  assumes "list_all outside_tables ls" "i < 3" "length replaced = 3"
  shows "rewrite_lines e table replaced (with_newlines (ls @ table_headers ! i # map (table_line i) es) @ rest) =
     (let (out, r) = rewrite_lines e (Some i) (if py_path e \<in> py_path ` set es then replaced[i := True] else replaced) rest
      in (written_lines (ls @ table_headers ! i # map (table_line i) (replace_entry e es)) @ out, r))"
proof -
  have at: "table_at (table_headers ! i @ [newline]) t = Some i" for t
    using assms(2) by (auto simp: less_Suc_eq numeral_3_eq_3 table_at_def table_headers_def upt_rec)
  have other: "\<not> starts_with (entry_prefix e) (table_headers ! i @ [newline])"
    using assms(2) by (auto simp: less_Suc_eq numeral_3_eq_3 table_headers_def entry_prefix_def)
  have "rewrite_lines e t replaced (with_newlines (table_headers ! i # map (table_line i) es) @ rest) =
     (let (out, r) = rewrite_lines e (Some i) (if py_path e \<in> py_path ` set es then replaced[i := True] else replaced) rest
      in (written_lines (table_headers ! i # map (table_line i) (replace_entry e es)) @ out, r))" for t
    using rewrite_table [of i replaced e es rest] assms(2,3) at other by (simp add: Let_def split_def)
  then show ?thesis
    using rewrite_outside [OF assms(1), of e table replaced "with_newlines (table_headers ! i # map (table_line i) es) @ rest"]
    by (simp add: Let_def split_def)
qed

text \<open>After the last table nothing is an entry, spaced or not.\<close>

lemma rewrite_after:
  assumes "\<And>l. l \<in> set ls \<Longrightarrow> outside_tables l \<or> starts_with (lit ''    '') l"
  shows "rewrite_lines e None replaced (with_newlines ls) = (written_lines ls, replaced)"
  using assms
proof (induction ls)
  case (Cons l ls)
  have "table_at (l @ [newline]) None = None"
  proof (cases "outside_tables l")
    case True
    then show ?thesis by (rule table_at_outside)
  next
    case False
    with Cons.prems have "starts_with (lit ''    '') l" by auto
    then obtain t where "l = lit ''    '' @ t" by (rule starts_withE)
    then show ?thesis by (simp add: table_at_def table_headers_def upt_rec)
  qed
  with Cons show ?case by simp
qed simp

lemma map_lines_sections:
  "map_lines es tree own =
     (butlast map_header @ table_headers ! 0 # map (table_line 0) es)
     @ (([lit ''}'', []] @ butlast digests_header) @ table_headers ! 1 # map (table_line 1) es)
     @ (([lit ''}''] @ butlast columns_header) @ table_headers ! 2 # map (table_line 2) es)
     @ [lit ''}''] @ launcher_lines tree own @ by_code_lines tree own"
  by (simp add: map_lines_def map_header_def digests_header_def columns_header_def table_headers_def table_line_def cong: map_cong)

lemma rewrite_rendered:
  "rewrite_lines e None [False, False, False] (split_inclusive (render_sourcemap_module es tree own)) =
     (render_sourcemap_module (replace_entry e es) tree own, replicate 3 (py_path e \<in> py_path ` set es))"
proof -
  have outside: "list_all outside_tables (butlast map_header)" "list_all outside_tables ([lit ''}'', []] @ butlast digests_header)"
    "list_all outside_tables ([lit ''}''] @ butlast columns_header)"
    by (simp_all add: outside_tables_def table_headers_def map_header_def digests_header_def columns_header_def)
  let ?after = "launcher_lines tree own @ by_code_lines tree own"
  have after: "rewrite_lines e (Some 2) r (with_newlines (lit ''}'' # ?after)) = (written_lines (lit ''}'' # ?after), r)" for r
  proof -
    have "rewrite_lines e None r (with_newlines ?after) = (written_lines ?after, r)"
      by (rule rewrite_after)
        (auto simp: launcher_lines_def by_code_lines_def outside_tables_def table_headers_def)
    moreover have "table_at (lit ''}'' @ [newline]) (Some 2) = None" by (simp add: table_at_def table_headers_def upt_rec)
    ultimately show ?thesis by (simp add: Let_def split_def)
  qed
  have "replicate 3 (py_path e \<in> py_path ` set es) = (if py_path e \<in> py_path ` set es then [True, True, True] else [False, False, False])"
    by (simp add: numeral_3_eq_3)
  then show ?thesis
    unfolding split_rendered map_lines_sections map_append append_assoc
    using rewrite_section [OF outside(1), of 0] rewrite_section [OF outside(2), of 1] rewrite_section [OF outside(3), of 2] after
    by (simp add: render_sourcemap_module_def map_lines_sections Let_def split_def)
qed


section \<open>Finding a rendered entry\<close>

lemma last_table_line: "last (table_line i e) = of_char CHR '',''" "table_line i e \<noteq> []"
  by (simp_all add: table_line_def sourcemap_line_def digests_line_def columns_line_def)

lemma chomp_line: "l = [] \<or> last l \<noteq> 13 \<Longrightarrow> chomp (l @ [newline]) = l"
  by (auto simp: chomp_def Let_def)

lemma entry_key_line: "entry_key (table_line i e) = Some (py_path e)"
proof -
  obtain u where "table_line i e = entry_prefix e @ u" using table_line_form by blast
  then show ?thesis by (simp add: entry_prefix_def entry_key_literal [simplified])
qed

lemma table_line_no_header: "\<not> starts_with (lit ''DIGESTS = {'') (table_line i e)"
  by (simp add: table_line_def sourcemap_line_def digests_line_def columns_line_def)

lemma last_literal: "last (py_str_literal s) = quote" "py_str_literal s \<noteq> []"
  by (simp_all add: py_str_literal_def)

lemma lines_of_rendered: "text_lines (render_sourcemap_module es tree own) = map_lines es tree own"
proof -
  have "l = [] \<or> last l \<noteq> 13" if "l \<in> set (map_lines es tree own)" for l
    using that last_table_line [of 0] last_table_line [of 1] last_table_line [of 2]
    by (auto simp: map_lines_def map_header_def digests_header_def columns_header_def launcher_lines_def by_code_lines_def
        table_line_def last_literal split: option.splits)
  then have "map (chomp \<circ> (\<lambda>l. l @ [newline])) (map_lines es tree own) = map_lines es tree own"
    by (intro map_idI) (simp add: chomp_line)
  then show ?thesis by (simp only: text_lines_def split_rendered map_map)
qed

lemma takeWhile_until: "(\<And>x. x \<in> set xs \<Longrightarrow> P x) \<Longrightarrow> \<not> P y \<Longrightarrow> takeWhile P (xs @ y # ys) = xs"
  by (simp add: takeWhile_append2)

lemma key_of_rendered:
  "sourcemap_key_for (render_sourcemap_module es tree own) relative =
     map_option py_path (List.find (\<lambda>e. path_ends_with (py_path e) relative) es)"
proof -
  let ?before = "\<lambda>line. \<not> starts_with (lit ''DIGESTS = {'') line"
  let ?first = "map_header @ map (table_line 0) es @ [lit ''}'', []] @ butlast digests_header"
  have "map_lines es tree own = ?first @ lit ''DIGESTS = {'' #
      (map digests_line es @ [lit ''}''] @ columns_header @ map columns_line es @ [lit ''}''] @ launcher_lines tree own @ by_code_lines tree own)"
    by (simp add: map_lines_def digests_header_def table_line_def cong: map_cong)
  moreover have "?before l" if "l \<in> set ?first" for l
    using that table_line_no_header by (auto simp: map_header_def digests_header_def)
  ultimately have "takeWhile ?before (map_lines es tree own) = ?first"
    using takeWhile_until [of ?first ?before] by (simp only: starts_with_append [of _ "[]", simplified] not_not simp_thms)
  moreover have "filter_map entry_key (map (table_line 0) es) = map py_path es"
    by (induction es) (simp_all add: entry_key_line)
  moreover have "List.find P (map py_path es) = map_option py_path (List.find (\<lambda>e. P (py_path e)) es)" for P
    by (induction es) auto
  ultimately show ?thesis
    by (simp add: sourcemap_key_for_def lines_of_rendered) (simp add: map_header_def digests_header_def entry_key_def)
qed

section \<open>Samples\<close>

definition sample_entry :: "string \<Rightarrow> traceback_entry" where
  "sample_entry p = \<lparr>py_path = lit p, by_path = lit ''/src/a.by'', line_map = [None, Some 0], columns = [], by_source = [],
     by_digest = lit ''sha256:0'', py_digest = lit ''sha256:1''\<rparr>"

definition no_own_code :: own_code where
  "no_own_code = \<lparr>launcher = None, own_files = []\<rparr>"

section \<open>Properties\<close>

text \<open>
  C15. Replacing one entry in the text of a map gives, byte for byte, the map a build would have
  written with that entry in place of the ones of its key, and refuses exactly if no entry has the
  key: every other line is as it was, and the lines after the tables are never taken for entries.
\<close>

theorem rewriting_an_entry_is_rerendering:
  "rewrite_sourcemap_entry (render_sourcemap_module es tree own) e =
     (if py_path e \<in> py_path ` set es
      then Inr (render_sourcemap_module (map (\<lambda>x. if py_path x = py_path e then e else x) es) tree own)
      else Inl NotInTheMap)"
  by (simp add: rewrite_sourcemap_entry_def rewrite_rendered replace_entry_def numeral_3_eq_3)


text \<open>
  A module at the top of the tree is taken for one of the same name in a package, if the map lists
  that one first: the entry found ends with the name, and is not where the module sits in the tree.
\<close>

theorem a_top_level_module_is_mistaken_for_a_nested_one:
  "sourcemap_key_for (render_sourcemap_module [sample_entry ''/build/pkg/a.py'', sample_entry ''/build/a.py''] (lit ''/build'') no_own_code)
     [lit ''a.py''] = Some (lit ''/build/pkg/a.py'')
   \<and> join_path (lit ''/build'') [lit ''a.py''] = lit ''/build/a.py''"
proof
  have "path_ends_with (py_path (sample_entry ''/build/pkg/a.py'')) [lit ''a.py'']" by code_simp
  then show "sourcemap_key_for (render_sourcemap_module [sample_entry ''/build/pkg/a.py'', sample_entry ''/build/a.py''] (lit ''/build'') no_own_code)
     [lit ''a.py''] = Some (lit ''/build/pkg/a.py'')"
    by (simp add: key_of_rendered) (simp add: sample_entry_def)
  show "join_path (lit ''/build'') [lit ''a.py''] = lit ''/build/a.py''" by code_simp
qed

end
