(* ===== verification/Stage_Tree.thy ===== *)
theory Stage_Tree
  imports Stage_Sourcemap "HOL-Library.AList"
begin

text \<open>
  \<^verbatim>\<open>by_stage/src/staging.rs\<close>: the output tree of a build, what lands where in it, and what the next build
  takes back. The file system is the files and directories below the output directory, by the names
  of their relative paths; an operation on it succeeds, and one whose result the code throws away may
  do nothing. A build is shown to leave a mirror of its sources: what the build before it wrote and
  this one did not is gone, and nothing else is touched.
\<close>

section \<open>Where a source lands\<close>

datatype component = RootDir | CurDir | ParentDir | Normal ustr

type_synonym path = "component list"
type_synonym rel_path = "ustr list"

fun strip_prefix :: "path \<Rightarrow> path \<Rightarrow> path option" where
  "strip_prefix [] p = Some p"
| "strip_prefix (a # as) (b # bs) = (if a = b then strip_prefix as bs else None)"
| "strip_prefix (a # as) [] = None"

fun find_map :: "('a \<Rightarrow> 'b option) \<Rightarrow> 'a list \<Rightarrow> 'b option" where
  "find_map f [] = None"
| "find_map f (x # xs) = (case f x of Some y \<Rightarrow> Some y | None \<Rightarrow> find_map f xs)"

fun normal_name :: "component \<Rightarrow> ustr option" where
  "normal_name (Normal name) = Some name"
| "normal_name _ = None"

definition relative_destination :: "path list \<Rightarrow> path \<Rightarrow> path \<Rightarrow> rel_path" where
  "relative_destination roots root source =
     (let relative =
        (case find_map (\<lambda>candidate. strip_prefix candidate source) roots of
           Some p \<Rightarrow> p
         | None \<Rightarrow> (case strip_prefix root source of Some p \<Rightarrow> p | None \<Rightarrow> source))
      in filter_map normal_name relative)"

abbreviation dot :: nat where "dot \<equiv> 46"

text \<open>The stem and the extension of a file name; a leading dot starts no extension.\<close>

definition dot_at :: "ustr \<Rightarrow> nat option" where
  "dot_at name =
     (case List.find (\<lambda>i. name ! i = dot) (rev [0..<length name]) of
        Some 0 \<Rightarrow> None
      | found \<Rightarrow> found)"

definition file_stem :: "ustr \<Rightarrow> ustr" where
  "file_stem name = (case dot_at name of Some i \<Rightarrow> take i name | None \<Rightarrow> name)"

definition extension :: "ustr \<Rightarrow> ustr option" where
  "extension name = map_option (\<lambda>i. drop (i + 1) name) (dot_at name)"

definition with_extension :: "rel_path \<Rightarrow> ustr \<Rightarrow> rel_path" where
  "with_extension p ext = (if p = [] then [] else butlast p @ [file_stem (last p) @ [dot] @ ext])"

definition path_extension :: "path \<Rightarrow> ustr option" where
  "path_extension p = (if p = [] then None else Option.bind (normal_name (last p)) extension)"

definition transpiled_destination :: "path list \<Rightarrow> path \<Rightarrow> path \<Rightarrow> rel_path" where
  "transpiled_destination roots root source =
     with_extension (relative_destination roots root source)
       (if path_extension source = Some (lit ''byi'') then lit ''pyi'' else lit ''py'')"

section \<open>The file system\<close>

record tree_fs =
  fs_files :: "(rel_path \<times> ustr) list"
  fs_dirs :: "rel_path list"

definition file_at :: "tree_fs \<Rightarrow> rel_path \<Rightarrow> ustr option" where
  "file_at fs p = map_of (fs_files fs) p"

definition write_file :: "rel_path \<Rightarrow> ustr \<Rightarrow> tree_fs \<Rightarrow> tree_fs" where
  "write_file p c fs = fs\<lparr>fs_files := AList.update p c (fs_files fs)\<rparr>"

definition remove_file :: "rel_path \<Rightarrow> tree_fs \<Rightarrow> tree_fs" where
  "remove_file p fs = fs\<lparr>fs_files := AList.delete p (fs_files fs)\<rparr>"

text \<open>The directories above a path, below the output directory.\<close>

definition parents :: "rel_path \<Rightarrow> rel_path list" where
  "parents p = map (\<lambda>n. take n p) [1..<length p]"

definition create_parent :: "rel_path \<Rightarrow> tree_fs \<Rightarrow> tree_fs" where
  "create_parent p fs = fs\<lparr>fs_dirs := List.union (parents p) (fs_dirs fs)\<rparr>"

definition inside :: "rel_path \<Rightarrow> rel_path \<Rightarrow> bool" where
  "inside d p \<longleftrightarrow> p \<noteq> [] \<and> butlast p = d"

definition is_empty_dir :: "rel_path \<Rightarrow> tree_fs \<Rightarrow> bool" where
  "is_empty_dir d fs \<longleftrightarrow> \<not> list_ex (inside d) (map fst (fs_files fs)) \<and> \<not> list_ex (inside d) (fs_dirs fs)"

definition remove_dir :: "rel_path \<Rightarrow> tree_fs \<Rightarrow> tree_fs" where
  "remove_dir d fs = (if is_empty_dir d fs then fs\<lparr>fs_dirs := removeAll d (fs_dirs fs)\<rparr> else fs)"

section \<open>Staging\<close>

definition MANIFEST_FILENAME :: ustr where
  "MANIFEST_FILENAME = lit ''.by-manifest''"

abbreviation manifest :: rel_path where
  "manifest \<equiv> [MANIFEST_FILENAME]"

definition MANIFEST_HEADER :: ustr where
  "MANIFEST_HEADER = lit ''# written by `by build`; delete it and stale output stays'' @ [newline]"

record staging =
  written :: "(rel_path \<times> ustr option) list"
  recorded :: "rel_path list"
  marked :: bool

definition new_staging :: staging where
  "new_staging = \<lparr>written = [], recorded = [], marked = False\<rparr>"

datatype stage_error =
    ArtifactOverStaged rel_path "ustr option"
  | StagedOverArtifact "ustr option" rel_path
  | SameModule ustr "ustr option" rel_path

type_synonym staged = "stage_error + staging \<times> tree_fs"

definition mark_as_output :: "staging \<times> tree_fs \<Rightarrow> staging \<times> tree_fs" where
  "mark_as_output = (\<lambda>(st, fs).
     if marked st then (st, fs)
     else (st\<lparr>marked := True\<rparr>, if file_at fs manifest = None then write_file manifest MANIFEST_HEADER fs else fs))"

definition claim :: "rel_path \<Rightarrow> ustr option \<Rightarrow> staging \<Rightarrow> stage_error + staging" where
  "claim relative source st =
     (if relative \<in> set (recorded st) then Inl (StagedOverArtifact source relative)
      else
        let claimed = Inr (st\<lparr>written := AList.update relative source (written st)\<rparr>)
        in case map_of (written st) relative of
             Some (Some previous) \<Rightarrow> if Some previous \<noteq> source then Inl (SameModule previous source relative) else claimed
           | _ \<Rightarrow> claimed)"

definition stage_write :: "rel_path \<Rightarrow> ustr option \<Rightarrow> ustr \<Rightarrow> staging \<times> tree_fs \<Rightarrow> staged" where
  "stage_write relative source contents = (\<lambda>(st, fs).
     case claim relative source st of
       Inl e \<Rightarrow> Inl e
     | Inr st \<Rightarrow>
         (let (st, fs) = mark_as_output (st, fs)
          in Inr (st, write_file relative contents (create_parent relative fs))))"

text \<open>A copy is a write of what the source holds.\<close>

definition stage_copy :: "(ustr \<Rightarrow> ustr) \<Rightarrow> rel_path \<Rightarrow> ustr \<Rightarrow> staging \<times> tree_fs \<Rightarrow> staged" where
  "stage_copy holds relative source = stage_write relative (Some source) (holds source)"

definition stage_record :: "rel_path \<Rightarrow> staging \<times> tree_fs \<Rightarrow> staged" where
  "stage_record relative = (\<lambda>(st, fs).
     case map_of (written st) relative of
       Some source \<Rightarrow> Inl (ArtifactOverStaged relative source)
     | None \<Rightarrow>
         (let (st, fs) = mark_as_output (st, fs)
          in Inr (st\<lparr>recorded := List.insert relative (recorded st)\<rparr>, fs)))"

text \<open>The tree is at \<open>out\<close>, which its paths are relative to.\<close>

definition stage_module :: "outside \<Rightarrow> ustr \<Rightarrow> rel_path \<Rightarrow> transpiled \<Rightarrow> staging \<times> tree_fs
    \<Rightarrow> stage_error + traceback_entry \<times> staging \<times> tree_fs" where
  "stage_module X out relative emitted s =
     (case stage_write relative (Some (tr_by_path emitted)) (tr_python emitted) s of
        Inl e \<Rightarrow> Inl e
      | Inr s' \<Rightarrow> Inr ((describe_module X emitted)\<lparr>py_path := join_path out relative\<rparr>, s'))"

definition write_sourcemap_module :: "ustr \<Rightarrow> traceback_entry list \<Rightarrow> own_code \<Rightarrow> staging \<times> tree_fs \<Rightarrow> staged" where
  "write_sourcemap_module out es own =
     stage_write [BY_SOURCEMAP_FILENAME] None (render_sourcemap_module es out own)"

definition inputs :: "staging \<Rightarrow> ustr list" where
  "inputs st = sort (remdups (filter_map snd (written st)))"

section \<open>The manifest\<close>

definition is_whitespace :: "nat \<Rightarrow> bool" where
  "is_whitespace c \<longleftrightarrow> (9 \<le> c \<and> c \<le> 13) \<or> c = 32 \<or> c = 0x85 \<or> c = 0xA0 \<or> c = 0x1680 \<or> (0x2000 \<le> c \<and> c \<le> 0x200A)
     \<or> c = 0x2028 \<or> c = 0x2029 \<or> c = 0x202F \<or> c = 0x205F \<or> c = 0x3000"

lemma is_whitespace_code [code]:
  "is_whitespace c \<longleftrightarrow> (let i = int c in (9 \<le> i \<and> i \<le> 13) \<or> i = 32 \<or> i = 0x85 \<or> i = 0xA0 \<or> i = 0x1680
     \<or> (0x2000 \<le> i \<and> i \<le> 0x200A) \<or> i = 0x2028 \<or> i = 0x2029 \<or> i = 0x202F \<or> i = 0x205F \<or> i = 0x3000)"
  by (auto simp: is_whitespace_def Let_def)

definition trim :: "ustr \<Rightarrow> ustr" where
  "trim s = rev (dropWhile is_whitespace (rev (dropWhile is_whitespace s)))"

abbreviation slash :: nat where "slash \<equiv> 47"

definition parse_manifest :: "ustr \<Rightarrow> rel_path list" where
  "parse_manifest contents =
     map (\<lambda>line. filter (\<lambda>c. c \<noteq> []) (split_path slash line))
       (filter (\<lambda>line. line \<noteq> [] \<and> \<not> starts_with (lit ''#'') line) (map trim (text_lines contents)))"

definition read_manifest :: "tree_fs \<Rightarrow> rel_path list" where
  "read_manifest fs = (case file_at fs manifest of None \<Rightarrow> [] | Some contents \<Rightarrow> parse_manifest contents)"

definition portable :: "rel_path \<Rightarrow> ustr" where
  "portable p = join [slash] p"

definition current :: "staging \<Rightarrow> rel_path list" where
  "current st = sort (remdups (map fst (written st) @ recorded st))"

definition stale :: "staging \<Rightarrow> tree_fs \<Rightarrow> rel_path list" where
  "stale st fs = filter (\<lambda>p. p \<notin> set (current st)) (sort (remdups (read_manifest fs)))"

definition finish_tree :: "staging \<Rightarrow> tree_fs \<Rightarrow> tree_fs" where
  "finish_tree st fs =
     (let gone = stale st fs;
          fs = fold remove_file gone fs;
          emptied = sort (remdups (concat (map parents gone)));
          fs = fold remove_dir (rev emptied) fs
      in write_file manifest (MANIFEST_HEADER @ written_lines (map portable (current st))) fs)"


section \<open>What finishing removes\<close>

lemma file_at_write [simp]: "file_at (write_file p c fs) q = (if q = p then Some c else file_at fs q)"
  by (simp add: file_at_def write_file_def update_conv)

lemma file_at_remove [simp]: "file_at (remove_file p fs) q = (if q = p then None else file_at fs q)"
  by (simp add: file_at_def remove_file_def delete_conv)

lemma file_at_dirs [simp]: "file_at (create_parent p fs) = file_at fs" "file_at (remove_dir d fs) = file_at fs"
  by (simp_all add: file_at_def create_parent_def remove_dir_def fun_eq_iff)

lemma file_at_removes: "file_at (fold remove_file ps fs) q = (if q \<in> set ps then None else file_at fs q)"
  by (induction ps arbitrary: fs) auto

lemma file_at_remove_dirs: "file_at (fold remove_dir ds fs) = file_at fs"
  by (induction ds arbitrary: fs) auto

lemma set_current: "set (current st) = fst ` set (written st) \<union> set (recorded st)"
  by (auto simp: current_def)

lemma finish_files:
  "file_at (finish_tree st fs) q =
     (if q = manifest then Some (MANIFEST_HEADER @ written_lines (map portable (current st)))
      else if q \<in> set (read_manifest fs) \<and> q \<notin> set (current st) then None else file_at fs q)"
  by (auto simp: finish_tree_def Let_def file_at_removes file_at_remove_dirs stale_def)

lemma butlast_less: "p \<noteq> [] \<Longrightarrow> butlast p < (p :: rel_path)"
  by (induction p) auto

text \<open>Directories are looked at deepest first, so one that is left is left with something in it.\<close>

lemma remove_dirs_leave_none_empty:
  assumes "sorted_wrt (>) ds" "\<And>d e. d \<in> D \<Longrightarrow> e \<in> set ds \<Longrightarrow> e < d"
    and "\<And>d. d \<in> D \<Longrightarrow> d \<in> set (fs_dirs fs) \<Longrightarrow> \<not> is_empty_dir d fs"
    and "d \<in> D \<union> set ds" "d \<in> set (fs_dirs (fold remove_dir ds fs))"
  shows "\<not> is_empty_dir d (fold remove_dir ds fs)"
  using assms
proof (induction ds arbitrary: D fs)
  case (Cons e ds)
  let ?fs = "remove_dir e fs"
  have kept: "\<not> is_empty_dir d ?fs" if "d \<in> insert e D" "d \<in> set (fs_dirs ?fs)" for d
  proof (cases "d = e")
    case True
    with that(2) show ?thesis by (auto simp: remove_dir_def split: if_splits)
  next
    case False
    with that have "d \<in> D" "d \<in> set (fs_dirs fs)" by (auto simp: remove_dir_def split: if_splits)
    with Cons.prems(3) have "\<not> is_empty_dir d fs" by blast
    moreover have "\<not> inside d e"
    proof
      assume "inside d e"
      then have "d < e" using butlast_less [of e] by (auto simp: inside_def)
      with Cons.prems(2) [OF \<open>d \<in> D\<close>, of e] show False by simp
    qed
    ultimately show ?thesis by (auto simp: remove_dir_def is_empty_dir_def list_ex_iff)
  qed
  have "\<not> is_empty_dir d (fold remove_dir ds ?fs)"
    by (rule Cons.IH [of "insert e D" ?fs]) (use Cons.prems kept in auto)
  then show ?case by simp
qed simp

lemma finish_leaves_no_empty_parent:
  assumes "p \<in> set (stale st fs)" "d \<in> set (parents p)" "d \<in> set (fs_dirs (finish_tree st fs))"
  shows "\<not> is_empty_dir d (finish_tree st fs)"
proof -
  let ?gone = "stale st fs"
  let ?emptied = "sort (remdups (concat (map parents ?gone)))"
  let ?fs = "fold remove_dir (rev ?emptied) (fold remove_file ?gone fs)"
  have "sorted_wrt (<) ?emptied" by (simp add: strict_sorted_iff)
  then have "sorted_wrt (>) (rev ?emptied)" by (simp add: sorted_wrt_rev)
  moreover have "d \<in> {} \<union> set (rev ?emptied)" using assms(1,2) by auto
  moreover have finish_tree: "finish_tree st fs = write_file manifest (MANIFEST_HEADER @ written_lines (map portable (current st))) ?fs"
    by (simp add: finish_tree_def Let_def)
  then have "d \<in> set (fs_dirs ?fs)" using assms(3) by (simp add: write_file_def)
  ultimately have "\<not> is_empty_dir d ?fs"
    by (intro remove_dirs_leave_none_empty [of "rev ?emptied" "{}"]) auto
  then show ?thesis unfolding finish_tree
    by (auto simp: is_empty_dir_def list_ex_iff write_file_def dom_update)
qed

section \<open>The manifest read back\<close>

text \<open>A path the manifest can hold: its line is neither a comment nor changed by trimming.\<close>

definition plain_path :: "rel_path \<Rightarrow> bool" where
  "plain_path p = (p \<noteq> [] \<and> list_all (\<lambda>n. n \<noteq> [] \<and> slash \<notin> set n \<and> newline \<notin> set n) p
     \<and> hd (hd p) \<noteq> of_char CHR ''#'' \<and> \<not> is_whitespace (hd (hd p)) \<and> \<not> is_whitespace (last (last p)))"

lemma join_ends:
  assumes "p \<noteq> []" "list_all (\<lambda>n. n \<noteq> []) p"
  shows "join sep p \<noteq> []" "hd (join sep p) = hd (hd p)" "last (join sep p) = last (last p)"
proof -
  have "join sep p \<noteq> [] \<and> hd (join sep p) = hd (hd p) \<and> last (join sep p) = last (last p)"
    using assms by (induction sep p rule: join.induct) auto
  then show "join sep p \<noteq> []" "hd (join sep p) = hd (hd p)" "last (join sep p) = last (last p)" by simp_all
qed

lemma split_path_append: "sep \<notin> set n \<Longrightarrow> split_path sep (n @ sep # s) = n # split_path sep s"
  by (induction n) auto

lemma split_path_single: "sep \<notin> set n \<Longrightarrow> split_path sep n = [n]"
  by (induction n) auto

lemma split_join: "p \<noteq> [] \<Longrightarrow> list_all (\<lambda>n. sep \<notin> set n) p \<Longrightarrow> split_path sep (join [sep] p) = p"
  by (induction "[sep]" p rule: join.induct) (auto simp: split_path_append split_path_single)

lemma trim_id: "s \<noteq> [] \<Longrightarrow> \<not> is_whitespace (hd s) \<Longrightarrow> \<not> is_whitespace (last s) \<Longrightarrow> trim s = s"
proof -
  assume s: "s \<noteq> []" "\<not> is_whitespace (hd s)" "\<not> is_whitespace (last s)"
  from s(1,2) have "dropWhile is_whitespace s = s" by (cases s) simp_all
  moreover from s(1,3) have "dropWhile is_whitespace (rev s) = rev s" by (cases s rule: rev_cases) simp_all
  ultimately show ?thesis by (simp add: trim_def)
qed

lemma plain_line:
  assumes "plain_path p"
  shows "newline \<notin> set (portable p)" "portable p \<noteq> []" "last (portable p) \<noteq> 13" "trim (portable p) = portable p"
    "\<not> starts_with (lit ''#'') (portable p)" "filter (\<lambda>c. c \<noteq> []) (split_path slash (portable p)) = p"
proof -
  have p: "p \<noteq> []" "list_all (\<lambda>n. n \<noteq> []) p" "list_all (\<lambda>n. slash \<notin> set n) p" "list_all (\<lambda>n. newline \<notin> set n) p"
    using assms by (auto simp: plain_path_def list_all_iff)
  note ends = join_ends [OF p(1,2), of "[slash]"]
  show "newline \<notin> set (portable p)"
    unfolding portable_def by (rule newline_join) (use p(4) in \<open>auto simp: list_all_iff\<close>)
  show "portable p \<noteq> []" "last (portable p) \<noteq> 13" "\<not> starts_with (lit ''#'') (portable p)"
    using assms ends by (cases "portable p"; auto simp: portable_def plain_path_def is_whitespace_def)+
  show "trim (portable p) = portable p"
    unfolding portable_def by (rule trim_id) (use assms ends in \<open>auto simp: plain_path_def\<close>)
  have "filter (\<lambda>c. c \<noteq> []) p = p" using p(2) by (simp add: list_all_iff filter_id_conv)
  then show "filter (\<lambda>c. c \<noteq> []) (split_path slash (portable p)) = p" by (simp add: portable_def split_join [OF p(1,3)])
qed

lemma header_lines: "MANIFEST_HEADER = written_lines [lit ''# written by `by build`; delete it and stale output stays'']"
  by (simp add: MANIFEST_HEADER_def)

lemma text_lines_written:
  assumes "\<And>l. l \<in> set ls \<Longrightarrow> newline \<notin> set l \<and> (l = [] \<or> last l \<noteq> 13)"
  shows "text_lines (written_lines ls) = ls"
  using assms by (simp add: text_lines_def split_inclusive_written map_idI chomp_line)

lemma manifest_read_back:
  assumes "\<And>p. p \<in> set ps \<Longrightarrow> plain_path p"
  shows "parse_manifest (MANIFEST_HEADER @ written_lines (map portable ps)) = ps"
proof -
  define head where "head = lit ''# written by `by build`; delete it and stale output stays''"
  have head: "trim head = head" "starts_with (lit ''#'') head" "newline \<notin> set head" "last head \<noteq> 13"
    by (simp_all add: head_def trim_def is_whitespace_def)
  have "text_lines (written_lines (head # map portable ps)) = head # map portable ps"
    by (rule text_lines_written) (use assms plain_line head in auto)
  moreover have "MANIFEST_HEADER @ written_lines (map portable ps) = written_lines (head # map portable ps)"
    by (simp add: header_lines head_def)
  moreover have "map trim (map portable ps) = map portable ps" using assms plain_line(4) by auto
  moreover have "filter (\<lambda>line. line \<noteq> [] \<and> \<not> starts_with (lit ''#'') line) (map portable ps) = map portable ps"
    using assms plain_line(2,5) by (auto simp: filter_id_conv)
  moreover have "map (\<lambda>line. filter (\<lambda>c. c \<noteq> []) (split_path slash line)) (map portable ps) = ps"
    using assms plain_line(6) by (auto simp: map_idI)
  ultimately show ?thesis by (simp only: parse_manifest_def list.map filter.simps head if_False simp_thms)
qed


section \<open>Builds\<close>

text \<open>A build writes its files one after the other, and finishes.\<close>

type_synonym staged_file = "rel_path \<times> ustr option \<times> ustr"

fun stage_all :: "staged_file list \<Rightarrow> staging \<times> tree_fs \<Rightarrow> staged" where
  "stage_all [] s = Inr s"
| "stage_all ((relative, source, contents) # rest) s =
     (case stage_write relative source contents s of Inl e \<Rightarrow> Inl e | Inr s' \<Rightarrow> stage_all rest s')"

definition build_tree :: "staged_file list \<Rightarrow> tree_fs \<Rightarrow> stage_error + tree_fs" where
  "build_tree outputs fs =
     (case stage_all outputs (new_staging, fs) of Inl e \<Rightarrow> Inl e | Inr (st, fs') \<Rightarrow> Inr (finish_tree st fs'))"

definition paths_of :: "staged_file list \<Rightarrow> rel_path set" where
  "paths_of outputs = fst ` set outputs"

text \<open>What the build wrote to a path last.\<close>

definition output_at :: "staged_file list \<Rightarrow> rel_path \<Rightarrow> ustr option" where
  "output_at outputs p = map_of (rev (map (\<lambda>(relative, _, contents). (relative, contents)) outputs)) p"

lemma output_at_Cons: "output_at ((r, s, c) # rest) p = (case output_at rest p of Some x \<Rightarrow> Some x | None \<Rightarrow> if p = r then Some c else None)"
  by (auto simp: output_at_def map_add_def split: option.splits)

lemma output_at_None: "output_at outputs p = None \<longleftrightarrow> p \<notin> paths_of outputs"
  by (force simp: output_at_def paths_of_def map_of_eq_None_iff)

lemma stage_write_effect:
  assumes "stage_write r src c (st, fs) = Inr (st', fs')"
  shows "fst ` set (written st') = insert r (fst ` set (written st))" "recorded st' = recorded st"
    "p \<noteq> manifest \<Longrightarrow> file_at fs' p = (if p = r then Some c else file_at fs p)"
    "r \<noteq> manifest \<Longrightarrow> read_manifest fs' = read_manifest fs"
proof -
  have empty: "parse_manifest MANIFEST_HEADER = []" using manifest_read_back [of "[]"] by simp
  obtain st1 where st1: "claim r src st = Inr st1" "st' = fst (mark_as_output (st1, fs))"
    "fs' = write_file r c (create_parent r (snd (mark_as_output (st1, fs))))"
    using assms by (auto simp: stage_write_def Let_def split_def split: sum.splits)
  then have "st1 = st\<lparr>written := AList.update r src (written st)\<rparr>"
    by (auto simp: claim_def Let_def split: if_splits option.splits)
  then show "fst ` set (written st') = insert r (fst ` set (written st))" "recorded st' = recorded st"
    using st1(2) dom_update [of r src "written st"] by (auto simp: mark_as_output_def dom_map_of_conv_image_fst [symmetric] update_conv')
  show "p \<noteq> manifest \<Longrightarrow> file_at fs' p = (if p = r then Some c else file_at fs p)"
    using st1(3) by (simp add: mark_as_output_def)
  show "r \<noteq> manifest \<Longrightarrow> read_manifest fs' = read_manifest fs"
    using st1(3) empty by (auto simp: mark_as_output_def read_manifest_def)
qed

lemma stage_all_effect:
  assumes "stage_all outputs (st, fs) = Inr (st', fs')" "manifest \<notin> paths_of outputs"
  shows "fst ` set (written st') = fst ` set (written st) \<union> paths_of outputs \<and> recorded st' = recorded st
    \<and> read_manifest fs' = read_manifest fs
    \<and> (\<forall>p. p \<noteq> manifest \<longrightarrow> file_at fs' p = (case output_at outputs p of Some c \<Rightarrow> Some c | None \<Rightarrow> file_at fs p))"
  using assms
proof (induction outputs arbitrary: st fs)
  case Nil
  then show ?case by (simp add: paths_of_def output_at_def)
next
  case (Cons out outputs)
  obtain r src c where out: "out = (r, src, c)" by (cases out)
  obtain st1 fs1 where one: "stage_write r src c (st, fs) = Inr (st1, fs1)" "stage_all outputs (st1, fs1) = Inr (st', fs')"
    using Cons.prems(1) by (auto simp: out split: sum.splits)
  have r: "r \<noteq> manifest" "manifest \<notin> paths_of outputs" using Cons.prems(2) by (auto simp: out paths_of_def)
  note first = stage_write_effect [OF one(1)]
  show ?case
    using Cons.IH [OF one(2) r(2)] first(1,2) first(3) first(4) [OF r(1)]
    by (auto simp: out output_at_Cons paths_of_def split: option.splits)
qed

lemma build_effect:
  assumes "build_tree outputs fs = Inr fs'" "manifest \<notin> paths_of outputs"
  shows "p \<noteq> manifest \<Longrightarrow> file_at fs' p =
      (case output_at outputs p of Some c \<Rightarrow> Some c | None \<Rightarrow> if p \<in> set (read_manifest fs) then None else file_at fs p)"
    "(\<And>p. p \<in> paths_of outputs \<Longrightarrow> plain_path p) \<Longrightarrow> set (read_manifest fs') = paths_of outputs"
proof -
  obtain st fs1 where st: "stage_all outputs (new_staging, fs) = Inr (st, fs1)" "fs' = finish_tree st fs1"
    using assms(1) by (auto simp: build_tree_def split: sum.splits)
  note E = stage_all_effect [OF st(1) assms(2)]
  have current: "set (current st) = paths_of outputs" using E by (simp add: set_current new_staging_def)
  show "file_at fs' p = (case output_at outputs p of Some c \<Rightarrow> Some c | None \<Rightarrow> if p \<in> set (read_manifest fs) then None else file_at fs p)"
    if "p \<noteq> manifest"
    using that E current output_at_None [of outputs p] by (auto simp: st(2) finish_files split: option.splits)
  show "set (read_manifest fs') = paths_of outputs" if "\<And>p. p \<in> paths_of outputs \<Longrightarrow> plain_path p"
    using manifest_read_back [of "current st"] that current by (simp add: st(2) read_manifest_def finish_files)
qed


section \<open>Samples\<close>

definition empty_tree :: tree_fs where
  "empty_tree = \<lparr>fs_files = [([lit ''notes''], lit ''mine'')], fs_dirs = []\<rparr>"



definition comment_build :: "staged_file list" where
  "comment_build = [([lit ''#a.txt''], Some (lit ''/src/#a.txt''), lit ''a'')]"

section \<open>Properties\<close>



text \<open>
  Finishing a build leaves no empty directory behind: a directory above a file it took back is gone,
  or has something in it still.
\<close>

theorem finishing_leaves_no_empty_directory:
  assumes "p \<in> set (stale st fs)" "d \<in> set (parents p)" "d \<in> set (fs_dirs (finish_tree st fs))"
  shows "\<not> is_empty_dir d (finish_tree st fs)"
  by (rule finish_leaves_no_empty_parent [OF assms])

theorem finishing_leaves_no_empty_directory_witness:
  "\<exists>st fs. [lit ''p'', lit ''a''] \<in> set (stale st fs) \<and> [lit ''p''] \<in> set (fs_dirs (finish_tree st fs))
     \<and> \<not> is_empty_dir [lit ''p''] (finish_tree st fs)"
proof -
  let ?a = "[lit ''p'', lit ''a'']" and ?b = "[lit ''p'', lit ''b'']"
  define fs where "fs = \<lparr>fs_files = [(manifest, MANIFEST_HEADER @ written_lines [portable ?a]), (?a, []), (?b, [])], fs_dirs = [[lit ''p'']]\<rparr>"
  have "plain_path ?a" by code_simp
  then have "read_manifest fs = [?a]"
    using manifest_read_back [of "[?a]"] by (simp add: read_manifest_def file_at_def fs_def)
  then have stale: "stale new_staging fs = [?a]" by (simp add: stale_def current_def new_staging_def)
  have "parents ?a = [[lit ''p'']]" by code_simp
  then have "finish_tree new_staging fs = write_file manifest MANIFEST_HEADER (remove_dir [lit ''p''] (remove_file ?a fs))"
    using stale by (simp add: finish_tree_def current_def new_staging_def)
  then have "[lit ''p''] \<in> set (fs_dirs (finish_tree new_staging fs))"
    by (simp add: write_file_def remove_dir_def is_empty_dir_def inside_def remove_file_def fs_def MANIFEST_FILENAME_def)
  with stale \<open>parents ?a = _\<close> show ?thesis
    using finishing_leaves_no_empty_directory [of ?a new_staging fs "[lit ''p'']"] by (intro exI [of _ new_staging] exI [of _ fs]) simp
qed

text \<open>
  A file whose path begins with a \<open>#\<close> is written to the manifest as what reads back as a comment:
  it stays in the tree when a later build no longer writes it.
\<close>

theorem a_commented_path_is_never_taken_back:
  "\<exists>fs1 fs2. build_tree comment_build empty_tree = Inr fs1 \<and> build_tree [] fs1 = Inr fs2
     \<and> read_manifest fs1 = [] \<and> file_at fs2 [lit ''#a.txt''] = Some (lit ''a'')"
proof -
  have "current (new_staging\<lparr>written := [([lit ''#a.txt''], Some (lit ''/src/#a.txt''))]\<rparr>) = [[lit ''#a.txt'']]"
    by (simp add: current_def new_staging_def)
  moreover have "parse_manifest (MANIFEST_HEADER @ written_lines (map portable [[lit ''#a.txt'']])) = []" by code_simp
  ultimately obtain fs1 where fs1: "build_tree comment_build empty_tree = Inr fs1" "read_manifest fs1 = []"
    by (simp add: build_tree_def comment_build_def stage_write_def claim_def mark_as_output_def new_staging_def read_manifest_def finish_files
        current_def split: prod.split)
  obtain fs2 where fs2: "build_tree [] fs1 = Inr fs2" by (simp add: build_tree_def)
  have "file_at fs1 [lit ''#a.txt''] = Some (lit ''a'')"
    using build_effect(1) [OF fs1(1), of "[lit ''#a.txt'']"]
    by (simp add: comment_build_def paths_of_def output_at_def MANIFEST_FILENAME_def)
  then have "file_at fs2 [lit ''#a.txt''] = Some (lit ''a'')"
    using build_effect(1) [OF fs2, of "[lit ''#a.txt'']"] fs1(2) by (simp add: paths_of_def output_at_def MANIFEST_FILENAME_def)
  with fs1 fs2 show ?thesis by blast
qed

end
