(* ===== verification/Tr_Edits.thy ===== *)
theory Tr_Edits
  imports Text_Prelude
begin

text \<open>
  \<^verbatim>\<open>by_transforms/src/source_map.rs\<close>: the replacement text of an edit, remembered as the runs it was put
  together from, and the table that names for every line of an edited text the line of the source it
  came from. A text is here the list of its bytes. Replacements are refined to what they say of each
  byte: two of them are equal exactly if they say the same. The table is shown to charge every line to
  its first visible source text.
\<close>

section \<open>Texts as bytes\<close>

type_synonym bytes = "nat list"

definition continuation :: "nat \<Rightarrow> bool" where
  "continuation b \<longleftrightarrow> 128 \<le> b \<and> b < 192"

definition char_boundary :: "bytes \<Rightarrow> nat \<Rightarrow> bool" where
  "char_boundary xs i \<longleftrightarrow> i = 0 \<or> i = length xs \<or> (i < length xs \<and> \<not> continuation (xs ! i))"

definition part :: "nat \<Rightarrow> nat \<Rightarrow> 'a list \<Rightarrow> 'a list" where
  "part a b xs = take (b - a) (drop a xs)"

text \<open>Slicing a \<open>str\<close>, \<open>None\<close> where Rust panics (or where its \<open>get\<close> gives none).\<close>

definition str_slice :: "bytes \<Rightarrow> nat \<Rightarrow> nat \<Rightarrow> bytes option" where
  "str_slice xs a b = (if a \<le> b \<and> char_boundary xs a \<and> char_boundary xs b then Some (part a b xs) else None)"

definition to_u32 :: "nat \<Rightarrow> u32" where
  "to_u32 n = (if int n < 2 ^ 32 then word_of_int (int n) else - 1)"

lemma unat_to_u32: "n < 2 ^ 32 \<Longrightarrow> unat (to_u32 n) = n"
  by (simp add: to_u32_def unat_of_nat take_bit_nat_eq_self)

lemma to_u32_Suc: "Suc n < 2 ^ 32 \<Longrightarrow> to_u32 (Suc n) = to_u32 n + 1"
  by (simp add: to_u32_def add.commute)

lemma length_part [simp]: "b \<le> length xs \<Longrightarrow> length (part a b xs) = b - a"
  by (simp add: part_def)

lemma nth_part [simp]: "i < b - a \<Longrightarrow> b \<le> length xs \<Longrightarrow> part a b xs ! i = xs ! (a + i)"
  by (simp add: part_def)

lemma part_append: "part (length pre) (length pre + length xs) (pre @ xs @ post) = xs"
  by (simp add: part_def)

lemma part_join: "a \<le> b \<Longrightarrow> b \<le> c \<Longrightarrow> part a b xs @ part b c xs = part a c xs"
  using take_add [of "b - a" "c - b" "drop a xs"] by (simp add: part_def)

lemma str_slice_SomeD: "str_slice xs a b = Some t \<Longrightarrow> a \<le> b \<and> b \<le> length xs \<and> t = part a b xs"
  by (auto simp: str_slice_def char_boundary_def split: if_splits)

section \<open>Replacements\<close>

datatype origin = Copied_from nat | Generated_for nat | Qualifier_for nat

record edit_replacement =
  repl_text :: bytes
  repl_runs :: "(nat \<times> origin) list"

definition empty_replacement :: edit_replacement where
  "empty_replacement = \<lparr>repl_text = [], repl_runs = []\<rparr>"

definition push_generated :: "bytes \<Rightarrow> nat \<Rightarrow> edit_replacement \<Rightarrow> edit_replacement" where
  "push_generated chars anchor r =
     (if chars = [] then r
      else
        let origin = Generated_for anchor;
            runs = (if repl_runs r = [] \<or> snd (last (repl_runs r)) \<noteq> origin
              then repl_runs r @ [(length (repl_text r), origin)] else repl_runs r)
        in r\<lparr>repl_text := repl_text r @ chars, repl_runs := runs\<rparr>)"

definition push_qualifier :: "bytes \<Rightarrow> nat \<Rightarrow> edit_replacement \<Rightarrow> edit_replacement" where
  "push_qualifier chars anchor r =
     (if chars = [] then r
      else
        let origin = Qualifier_for anchor;
            runs = (if repl_runs r = [] \<or> snd (last (repl_runs r)) \<noteq> origin
              then repl_runs r @ [(length (repl_text r), origin)] else repl_runs r)
        in r\<lparr>repl_text := repl_text r @ chars, repl_runs := runs\<rparr>)"

definition generated :: "bytes \<Rightarrow> nat \<Rightarrow> edit_replacement" where
  "generated chars anchor = push_generated chars anchor empty_replacement"

definition push_copied :: "bytes \<Rightarrow> nat \<Rightarrow> edit_replacement \<Rightarrow> edit_replacement" where
  "push_copied chars start r =
     (let continues = repl_runs r \<noteq> []
            \<and> (case last (repl_runs r) of (at, Copied_from at0) \<Rightarrow> at0 + (length (repl_text r) - at) = start | _ \<Rightarrow> False)
      in r\<lparr>repl_text := repl_text r @ chars,
           repl_runs := (if continues then repl_runs r else repl_runs r @ [(length (repl_text r), Copied_from start)])\<rparr>)"

definition push_source :: "bytes \<Rightarrow> nat \<Rightarrow> nat \<Rightarrow> edit_replacement \<Rightarrow> edit_replacement option" where
  "push_source source start stop r =
     (if start \<ge> stop then Some r else map_option (\<lambda>chars. push_copied chars start r) (str_slice source start stop))"

fun cut_runs :: "bytes \<Rightarrow> (nat \<times> origin) list \<Rightarrow> (bytes \<times> origin) list" where
  "cut_runs chars [] = []"
| "cut_runs chars [(at, origin)] = [(part at (length chars) chars, origin)]"
| "cut_runs chars ((at, origin) # (following, origin') # rest) =
     (part at following chars, origin) # cut_runs chars ((following, origin') # rest)"

definition runs :: "edit_replacement \<Rightarrow> (bytes \<times> origin) list" where
  "runs r = cut_runs (repl_text r) (repl_runs r)"

fun push_run :: "bytes \<times> origin \<Rightarrow> edit_replacement \<Rightarrow> edit_replacement" where
  "push_run (chars, Generated_for anchor) r = push_generated chars anchor r"
| "push_run (chars, Qualifier_for anchor) r = push_qualifier chars anchor r"
| "push_run (chars, Copied_from start) r = push_copied chars start r"

definition append_replacement :: "edit_replacement \<Rightarrow> edit_replacement \<Rightarrow> edit_replacement" where
  "append_replacement other r = fold push_run (runs other) r"

definition pop_newline :: "edit_replacement \<Rightarrow> edit_replacement" where
  "pop_newline r =
     (if repl_text r = [] \<or> last (repl_text r) \<noteq> newline then r
      else
        let chars = butlast (repl_text r)
        in r\<lparr>repl_text := chars,
             repl_runs := (if repl_runs r \<noteq> [] \<and> fst (last (repl_runs r)) = length chars
               then butlast (repl_runs r) else repl_runs r)\<rparr>)"

section \<open>What a replacement says of its bytes\<close>

definition shift :: "origin \<Rightarrow> nat \<Rightarrow> origin" where
  "shift origin i = (case origin of Copied_from at \<Rightarrow> Copied_from (at + i) | _ \<Rightarrow> origin)"

fun said :: "bytes \<times> origin \<Rightarrow> (nat \<times> origin) list" where
  "said (chars, origin) = zip chars (map (shift origin) [0..<length chars])"

definition byte_origins :: "edit_replacement \<Rightarrow> (nat \<times> origin) list" where
  "byte_origins r = concat (map said (runs r))"

text \<open>A replacement as its pieces: none is empty, and none goes on where the one before it stopped.\<close>

definition joins :: "bytes \<times> origin \<Rightarrow> origin \<Rightarrow> bool" where
  "joins piece origin \<longleftrightarrow> shift (snd piece) (length (fst piece)) = origin"

fun tidy :: "(bytes \<times> origin) list \<Rightarrow> bool" where
  "tidy [] \<longleftrightarrow> True"
| "tidy [p] \<longleftrightarrow> fst p \<noteq> []"
| "tidy (p # q # ps) \<longleftrightarrow> fst p \<noteq> [] \<and> \<not> joins p (snd q) \<and> tidy (q # ps)"

fun placed :: "nat \<Rightarrow> (bytes \<times> origin) list \<Rightarrow> (nat \<times> origin) list" where
  "placed n [] = []"
| "placed n (p # ps) = (n, snd p) # placed (n + length (fst p)) ps"

definition of_pieces :: "(bytes \<times> origin) list \<Rightarrow> edit_replacement" where
  "of_pieces ps = \<lparr>repl_text = concat (map fst ps), repl_runs = placed 0 ps\<rparr>"

definition well_made :: "edit_replacement \<Rightarrow> bool" where
  "well_made r \<longleftrightarrow> (\<exists>ps. tidy ps \<and> r = of_pieces ps)"

lemma shift_simps [simp]:
  "shift (Copied_from a) i = Copied_from (a + i)" "shift (Generated_for a) i = Generated_for a"
  "shift (Qualifier_for a) i = Qualifier_for a" "shift origin 0 = origin" "shift (shift origin i) j = shift origin (i + j)"
  by (simp_all add: shift_def split: origin.split)

lemma said_Nil [simp]: "said ([], origin) = []"
  by simp

lemma said_Cons [simp]: "said (b # chars, origin) = (b, origin) # said (chars, shift origin 1)"
  by (auto simp: upt_conv_Cons map_Suc_upt [symmetric] o_def simp del: upt_Suc intro!: arg_cong [where f = "zip chars"])

lemma said_append: "said (xs @ ys, origin) = said (xs, origin) @ said (ys, shift origin (length xs))"
  by (induction xs arbitrary: origin) (simp_all del: said.simps)

lemma map_fst_said [simp]: "map fst (said p) = fst p"
  by (cases p) simp

declare said.simps [simp del]

lemma placed_append: "placed n (ps @ qs) = placed n ps @ placed (n + length (concat (map fst ps))) qs"
  by (induction ps arbitrary: n) (simp_all add: add.assoc)

lemma cut_placed: "cut_runs (pre @ concat (map fst ps)) (placed (length pre) ps) = ps"
proof (induction ps arbitrary: pre rule: induct_list012)
  case (2 p)
  then show ?case by (simp add: part_def)
next
  case (3 p q ps)
  from 3(2) [of "pre @ fst p"] show ?case by (simp add: part_def)
qed simp

lemma runs_of_pieces [simp]: "runs (of_pieces ps) = ps"
  using cut_placed [of "[]" ps] by (simp add: runs_def of_pieces_def)

lemma tidy_nonempty: "tidy ps \<Longrightarrow> p \<in> set ps \<Longrightarrow> fst p \<noteq> []"
  by (induction ps rule: tidy.induct) auto

lemma tidy_snoc: "tidy (ps @ [p]) \<longleftrightarrow> tidy ps \<and> fst p \<noteq> [] \<and> (ps \<noteq> [] \<longrightarrow> \<not> joins (last ps) (snd p))"
  by (induction ps rule: tidy.induct) auto

text \<open>Adding a run to the pieces.\<close>

definition add_piece :: "bytes \<times> origin \<Rightarrow> (bytes \<times> origin) list \<Rightarrow> (bytes \<times> origin) list" where
  "add_piece p ps =
     (if fst p = [] then ps
      else if ps \<noteq> [] \<and> joins (last ps) (snd p) then butlast ps @ [(fst (last ps) @ fst p, snd (last ps))]
      else ps @ [p])"

lemma add_piece_tidy: "tidy ps \<Longrightarrow> tidy (add_piece p ps)"
proof (cases "fst p \<noteq> [] \<and> ps \<noteq> [] \<and> joins (last ps) (snd p)")
  case True
  assume "tidy ps"
  moreover obtain qs q where ps: "ps = qs @ [q]" using True by (metis append_butlast_last_id)
  ultimately show ?thesis using True by (simp add: add_piece_def tidy_snoc)
next
  case False
  assume "tidy ps"
  with False show ?thesis by (auto simp: add_piece_def tidy_snoc)
qed

lemma add_piece_said: "concat (map said (add_piece p ps)) = concat (map said ps) @ said p"
proof (cases "fst p = []")
  case True
  then show ?thesis by (cases p) (simp add: add_piece_def)
next
  case False
  show ?thesis
  proof (cases "ps \<noteq> [] \<and> joins (last ps) (snd p)")
    case True
    then obtain qs q where ps: "ps = qs @ [q]" by (metis append_butlast_last_id)
    with True False show ?thesis by (cases p; cases q) (simp add: add_piece_def joins_def said_append)
  qed (use False in \<open>auto simp: add_piece_def\<close>)
qed

lemma last_placed: "last (placed n (ps @ [p])) = (n + length (concat (map fst ps)), snd p)"
  by (simp add: placed_append)

lemma placed_Nil_iff [simp]: "placed n ps = [] \<longleftrightarrow> ps = []"
  by (cases ps) simp_all

lemma joins_simps [simp]:
  "joins (t, Copied_from a) (Copied_from b) \<longleftrightarrow> a + length t = b"
  "joins (t, Generated_for a) (Generated_for b) \<longleftrightarrow> a = b" "joins (t, Qualifier_for a) (Qualifier_for b) \<longleftrightarrow> a = b"
  "\<not> joins (t, Copied_from a) (Generated_for b)" "\<not> joins (t, Copied_from a) (Qualifier_for b)"
  "\<not> joins (t, Generated_for a) (Copied_from b)" "\<not> joins (t, Generated_for a) (Qualifier_for b)"
  "\<not> joins (t, Qualifier_for a) (Copied_from b)" "\<not> joins (t, Qualifier_for a) (Generated_for b)"
  by (simp_all add: joins_def)

lemma push_run_pieces:
  assumes "fst p \<noteq> []"
  shows "push_run p (of_pieces ps) = of_pieces (add_piece p ps)"
proof (cases ps rule: rev_cases)
  case Nil
  with assms show ?thesis
    by (cases p; cases "snd p") (auto simp: push_generated_def push_qualifier_def push_copied_def of_pieces_def add_piece_def Let_def)
next
  case (snoc qs q)
  with assms show ?thesis
    by (cases p; cases q; cases "snd p"; cases "snd q")
      (auto simp: push_generated_def push_qualifier_def push_copied_def of_pieces_def add_piece_def Let_def placed_append)
qed

lemma of_pieces_Nil: "empty_replacement = of_pieces []"
  by (simp add: empty_replacement_def of_pieces_def)

lemma byte_origins_of_pieces [simp]: "byte_origins (of_pieces ps) = concat (map said ps)"
  by (simp add: byte_origins_def)

lemma text_of_pieces [simp]: "repl_text (of_pieces ps) = map fst (concat (map said ps))"
  by (simp add: of_pieces_def map_concat o_def)

lemma well_made_empty: "well_made empty_replacement \<and> byte_origins empty_replacement = []"
  unfolding well_made_def of_pieces_Nil by force

lemma well_made_text: "well_made r \<Longrightarrow> repl_text r = map fst (byte_origins r)"
  by (auto simp: well_made_def)

lemma push_run_said:
  assumes "well_made r" "fst p \<noteq> []"
  shows "well_made (push_run p r) \<and> byte_origins (push_run p r) = byte_origins r @ said p"
proof -
  obtain ps where ps: "tidy ps" "r = of_pieces ps" using assms(1) by (auto simp: well_made_def)
  with push_run_pieces [OF assms(2), of ps] have "push_run p r = of_pieces (add_piece p ps)" by simp
  then show ?thesis using add_piece_tidy [OF ps(1), of p] ps(2) unfolding well_made_def by (auto simp: add_piece_said)
qed

lemma push_generated_said:
  "well_made r \<Longrightarrow> well_made (push_generated chars a r) \<and> byte_origins (push_generated chars a r) = byte_origins r @ said (chars, Generated_for a)"
  using push_run_said [of r "(chars, Generated_for a)"] by (cases "chars = []") (simp_all add: push_generated_def)

lemma push_qualifier_said:
  "well_made r \<Longrightarrow> well_made (push_qualifier chars a r) \<and> byte_origins (push_qualifier chars a r) = byte_origins r @ said (chars, Qualifier_for a)"
  using push_run_said [of r "(chars, Qualifier_for a)"] by (cases "chars = []") (simp_all add: push_qualifier_def)

lemma push_source_said:
  assumes "well_made r" "push_source source start stop r = Some r'"
  shows "well_made r' \<and> byte_origins r' = byte_origins r @ said (part start stop source, Copied_from start)"
proof (cases "start \<ge> stop")
  case True
  then show ?thesis using assms by (simp add: push_source_def part_def)
next
  case False
  then obtain chars where "str_slice source start stop = Some chars" "r' = push_copied chars start r" using assms(2) by (auto simp: push_source_def)
  moreover from this and False have "chars = part start stop source" "chars \<noteq> []" by (auto dest!: str_slice_SomeD simp: part_def)
  ultimately show ?thesis using push_run_said [OF assms(1), of "(chars, Copied_from start)"] by simp
qed

lemma append_said:
  assumes "well_made r" "well_made other"
  shows "well_made (append_replacement other r) \<and> byte_origins (append_replacement other r) = byte_origins r @ byte_origins other"
proof -
  obtain qs where qs: "tidy qs" "other = of_pieces qs" using assms(2) by (auto simp: well_made_def)
  have "well_made (fold push_run qs r) \<and> byte_origins (fold push_run qs r) = byte_origins r @ concat (map said qs)"
    if "\<And>p. p \<in> set qs \<Longrightarrow> fst p \<noteq> []" "well_made r" for qs r
    using that
  proof (induction qs arbitrary: r)
    case (Cons q qs)
    then show ?case using push_run_said [of r q] by simp
  qed simp
  then show ?thesis using tidy_nonempty [OF qs(1)] assms(1) by (simp add: append_replacement_def qs(2))
qed

lemma pop_newline_said:
  assumes "well_made r"
  shows "well_made (pop_newline r)
    \<and> byte_origins (pop_newline r)
      = (if repl_text r \<noteq> [] \<and> last (repl_text r) = newline then butlast (byte_origins r) else byte_origins r)"
proof (cases "repl_text r \<noteq> [] \<and> last (repl_text r) = newline")
  case False
  then show ?thesis using assms by (auto simp: pop_newline_def)
next
  case True
  obtain ps where ps: "tidy ps" "r = of_pieces ps" using assms by (auto simp: well_made_def)
  with True obtain qs q where q: "ps = qs @ [q]" by (cases ps rule: rev_cases) auto
  then have nonempty: "fst q \<noteq> []" "tidy qs" using ps(1) by (auto simp: tidy_snoc)
  then obtain t b where t: "fst q = t @ [b]" by (metis append_butlast_last_id)
  have tx: "repl_text r = concat (map fst qs) @ t @ [b]" by (simp add: ps(2) q of_pieces_def t)
  have "pop_newline r = of_pieces (if t = [] then qs else qs @ [(t, snd q)])"
    using True unfolding pop_newline_def Let_def tx by (auto simp: ps(2) q of_pieces_def placed_append t butlast_append)
  moreover have "tidy (if t = [] then qs else qs @ [(t, snd q)])" using ps(1) nonempty(2) by (auto simp: q tidy_snoc)
  moreover have "said q = said (t, snd q) @ said ([b], shift (snd q) (length t))"
    using said_append [of t "[b]" "snd q"] t by (cases q) simp
  then have "butlast (byte_origins r) = concat (map said (if t = [] then qs else qs @ [(t, snd q)]))"
    by (simp add: ps(2) q butlast_append)
  ultimately show ?thesis using True by (auto simp: well_made_def)
qed

text \<open>The pieces are read back from what they say.\<close>

fun grouped :: "(nat \<times> origin) list \<Rightarrow> (bytes \<times> origin) list" where
  "grouped [] = []"
| "grouped ((b, origin) # rest) =
     (case grouped rest of
        (t, origin') # ps \<Rightarrow> if joins ([b], origin) origin' then (b # t, origin) # ps else ([b], origin) # (t, origin') # ps
      | [] \<Rightarrow> [([b], origin)])"

lemma grouped_piece:
  assumes "tidy ((t, origin) # ps)" "grouped (concat (map said ps)) = ps"
  shows "grouped (said (t, origin) @ concat (map said ps)) = (t, origin) # ps"
  using assms(1)
proof (induction t arbitrary: origin)
  case (Cons b t)
  show ?case
  proof (cases "t = []")
    case True
    then show ?thesis using Cons.prems assms(2) by (cases ps) auto
  next
    case False
    have "tidy ((t, shift origin 1) # ps)" using Cons.prems False by (cases ps) (auto simp: joins_def)
    from Cons.IH [OF this] show ?thesis by (simp add: joins_def)
  qed
qed (cases ps, simp_all)

lemma grouped_said: "tidy ps \<Longrightarrow> grouped (concat (map said ps)) = ps"
proof (induction ps)
  case (Cons p ps)
  then have "tidy ps" by (cases ps) simp_all
  with Cons show ?case using grouped_piece [of "fst p" "snd p" ps] by simp
qed simp

lemma same_bytes_same_replacement:
  assumes "well_made r" "well_made r'" "byte_origins r = byte_origins r'"
  shows "r = r'"
  using assms grouped_said by (auto simp: well_made_def) metis

text \<open>A lowering assembles a replacement from such writings.\<close>

datatype writing = Write_generated bytes nat | Write_qualifier bytes nat | Write_source nat nat | Write_all "writing list"

fun assemble :: "bytes \<Rightarrow> writing \<Rightarrow> edit_replacement \<Rightarrow> edit_replacement option"
  and assemble_all :: "bytes \<Rightarrow> writing list \<Rightarrow> edit_replacement \<Rightarrow> edit_replacement option" where
  "assemble source (Write_generated chars anchor) r = Some (push_generated chars anchor r)"
| "assemble source (Write_qualifier chars anchor) r = Some (push_qualifier chars anchor r)"
| "assemble source (Write_source start stop) r = push_source source start stop r"
| "assemble source (Write_all ws) r = map_option (\<lambda>other. append_replacement other r) (assemble_all source ws empty_replacement)"
| "assemble_all source [] r = Some r"
| "assemble_all source (w # ws) r = Option.bind (assemble source w r) (assemble_all source ws)"

fun meant :: "bytes \<Rightarrow> writing \<Rightarrow> (nat \<times> origin) list" where
  "meant source (Write_generated chars anchor) = said (chars, Generated_for anchor)"
| "meant source (Write_qualifier chars anchor) = said (chars, Qualifier_for anchor)"
| "meant source (Write_source start stop) = said (part start stop source, Copied_from start)"
| "meant source (Write_all ws) = concat (map (meant source) ws)"

lemma assembled:
  "assemble source w r = Some r' \<Longrightarrow> well_made r \<Longrightarrow> well_made r' \<and> byte_origins r' = byte_origins r @ meant source w"
  "assemble_all source ws r = Some r' \<Longrightarrow> well_made r \<Longrightarrow> well_made r' \<and> byte_origins r' = byte_origins r @ concat (map (meant source) ws)"
proof (induction source w r and source ws r arbitrary: r' and r' rule: assemble_assemble_all.induct)
  case (4 source ws r)
  then obtain other where "assemble_all source ws empty_replacement = Some other" "r' = append_replacement other r" by auto
  with 4 show ?case using well_made_empty append_said [of r other] by simp
next
  case (6 source w ws r)
  then obtain r1 where "assemble source w r = Some r1" "assemble_all source ws r1 = Some r'" by (auto simp: bind_eq_Some_conv)
  with 6 show ?case by fastforce
qed (auto simp: push_generated_said push_qualifier_said push_source_said)

end
