(* ===== verification/Tr_LineTable.thy ===== *)
theory Tr_LineTable
  imports Tr_Edits
begin

text \<open>
  \<^verbatim>\<open>by_transforms/src/source_map.rs\<close>, the line table of an edited text, and what it means: read off the
  bytes of the text and where each came from, every line is charged to its first visible source text,
  failing that to the construct its first visible generated text stands for, and a blank line to what
  ends it.
\<close>

section \<open>The table\<close>

definition line_starts :: "bytes \<Rightarrow> nat list" where
  "line_starts source = 0 # map Suc (filter (\<lambda>i. source ! i = newline) [0..<length source])"

definition line_of :: "nat list \<Rightarrow> nat \<Rightarrow> u32" where
  "line_of starts offset = to_u32 (length (takeWhile (\<lambda>start. start \<le> offset) starts) - 1)"

record line_charges =
  tab_lines :: "u32 option list"
  tab_copied :: "u32 option"
  tab_generated :: "u32 option"

definition empty_table :: line_charges where
  "empty_table = \<lparr>tab_lines = [], tab_copied = None, tab_generated = None\<rparr>"

definition or_of :: "'a option \<Rightarrow> 'a option \<Rightarrow> 'a option" where
  "or_of x y = (case x of Some a \<Rightarrow> Some a | None \<Rightarrow> y)"

definition ascii_whitespace :: "nat \<Rightarrow> bool" where
  "ascii_whitespace b \<longleftrightarrow> b = 9 \<or> b = 10 \<or> b = 12 \<or> b = 13 \<or> b = 32"

fun table_push :: "bytes \<Rightarrow> u32 \<Rightarrow> bool \<Rightarrow> line_charges \<Rightarrow> line_charges" where
  "table_push [] line copied t = t"
| "table_push (b # bs) line copied t =
     (if b = newline then
        table_push bs (if copied then line + 1 else line) copied
          \<lparr>tab_lines = tab_lines t @ [or_of (or_of (tab_copied t) (tab_generated t)) (Some line)], tab_copied = None, tab_generated = None\<rparr>
      else if ascii_whitespace b then table_push bs line copied t
      else if copied then table_push bs line copied (t\<lparr>tab_copied := or_of (tab_copied t) (Some line)\<rparr>)
      else table_push bs line copied (t\<lparr>tab_generated := or_of (tab_generated t) (Some line)\<rparr>))"

definition table_finish :: "line_charges \<Rightarrow> u32 option list" where
  "table_finish t =
     (case or_of (tab_copied t) (tab_generated t) of Some line \<Rightarrow> tab_lines t @ [Some line] | None \<Rightarrow> tab_lines t)"

type_synonym edit = "nat \<times> nat \<times> edit_replacement"

fun table_run :: "nat list \<Rightarrow> bytes \<times> origin \<Rightarrow> line_charges \<Rightarrow> line_charges" where
  "table_run starts (chars, Copied_from at) t = table_push chars (line_of starts at) True t"
| "table_run starts (chars, Generated_for anchor) t = table_push chars (line_of starts anchor) False t"
| "table_run starts (chars, Qualifier_for anchor) t = table_push chars (line_of starts anchor) False t"

fun table_edits :: "bytes \<Rightarrow> nat \<Rightarrow> edit list \<Rightarrow> line_charges \<Rightarrow> line_charges option" where
  "table_edits source pos [] t =
     map_option (\<lambda>chars. table_push chars (line_of (line_starts source) pos) True t) (str_slice source pos (length source))"
| "table_edits source pos ((start, stop, r) # edits) t =
     Option.bind (str_slice source pos start) (\<lambda>chars.
       table_edits source stop edits
         (fold (table_run (line_starts source)) (runs r) (table_push chars (line_of (line_starts source) pos) True t)))"

definition line_table :: "bytes \<Rightarrow> edit list \<Rightarrow> u32 option list option" where
  "line_table source edits = map_option table_finish (table_edits source 0 edits empty_table)"

section \<open>What it says\<close>

text \<open>The edited text, byte by byte, with where each came from.\<close>

fun edited_bytes :: "bytes \<Rightarrow> nat \<Rightarrow> edit list \<Rightarrow> (nat \<times> origin) list" where
  "edited_bytes source pos [] = said (part pos (length source) source, Copied_from pos)"
| "edited_bytes source pos ((start, stop, r) # edits) =
     said (part pos start source, Copied_from pos) @ byte_origins r @ edited_bytes source stop edits"

definition edited_text :: "bytes \<Rightarrow> edit list \<Rightarrow> bytes" where
  "edited_text source edits = map fst (edited_bytes source 0 edits)"

definition newlines_before :: "bytes \<Rightarrow> nat \<Rightarrow> nat" where
  "newlines_before source i = length (filter (\<lambda>b. b = newline) (take i source))"

text \<open>The line a byte is charged to, and whether the author wrote it.\<close>

definition charge_of :: "bytes \<Rightarrow> nat \<times> origin \<Rightarrow> nat \<times> u32 \<times> bool" where
  "charge_of source = (\<lambda>(b, origin).
     case origin of
       Copied_from at \<Rightarrow> (b, to_u32 (newlines_before source at), True)
     | Generated_for anchor \<Rightarrow> (b, to_u32 (newlines_before source anchor), False)
     | Qualifier_for anchor \<Rightarrow> (b, to_u32 (newlines_before source anchor), False))"

fun output_lines :: "(nat \<times> 'a) list \<Rightarrow> (nat \<times> 'a) list list" where
  "output_lines [] = []"
| "output_lines (x # xs) =
     (if fst x = newline then [x] # output_lines xs
      else (case output_lines xs of [] \<Rightarrow> [[x]] | l # ls \<Rightarrow> (x # l) # ls))"

definition first_visible :: "bool \<Rightarrow> (nat \<times> u32 \<times> bool) list \<Rightarrow> u32 option" where
  "first_visible copied line =
     (case filter (\<lambda>(b, l, c). \<not> ascii_whitespace b \<and> c = copied) line of [] \<Rightarrow> None | (b, l, c) # _ \<Rightarrow> Some l)"

definition line_charge :: "(nat \<times> u32 \<times> bool) list \<Rightarrow> u32 option" where
  "line_charge line =
     or_of (or_of (first_visible True line) (first_visible False line))
       (if line \<noteq> [] \<and> fst (last line) = newline then Some (fst (snd (last line))) else None)"

text \<open>What is asked of the edits: ascending, within the text, and copying what the source has.\<close>

definition faithful :: "bytes \<Rightarrow> edit_replacement \<Rightarrow> bool" where
  "faithful source r \<longleftrightarrow>
     well_made r \<and> (\<forall>(b, origin) \<in> set (byte_origins r). \<forall>at. origin = Copied_from at \<longrightarrow> at < length source \<and> source ! at = b)"

fun edits_fit :: "bytes \<Rightarrow> nat \<Rightarrow> edit list \<Rightarrow> bool" where
  "edits_fit source pos [] \<longleftrightarrow> pos \<le> length source \<and> char_boundary source pos"
| "edits_fit source pos ((start, stop, r) # edits) \<longleftrightarrow>
     pos \<le> start \<and> char_boundary source pos \<and> char_boundary source start \<and> faithful source r \<and> edits_fit source stop edits"

lemma or_of_simps [simp]: "or_of (Some a) y = Some a" "or_of None y = y"
  by (simp_all add: or_of_def)

lemma or_of_None [simp]: "or_of x None = x" and or_of_assoc: "or_of (or_of x y) z = or_of x (or_of y z)"
  by (cases x; simp)+

section \<open>Lines of offsets\<close>

lemma newlines_before_Suc:
  "i < length source \<Longrightarrow> newlines_before source (Suc i) = newlines_before source i + (if source ! i = newline then 1 else 0)"
  by (simp add: newlines_before_def take_Suc_conv_app_nth)

lemma newlines_before_le: "newlines_before source i \<le> length source"
  unfolding newlines_before_def by (rule order_trans [OF length_filter_le]) simp

lemma sorted_takeWhile_le: "sorted xs \<Longrightarrow> takeWhile (\<lambda>x. x \<le> (i :: nat)) xs = filter (\<lambda>x. x \<le> i) xs"
  by (induction xs) (auto simp: filter_empty_conv eq_commute [of "[]"])

lemma newlines_before_indices: "newlines_before source i = length (filter (\<lambda>j. j < i \<and> source ! j = newline) [0..<length source])"
proof (induction source rule: rev_induct)
  case (snoc b source)
  have "filter (\<lambda>j. j < i \<and> (source @ [b]) ! j = newline) [0..<length source] = filter (\<lambda>j. j < i \<and> source ! j = newline) [0..<length source]"
    by (rule filter_cong) (auto simp: nth_append)
  with snoc show ?case by (auto simp: newlines_before_def take_Cons')
qed (simp add: newlines_before_def)

lemma line_of_starts: "line_of (line_starts source) i = to_u32 (newlines_before source i)"
proof -
  have "sorted (line_starts source)"
    by (auto simp: line_starts_def sorted_map intro: sorted_wrt_filter sorted_wrt_mono_rel [of _ "(<)"])
  from sorted_takeWhile_le [OF this] show ?thesis
    by (simp add: line_of_def line_starts_def newlines_before_indices filter_map o_def Suc_le_eq conj_commute)
qed

section \<open>The table is what is said\<close>

text \<open>Pushing, byte by byte.\<close>

definition charge_byte :: "nat \<times> u32 \<times> bool \<Rightarrow> line_charges \<Rightarrow> line_charges" where
  "charge_byte = (\<lambda>(b, line, copied). table_push [b] line copied)"

fun charged :: "bytes \<Rightarrow> u32 \<Rightarrow> bool \<Rightarrow> (nat \<times> u32 \<times> bool) list" where
  "charged [] line copied = []"
| "charged (b # bs) line copied = (b, line, copied) # charged bs (if b = newline \<and> copied then line + 1 else line) copied"

lemma table_push_charged: "table_push bs line copied t = fold charge_byte (charged bs line copied) t"
  by (induction bs line copied t rule: table_push.induct) (auto simp: charge_byte_def)

lemma charged_written: "charged bs line False = map (\<lambda>b. (b, line, False)) bs"
  by (induction bs) simp_all

lemma map_fst_pairs: "map (\<lambda>b. (b, x)) (map fst ps) = map (\<lambda>p. (fst p, x)) ps"
  by simp

lemma charged_copied:
  assumes "\<And>i. i < length bs \<Longrightarrow> at + i < length source \<and> source ! (at + i) = bs ! i" "length source < 2 ^ 32"
  shows "charged bs (to_u32 (newlines_before source at)) True = map (charge_of source) (said (bs, Copied_from at))"
  using assms(1)
proof (induction bs arbitrary: at)
  case (Cons b bs)
  then have at: "at < length source" "source ! at = b" by force+
  have "newlines_before source (Suc at) < 2 ^ 32"
    using newlines_before_le [of source "Suc at"] assms(2) by simp
  then have "to_u32 (newlines_before source (Suc at)) = (if b = newline then to_u32 (newlines_before source at) + 1 else to_u32 (newlines_before source at))"
    using at newlines_before_Suc [OF at(1)] to_u32_Suc [of "newlines_before source at"] by auto
  moreover have "charged bs (to_u32 (newlines_before source (Suc at))) True = map (charge_of source) (said (bs, Copied_from (Suc at)))"
    by (rule Cons.IH) (use Cons.prems [of "Suc _"] in force)
  ultimately show ?case by (simp add: charge_of_def)
qed simp

lemma charge_written:
  "map (charge_of source) (said (bs, Generated_for a)) = charged bs (to_u32 (newlines_before source a)) False"
  "map (charge_of source) (said (bs, Qualifier_for a)) = charged bs (to_u32 (newlines_before source a)) False"
  by (induction bs) (simp_all add: charge_of_def)

definition true_run :: "bytes \<Rightarrow> bytes \<times> origin \<Rightarrow> bool" where
  "true_run source = (\<lambda>(chars, origin). \<forall>at i. origin = Copied_from at \<longrightarrow> i < length chars \<longrightarrow> at + i < length source \<and> source ! (at + i) = chars ! i)"

lemma table_run_charged:
  assumes "true_run source p" "length source < 2 ^ 32"
  shows "table_run (line_starts source) p t = fold charge_byte (map (charge_of source) (said p)) t"
  using assms charged_copied [of "fst p" _ source]
  by (cases p; cases "snd p") (auto simp: true_run_def table_push_charged line_of_starts charge_written)

lemma said_nth: "i < length chars \<Longrightarrow> (chars ! i, shift origin i) \<in> set (said (chars, origin))"
  by (auto simp: said.simps set_zip)

lemma faithful_runs:
  assumes "faithful source r" "p \<in> set (runs r)"
  shows "true_run source p"
proof -
  have "(fst p ! i, shift (snd p) i) \<in> set (byte_origins r)" if "i < length (fst p)" for i
    using assms(2) said_nth [OF that, of "snd p"] by (cases p) (auto simp: byte_origins_def)
  then show ?thesis using assms(1) unfolding faithful_def true_run_def by fastforce
qed

lemma table_runs_charged:
  assumes "faithful source r" "length source < 2 ^ 32"
  shows "fold (table_run (line_starts source)) (runs r) t = fold charge_byte (map (charge_of source) (byte_origins r)) t"
proof -
  have "fold (table_run (line_starts source)) ps t = fold charge_byte (map (charge_of source) (concat (map said ps))) t"
    if "\<And>p. p \<in> set ps \<Longrightarrow> true_run source p" for ps
    using that table_run_charged [OF _ assms(2)] by (induction ps arbitrary: t) simp_all
  then show ?thesis using faithful_runs [OF assms(1)] by (simp add: byte_origins_def)
qed

lemma source_charged:
  assumes "str_slice source a b = Some chars" "length source < 2 ^ 32"
  shows "table_push chars (line_of (line_starts source) a) True t
    = fold charge_byte (map (charge_of source) (said (part a b source, Copied_from a))) t"
proof -
  have chars: "chars = part a b source" "a \<le> b" "b \<le> length source" using str_slice_SomeD [OF assms(1)] by auto
  then have "charged chars (to_u32 (newlines_before source a)) True = map (charge_of source) (said (chars, Copied_from a))"
    by (intro charged_copied [OF _ assms(2)]) auto
  then show ?thesis by (simp add: table_push_charged line_of_starts chars(1))
qed

lemma edits_fit_boundary: "edits_fit source pos edits \<Longrightarrow> char_boundary source pos"
  by (cases "(source, pos, edits)" rule: edits_fit.cases) auto

lemma table_edits_charged:
  assumes "edits_fit source pos edits" "length source < 2 ^ 32"
  shows "table_edits source pos edits t = Some (fold charge_byte (map (charge_of source) (edited_bytes source pos edits)) t)"
  using assms
proof (induction source pos edits arbitrary: t rule: edits_fit.induct)
  case (1 source pos)
  then have "str_slice source pos (length source) = Some (part pos (length source) source)"
    by (simp add: str_slice_def char_boundary_def)
  from source_charged [OF this 1(2)] this show ?case by simp
next
  case (2 source pos start stop r edits)
  then have "str_slice source pos start = Some (part pos start source)" by (simp add: str_slice_def)
  from source_charged [OF this 2(3)] this 2 table_runs_charged [OF _ 2(3), of r] show ?case by simp
qed

text \<open>Charging the bytes is charging the lines.\<close>

lemma first_visible_append:
  "first_visible c (xs @ ys) = or_of (first_visible c xs) (first_visible c ys)"
  by (auto simp: first_visible_def or_of_def split: list.splits)

lemma output_lines_open: "newline \<notin> fst ` set xs \<Longrightarrow> output_lines xs = (if xs = [] then [] else [xs])"
  by (induction xs) auto

lemma output_lines_closed:
  "newline \<notin> fst ` set xs \<Longrightarrow> fst x = newline \<Longrightarrow> output_lines (xs @ x # ys) = (xs @ [x]) # output_lines ys"
  by (induction xs) auto

definition open_line :: "u32 option list \<Rightarrow> (nat \<times> u32 \<times> bool) list \<Rightarrow> line_charges" where
  "open_line ls acc = \<lparr>tab_lines = ls, tab_copied = first_visible True acc, tab_generated = first_visible False acc\<rparr>"

lemma charge_byte_open:
  "b \<noteq> newline \<Longrightarrow> charge_byte (b, l, c) (open_line ls acc) = open_line ls (acc @ [(b, l, c)])"
  by (auto simp: charge_byte_def open_line_def first_visible_append) (auto simp: first_visible_def)

lemma charge_byte_close:
  "charge_byte (newline, l, c) (open_line ls acc) = open_line (ls @ [line_charge (acc @ [(newline, l, c)])]) []"
  by (simp add: charge_byte_def open_line_def line_charge_def first_visible_append)
    (simp add: first_visible_def ascii_whitespace_def)

lemma line_charge_open: "newline \<notin> fst ` set acc \<Longrightarrow> line_charge acc = or_of (first_visible True acc) (first_visible False acc)"
  by (auto simp: line_charge_def)

lemma charges_are_lines:
  assumes "newline \<notin> fst ` set acc"
  shows "table_finish (fold charge_byte bs (open_line ls acc)) = ls @ map Some (filter_map line_charge (output_lines (acc @ bs)))"
  using assms
proof (induction bs arbitrary: ls acc)
  case Nil
  then show ?case
    by (auto simp: open_line_def table_finish_def output_lines_open line_charge_open first_visible_def [of _ "[]"] split: option.split)
next
  case (Cons x bs)
  obtain b l c where x: "x = (b, l, c)" by (cases x)
  show ?case
  proof (cases "b = newline")
    case True
    have "line_charge (acc @ [x]) \<noteq> None" by (simp add: line_charge_def x True or_of_def split: option.split)
    then show ?thesis using Cons.prems Cons.IH [of "[]"]
      by (auto simp: x True charge_byte_close output_lines_closed)
  next
    case False
    then show ?thesis using Cons.prems Cons.IH [of "acc @ [x]" ls] by (simp add: x charge_byte_open)
  qed
qed

lemma line_table_is:
  assumes "edits_fit source 0 edits" "length source < 2 ^ 32"
  shows "line_table source edits = Some (map Some (filter_map line_charge (output_lines (map (charge_of source) (edited_bytes source 0 edits)))))"
proof -
  have "empty_table = open_line [] []" by (simp add: empty_table_def open_line_def first_visible_def)
  with charges_are_lines [of "[]" _ "[]"] show ?thesis unfolding line_table_def table_edits_charged [OF assms] by simp
qed

section \<open>One entry per line\<close>

definition newline_count :: "bytes \<Rightarrow> nat" where
  "newline_count s = length (filter (\<lambda>b. b = newline) s)"

definition line_count :: "bytes \<Rightarrow> nat" where
  "line_count s = newline_count s + (if s = [] \<or> last s = newline then 0 else 1)"

text \<open>What follows the last line end, and whether it is white space only.\<close>

definition open_tail :: "bytes \<Rightarrow> bytes" where
  "open_tail s = rev (takeWhile (\<lambda>b. b \<noteq> newline) (rev s))"

definition blank_tail :: "bytes \<Rightarrow> bool" where
  "blank_tail s \<longleftrightarrow> open_tail s \<noteq> [] \<and> list_all ascii_whitespace (open_tail s)"

lemma takeWhile_open: "newline \<notin> set xs \<Longrightarrow> takeWhile (\<lambda>b. b \<noteq> newline) (rev xs) = rev xs"
  by (metis (mono_tags, lifting) set_rev takeWhile_eq_all_conv)

lemma open_tail_closed: "open_tail (xs @ newline # ys) = open_tail ys"
  by (cases "newline \<in> set ys") (auto simp: open_tail_def takeWhile_append takeWhile_open simp del: takeWhile_eq_all_conv)

lemma open_tail_open: "newline \<notin> set xs \<Longrightarrow> open_tail xs = xs"
  by (simp add: open_tail_def takeWhile_open)

lemma open_tail_Nil_iff: "open_tail s = [] \<longleftrightarrow> s = [] \<or> last s = newline"
  by (cases s rule: rev_cases) (simp_all add: open_tail_def)

lemma first_visible_None: "first_visible c acc = None \<longleftrightarrow> (\<forall>x \<in> set acc. \<not> ascii_whitespace (fst x) \<longrightarrow> snd (snd x) \<noteq> c)"
proof -
  have "first_visible c acc = None \<longleftrightarrow> filter (\<lambda>(b, l, c'). \<not> ascii_whitespace b \<and> c' = c) acc = []"
    by (auto simp: first_visible_def split: list.split)
  then show ?thesis by (auto simp: filter_empty_conv)
qed

lemma line_charge_visible:
  assumes "newline \<notin> fst ` set acc"
  shows "line_charge acc \<noteq> None \<longleftrightarrow> \<not> list_all ascii_whitespace (map fst acc)"
proof -
  have "line_charge acc = None \<longleftrightarrow> first_visible True acc = None \<and> first_visible False acc = None"
    by (simp add: line_charge_open [OF assms] or_of_def split: option.split)
  then show ?thesis unfolding first_visible_None list_all_iff by auto
qed

lemma charges_counted:
  assumes "newline \<notin> fst ` set acc"
  shows "length (filter_map line_charge (output_lines (acc @ bs)))
    = newline_count (map fst bs) + of_bool (\<not> list_all ascii_whitespace (open_tail (map fst (acc @ bs))))"
  using assms
proof (induction bs arbitrary: acc)
  case Nil
  have "line_charge acc = None \<longleftrightarrow> list_all ascii_whitespace (map fst acc)" using line_charge_visible [OF Nil] by blast
  then show ?case using Nil
    by (cases "line_charge acc") (auto simp: newline_count_def output_lines_open open_tail_open)
next
  case (Cons x bs)
  show ?case
  proof (cases "fst x = newline")
    case True
    then have "line_charge (acc @ [x]) \<noteq> None" by (cases x) (simp add: line_charge_def or_of_def split: option.split)
    then show ?thesis using Cons.prems Cons.IH [of "[]"] True
      by (auto simp: output_lines_closed newline_count_def open_tail_closed)
  next
    case False
    then show ?thesis using Cons.prems Cons.IH [of "acc @ [x]"] by (simp add: newline_count_def)
  qed
qed

lemma map_fst_charge [simp]: "map fst (map (charge_of source) bs) = map fst bs"
  by (auto simp: charge_of_def split: origin.split)

section \<open>Properties\<close>

text \<open>
  C24. However a lowering assembles replacements, out of text of its own, qualifiers, copies of the source
  and other replacements, each says of its bytes what was written, in order, and two of them are equal
  exactly if they say the same.
\<close>

theorem replacements_are_what_they_say:
  assumes "assemble_all source ws empty_replacement = Some r" "assemble_all source vs empty_replacement = Some r'"
  shows "byte_origins r = concat (map (meant source) ws) \<and> repl_text r = map fst (concat (map (meant source) ws))
    \<and> (r = r' \<longleftrightarrow> concat (map (meant source) ws) = concat (map (meant source) vs))"
proof -
  have r: "well_made r" "byte_origins r = concat (map (meant source) ws)"
    using assembled(2) [OF assms(1)] well_made_empty by auto
  have r': "well_made r'" "byte_origins r' = concat (map (meant source) vs)"
    using assembled(2) [OF assms(2)] well_made_empty by auto
  show ?thesis using same_bytes_same_replacement [OF r(1) r'(1)] r r' well_made_text [OF r(1)] by auto
qed

definition sample_source :: bytes where
  "sample_source = lit ''f(1):'' @ [newline] @ lit ''  g()'' @ [newline] @ lit ''h()''"

abbreviation hoisted :: "writing list" where
  "hoisted \<equiv> [Write_generated (lit ''def t():'') 0, Write_source 5 11, Write_generated ([newline]) 0, Write_source 0 4]"

abbreviation hoisted_apart :: "writing list" where
  "hoisted_apart \<equiv> [Write_generated (lit ''def'') 0, Write_all [Write_generated (lit '' t():'') 0, Write_source 5 7], Write_source 7 11,
     Write_generated ([newline]) 0, Write_source 0 4]"

theorem replacements_are_what_they_say_witness:
  "\<exists>r. assemble_all sample_source hoisted empty_replacement = Some r
     \<and> assemble_all sample_source hoisted_apart empty_replacement = Some r
     \<and> repl_text r = lit ''def t():'' @ [newline] @ lit ''  g()'' @ [newline] @ lit ''f(1)''"
proof -
  have "assemble_all sample_source hoisted empty_replacement \<noteq> None" by code_simp
  then obtain r where r: "assemble_all sample_source hoisted empty_replacement = Some r" by blast
  have "assemble_all sample_source hoisted_apart empty_replacement \<noteq> None" by code_simp
  then obtain r' where r': "assemble_all sample_source hoisted_apart empty_replacement = Some r'" by blast
  have "concat (map (meant sample_source) hoisted) = concat (map (meant sample_source) hoisted_apart)" by code_simp
  moreover have "map fst (concat (map (meant sample_source) hoisted)) = lit ''def t():'' @ [newline] @ lit ''  g()'' @ [newline] @ lit ''f(1)''"
    by code_simp
  ultimately show ?thesis using replacements_are_what_they_say [OF r r'] r r' by auto
qed


definition hoisting :: "edit list" where
  "hoisting = [(0, 11, the (assemble_all sample_source hoisted empty_replacement))]"

definition faithful_code :: "bytes \<Rightarrow> edit_replacement \<Rightarrow> bool" where
  "faithful_code source r \<longleftrightarrow>
     list_all (\<lambda>(b, origin). case origin of Copied_from at \<Rightarrow> at < length source \<and> source ! at = b | _ \<Rightarrow> True) (byte_origins r)"

lemma assembled_faithful:
  assumes "assemble_all source ws empty_replacement = Some r" "faithful_code source r"
  shows "faithful source r"
proof -
  have "well_made r" using assembled(2) [OF assms(1)] well_made_empty by blast
  then show ?thesis using assms(2) unfolding faithful_def faithful_code_def list_all_iff by (fastforce split: origin.splits)
qed

lemma hoisting_fits: "edits_fit sample_source 0 hoisting"
proof -
  have "assemble_all sample_source hoisted empty_replacement \<noteq> None" by code_simp
  then obtain r where r: "assemble_all sample_source hoisted empty_replacement = Some r" by blast
  have "faithful_code sample_source (the (assemble_all sample_source hoisted empty_replacement))" by code_simp
  then have "faithful sample_source r" using assembled_faithful [OF r] unfolding r by simp
  moreover have "char_boundary sample_source 0" "char_boundary sample_source 11" "11 \<le> length sample_source" by code_simp+
  ultimately show ?thesis unfolding hoisting_def r by simp
qed


text \<open>
  C25. The table has as many entries as the edited text has lines, unless the text ends in white space that
  no line end follows: then it is one short of the count that everything downstream indexes by.
\<close>

theorem line_table_counts_lines:
  assumes "edits_fit source 0 edits" "length source < 2 ^ 32"
  shows "map_option length (line_table source edits)
    = Some (line_count (edited_text source edits) - of_bool (blank_tail (edited_text source edits)))"
proof -
  let ?bs = "map (charge_of source) (edited_bytes source 0 edits)"
  have "map fst ?bs = edited_text source edits" unfolding map_fst_charge edited_text_def ..
  with charges_counted [of "[]" ?bs] show ?thesis
    unfolding line_table_is [OF assms] line_count_def blank_tail_def open_tail_Nil_iff [symmetric]
    by (auto simp: of_bool_def)
qed

theorem line_table_counts_lines_witness:
  "map_option length (line_table sample_source hoisting) = Some 4
   \<and> map_option length (line_table (lit ''a'' @ [newline] @ lit ''  '') []) = Some 1 \<and> line_count (lit ''a'' @ [newline] @ lit ''  '') = 2"
proof (intro conjI)
  have "length sample_source < 2 ^ 32" by (simp add: sample_source_def)
  from line_table_counts_lines [OF hoisting_fits this]
  have "map_option length (line_table sample_source hoisting)
    = Some (line_count (edited_text sample_source hoisting) - of_bool (blank_tail (edited_text sample_source hoisting)))" .
  moreover have "line_count (edited_text sample_source hoisting) - of_bool (blank_tail (edited_text sample_source hoisting)) = 4" by code_simp
  ultimately show "map_option length (line_table sample_source hoisting) = Some 4" by simp
  show "map_option length (line_table (lit ''a'' @ [newline] @ lit ''  '') []) = Some 1" by code_simp
  show "line_count (lit ''a'' @ [newline] @ lit ''  '') = 2" by code_simp
qed

end
