(* ===== verification/Tr_Columns.thy ===== *)
theory Tr_Columns
  imports Tr_LineTable Stage_Sourcemap
begin

text \<open>
  \<^verbatim>\<open>by_transforms/src/columns.rs\<close>: which bytes of each line are text the author wrote, and where that text
  is. What the runs of a line mean is a function of the column; the columns of an edited text are shown
  to mean what its bytes say, composing two descriptions to be composing their meanings, and what is
  left after the final check to be the author's bytes.
\<close>

section \<open>Columns\<close>

fun split_newline :: "bytes \<Rightarrow> bytes list" where
  "split_newline [] = [[]]"
| "split_newline (b # bs) = (if b = newline then [] # split_newline bs else (b # hd (split_newline bs)) # tl (split_newline bs))"

definition py_lines :: "bytes \<Rightarrow> bytes list" where
  "py_lines s = (if s = [] \<or> last s = newline then butlast (split_newline s) else split_newline s)"

definition copied_line :: "nat \<Rightarrow> bytes \<Rightarrow> segment list" where
  "copied_line index line =
     (if line = [] then []
      else [\<lparr>seg_start = 0, seg_end = to_u32 (length line), seg_origin = Copied (to_u32 index) 0\<rparr>])"

definition identity_columns :: "bytes \<Rightarrow> segment list list" where
  "identity_columns s = map (\<lambda>(index, line). copied_line index line) (enumerate 0 (py_lines s))"

definition equal_lines :: "bytes \<Rightarrow> bytes \<Rightarrow> segment list list" where
  "equal_lines input s =
     (let before = py_lines input; after = py_lines s
      in if length before \<noteq> length after then replicate (length after) []
         else map (\<lambda>(index, after, before). if after = before then copied_line index after else [])
           (enumerate 0 (zip after before)))"

definition position_in :: "nat list \<Rightarrow> nat \<Rightarrow> u32 \<times> u32" where
  "position_in starts offset =
     (let line = length (takeWhile (\<lambda>start. start \<le> offset) starts) - 1
      in (to_u32 line, to_u32 (offset - starts ! line)))"

record column_builder =
  input_starts :: "nat list"
  built_columns :: "segment list list"
  open_segments :: "segment list"
  open_column :: u32

definition new_column_builder :: "bytes \<Rightarrow> column_builder" where
  "new_column_builder input = \<lparr>input_starts = line_starts input, built_columns = [], open_segments = [], open_column = 0\<rparr>"

definition carries_on :: "segment \<Rightarrow> column_origin \<Rightarrow> bool" where
  "carries_on seg origin =
     (case (seg_origin seg, origin) of
        (Copied line column, Copied next_line next_column) \<Rightarrow>
          line = next_line \<and> column + (seg_end seg - seg_start seg) = next_column
      | (Qualifier, Qualifier) \<Rightarrow> True
      | _ \<Rightarrow> False)"

definition push_segment :: "nat \<Rightarrow> column_origin option \<Rightarrow> column_builder \<Rightarrow> column_builder" where
  "push_segment len origin b =
     (let start = open_column b; b = b\<lparr>open_column := start + to_u32 len\<rparr>; segs = open_segments b
      in case origin of
           None \<Rightarrow> b
         | Some origin \<Rightarrow>
             if len = 0 then b
             else if segs \<noteq> [] \<and> seg_end (last segs) = start \<and> carries_on (last segs) origin
             then b\<lparr>open_segments := butlast segs @ [(last segs)\<lparr>seg_end := open_column b\<rparr>]\<rparr>
             else b\<lparr>open_segments := segs @ [\<lparr>seg_start = start, seg_end = open_column b, seg_origin = origin\<rparr>]\<rparr>)"

definition push_newline :: "column_builder \<Rightarrow> column_builder" where
  "push_newline b = b\<lparr>built_columns := built_columns b @ [open_segments b], open_segments := [], open_column := 0\<rparr>"

definition copied_piece :: "bytes \<Rightarrow> nat \<Rightarrow> column_builder \<Rightarrow> column_builder" where
  "copied_piece piece offset b =
     (let (line, column) = position_in (input_starts b) offset in push_segment (length piece) (Some (Copied line column)) b)"

fun copied_pieces :: "bytes list \<Rightarrow> nat \<Rightarrow> column_builder \<Rightarrow> column_builder" where
  "copied_pieces [] offset b = b"
| "copied_pieces (piece # pieces) offset b =
     copied_pieces pieces (offset + 1 + length piece) (copied_piece piece (offset + 1) (push_newline b))"

definition push_copied_text :: "bytes \<Rightarrow> nat \<Rightarrow> column_builder \<Rightarrow> column_builder" where
  "push_copied_text s at b =
     (let pieces = split_newline s
      in copied_pieces (tl pieces) (at + length (hd pieces)) (copied_piece (hd pieces) at b))"

definition push_written_text :: "bytes \<Rightarrow> bool \<Rightarrow> column_builder \<Rightarrow> column_builder" where
  "push_written_text s qualifier b =
     (let origin = (if qualifier then Some Qualifier else None); pieces = split_newline s
      in fold (\<lambda>piece b. push_segment (length piece) origin (push_newline b)) (tl pieces)
           (push_segment (length (hd pieces)) origin b))"

fun push_columns_run :: "bytes \<times> origin \<Rightarrow> column_builder \<Rightarrow> column_builder" where
  "push_columns_run (s, Copied_from at) b = push_copied_text s at b"
| "push_columns_run (s, Generated_for anchor) b = push_written_text s False b"
| "push_columns_run (s, Qualifier_for anchor) b = push_written_text s True b"

definition finish_columns :: "bytes \<Rightarrow> column_builder \<Rightarrow> segment list list" where
  "finish_columns s b =
     (if s \<noteq> [] \<and> last s \<noteq> newline then built_columns b @ [open_segments b] else built_columns b)"

fun edited_from :: "bytes \<Rightarrow> nat \<Rightarrow> edit list \<Rightarrow> bytes \<Rightarrow> column_builder \<Rightarrow> (bytes \<times> column_builder) option" where
  "edited_from input cursor [] s b =
     map_option (\<lambda>chars. (s @ chars, push_copied_text chars cursor b)) (str_slice input cursor (length input))"
| "edited_from input cursor ((start, stop, r) # edits) s b =
     Option.bind (str_slice input cursor start) (\<lambda>chars.
       edited_from input stop edits (s @ chars @ repl_text r)
         (fold push_columns_run (runs r) (push_copied_text chars cursor b)))"

definition edited :: "bytes \<Rightarrow> edit list \<Rightarrow> (bytes \<times> segment list list) option" where
  "edited input edits = map_option (\<lambda>(s, b). (s, finish_columns s b)) (edited_from input 0 edits [] (new_column_builder input))"

text \<open>One run of the outer text against one run of the line it was copied from.\<close>

definition through_piece :: "segment \<Rightarrow> u32 \<Rightarrow> segment \<Rightarrow> segment option" where
  "through_piece seg column piece =
     (let len = seg_end seg - seg_start seg;
          start = max (seg_start piece) column;
          stop = min (seg_end piece) (column + len)
      in if start \<ge> stop then None
         else Some \<lparr>seg_start = seg_start seg + (start - column), seg_end = seg_start seg + (stop - column),
           seg_origin = (case seg_origin piece of
             Qualifier \<Rightarrow> Qualifier
           | Copied line origin_column \<Rightarrow> Copied line (origin_column + (start - seg_start piece)))\<rparr>)"

definition compose_segment :: "segment list list \<Rightarrow> segment \<Rightarrow> segment list" where
  "compose_segment inner seg =
     (case seg_origin seg of
        Qualifier \<Rightarrow> [seg]
      | Copied line column \<Rightarrow>
          (case get inner (unat line) of
             None \<Rightarrow> []
           | Some through \<Rightarrow> filter_map (through_piece seg column) through))"

definition compose_columns :: "segment list list \<Rightarrow> segment list list \<Rightarrow> segment list list" where
  "compose_columns outer inner = map (\<lambda>line. concat (map (compose_segment inner) line)) outer"

definition claim_holds :: "bytes \<Rightarrow> bytes list \<Rightarrow> segment \<Rightarrow> bool" where
  "claim_holds written source_lines seg =
     (let claimed = str_slice written (unat (seg_start seg)) (unat (seg_end seg))
      in case seg_origin seg of
           Qualifier \<Rightarrow> claimed \<noteq> None
         | Copied line column \<Rightarrow>
             let len = unat (seg_end seg - seg_start seg);
                 actual = Option.bind (get source_lines (unat line)) (\<lambda>source. str_slice source (unat column) (unat column + len))
             in claimed \<noteq> None \<and> claimed = actual)"

definition verified_columns :: "segment list list \<Rightarrow> bytes \<Rightarrow> bytes \<Rightarrow> segment list list" where
  "verified_columns cols s source =
     map (\<lambda>(index, line). case get (py_lines s) index of
         None \<Rightarrow> []
       | Some written \<Rightarrow> filter (claim_holds written (py_lines source)) line) (enumerate 0 cols)"

definition insert_written_lines :: "nat \<Rightarrow> nat \<Rightarrow> segment list list \<Rightarrow> segment list list" where
  "insert_written_lines at count cols =
     (let at = min at (length cols) in take at cols @ replicate count [] @ drop at cols)"

section \<open>What the runs of a line mean\<close>

datatype provenance = Written | Qualifies | Author nat nat

definition covers :: "nat \<Rightarrow> segment \<Rightarrow> bool" where
  "covers c seg \<longleftrightarrow> unat (seg_start seg) \<le> c \<and> c < unat (seg_end seg)"

definition means :: "segment \<Rightarrow> nat \<Rightarrow> provenance" where
  "means seg c =
     (case seg_origin seg of
        Qualifier \<Rightarrow> Qualifies
      | Copied line column \<Rightarrow> Author (unat line) (unat column + (c - unat (seg_start seg))))"

definition meaning :: "segment list \<Rightarrow> nat \<Rightarrow> provenance" where
  "meaning line c = (case List.find (covers c) line of Some seg \<Rightarrow> means seg c | None \<Rightarrow> Written)"

text \<open>Ascending runs, none of which names a column past 32 bits.\<close>

definition in_range :: "segment \<Rightarrow> bool" where
  "in_range seg \<longleftrightarrow>
     seg_start seg < seg_end seg
     \<and> (case seg_origin seg of
          Copied line column \<Rightarrow> unat column + (unat (seg_end seg) - unat (seg_start seg)) < 2 ^ 32
        | Qualifier \<Rightarrow> True)"

definition ascending :: "segment list \<Rightarrow> bool" where
  "ascending line \<longleftrightarrow> sorted_wrt (\<lambda>s t. seg_end s \<le> seg_start t) line \<and> list_all in_range line"

lemma meaning_Nil [simp]: "meaning [] c = Written"
  by (simp add: meaning_def)

lemma meaning_Cons: "meaning (seg # line) c = (if covers c seg then means seg c else meaning line c)"
  by (simp add: meaning_def)

lemma meaning_append: "meaning (xs @ ys) c = (if list_ex (covers c) xs then meaning xs c else meaning ys c)"
  by (induction xs) (simp_all add: meaning_Cons)

lemma means_not_Written [simp]: "means seg c \<noteq> Written"
  by (simp add: means_def split: column_origin.split)

lemma meaning_uncovered: "\<not> list_ex (covers c) line \<Longrightarrow> meaning line c = Written"
  by (induction line) (simp_all add: meaning_Cons)

section \<open>Composition\<close>

lemma unat_add_u32: "unat x + unat y < 2 ^ 32 \<Longrightarrow> unat (x + y :: u32) = unat x + unat y"
  by (simp add: unat_word_ariths)

lemma unat_max: "unat (max x y) = max (unat x) (unat (y :: u32))" and unat_min: "unat (min x y) = min (unat x) (unat y)"
  by (auto simp: max_def min_def word_le_nat_alt)

lemma less_unat: "x < y \<longleftrightarrow> unat x < unat (y :: u32)" and le_unat: "x \<le> y \<longleftrightarrow> unat x \<le> unat y"
  by (simp_all add: word_less_nat_alt word_le_nat_alt)

lemma window_inside:
  fixes a e k p q :: nat
  assumes "max p k < min q (k + (e - a))" "a < e"
  shows "a \<le> a + (max p k - k) \<and> a + (max p k - k) < a + (min q (k + (e - a)) - k) \<and> a + (min q (k + (e - a)) - k) \<le> e"
    "n + (q - p) < m \<Longrightarrow> n + (max p k - p) + ((a + (min q (k + (e - a)) - k)) - (a + (max p k - k))) < m"
  using assms by (cases "p \<le> k"; cases "q \<le> k + (e - a)"; auto)+

text \<open>What \<open>through_piece\<close> gives, without the wrap-around.\<close>

lemma through_piece_unat:
  assumes seg: "in_range seg" "seg_origin seg = Copied line column" and piece: "in_range piece"
  defines "start \<equiv> max (unat (seg_start piece)) (unat column)"
    and "stop \<equiv> min (unat (seg_end piece)) (unat column + (unat (seg_end seg) - unat (seg_start seg)))"
  shows "start < stop \<longleftrightarrow> through_piece seg column piece \<noteq> None"
    and "through_piece seg column piece = Some new \<Longrightarrow>
      unat (seg_start new) = unat (seg_start seg) + (start - unat column)
      \<and> unat (seg_end new) = unat (seg_start seg) + (stop - unat column)
      \<and> (case seg_origin piece of
           Qualifier \<Rightarrow> seg_origin new = Qualifier
         | Copied l k \<Rightarrow> \<exists>k'. seg_origin new = Copied l k' \<and> unat k' = unat k + (start - unat (seg_start piece)))"
proof -
  let ?len = "seg_end seg - seg_start seg"
  let ?start = "max (seg_start piece) column" and ?stop = "min (seg_end piece) (column + ?len)"
  have len: "unat ?len = unat (seg_end seg) - unat (seg_start seg)"
    using seg(1) by (simp add: in_range_def unat_sub le_unat less_unat)
  have fits: "unat column + (unat (seg_end seg) - unat (seg_start seg)) < 2 ^ 32" using seg by (simp add: in_range_def)
  then have stop: "unat ?stop = stop" by (simp add: stop_def unat_min unat_add_u32 len)
  have start: "unat ?start = start" by (simp add: start_def unat_max)
  show "start < stop \<longleftrightarrow> through_piece seg column piece \<noteq> None"
    by (simp add: through_piece_def Let_def le_unat start stop)
  assume new: "through_piece seg column piece = Some new"
  then have less: "start < stop" by (simp add: through_piece_def Let_def le_unat start stop split: if_splits)
  have offs: "unat (?start - column) = start - unat column" "unat (?stop - column) = stop - unat column"
    "unat (?start - seg_start piece) = start - unat (seg_start piece)"
    using less unfolding start [symmetric] stop [symmetric]
    by (auto simp: unat_sub le_unat unat_max start stop start_def)
  have ends: "unat (seg_start seg) + (start - unat column) < 2 ^ 32" "unat (seg_start seg) + (stop - unat column) < 2 ^ 32"
    using window_inside(1) [OF less [unfolded start_def stop_def]] unsigned_less [of "seg_end seg", where ?'a = nat] seg(1)
    by (simp_all add: start_def stop_def in_range_def less_unat)
  have "unat k + (start - unat (seg_start piece)) < 2 ^ 32" if "seg_origin piece = Copied l k" for l k
    using less piece that by (auto simp: start_def stop_def in_range_def)
  then show "unat (seg_start new) = unat (seg_start seg) + (start - unat column)
      \<and> unat (seg_end new) = unat (seg_start seg) + (stop - unat column)
      \<and> (case seg_origin piece of
           Qualifier \<Rightarrow> seg_origin new = Qualifier
         | Copied l k \<Rightarrow> \<exists>k'. seg_origin new = Copied l k' \<and> unat k' = unat k + (start - unat (seg_start piece)))"
    using new ends offs by (auto simp: through_piece_def Let_def unat_add_u32 split: if_splits column_origin.splits)
qed

lemma window_arith:
  fixes a e k p q c :: nat
  assumes "a \<le> c" "c < e"
  shows "a + (max p k - k) \<le> c \<and> c < a + (min q (k + (e - a)) - k) \<longleftrightarrow> p \<le> k + (c - a) \<and> k + (c - a) < q"
  using assms by (cases "p \<le> k"; cases "q \<le> k + (e - a)"; cases "q \<le> k") auto

lemma window_offset:
  fixes a k p c :: nat
  assumes "a \<le> c" "p \<le> k + (c - a)"
  shows "n + (max p k - p) + (c - (a + (max p k - k))) = n + (k + (c - a) - p)"
  using assms by (cases "p \<le> k") auto

lemma through_piece_covers:
  assumes "in_range seg" "in_range piece" "seg_origin seg = Copied line column" "covers c seg"
  defines "d \<equiv> unat column + (c - unat (seg_start seg))"
  shows "case through_piece seg column piece of
      None \<Rightarrow> \<not> covers d piece
    | Some new \<Rightarrow> (covers c new \<longleftrightarrow> covers d piece) \<and> (covers d piece \<longrightarrow> means new c = means piece d)"
proof (cases "through_piece seg column piece")
  case None
  then have "\<not> max (unat (seg_start piece)) (unat column)
      < min (unat (seg_end piece)) (unat column + (unat (seg_end seg) - unat (seg_start seg)))"
    unfolding through_piece_unat(1) [OF assms(1,3,2)] by simp
  then show ?thesis unfolding None option.case covers_def d_def using assms(4) by (auto simp: covers_def)
next
  case (Some new)
  note new = through_piece_unat(2) [OF assms(1,3,2) Some]
  have c: "unat (seg_start seg) \<le> c" "c < unat (seg_end seg)" using assms(4) by (auto simp: covers_def)
  have "covers c new \<longleftrightarrow> covers d piece"
    unfolding covers_def d_def conjunct1 [OF new] conjunct1 [OF conjunct2 [OF new]] by (rule window_arith [OF c])
  moreover have "means new c = means piece d" if covered: "covers d piece"
  proof (cases "seg_origin piece")
    case Qualifier
    then show ?thesis using new by (simp add: means_def)
  next
    case (Copied l k)
    then obtain k' where k': "seg_origin new = Copied l k'"
      "unat k' = unat k + (max (unat (seg_start piece)) (unat column) - unat (seg_start piece))" using new by auto
    have "unat (seg_start piece) \<le> unat column + (c - unat (seg_start seg))" using covered by (simp add: covers_def d_def)
    from window_offset [OF c(1) this] show ?thesis
      by (simp add: means_def Copied k' conjunct1 [OF new] d_def)
  qed
  ultimately show ?thesis by (simp add: Some)
qed

lemma compose_segment_means:
  assumes "in_range seg" "\<And>line. line \<in> set inner \<Longrightarrow> ascending line" "covers c seg"
  shows "meaning (compose_segment inner seg) c
    = (case means seg c of Author l d \<Rightarrow> if l < length inner then meaning (inner ! l) d else Written | p \<Rightarrow> p)"
proof (cases "seg_origin seg")
  case Qualifier
  then show ?thesis using assms(3) by (simp add: compose_segment_def meaning_Cons means_def)
next
  case (Copied l column)
  let ?d = "unat column + (c - unat (seg_start seg))"
  have "meaning (filter_map (through_piece seg column) through) c = meaning through ?d" if "list_all in_range through" for through
    using that
  proof (induction through)
    case (Cons piece through)
    then show ?case using through_piece_covers [OF assms(1) _ Copied assms(3), of piece]
      by (auto simp: meaning_Cons split: option.splits)
  qed simp
  then show ?thesis using assms(2) by (auto simp: compose_segment_def Copied means_def get_def ascending_def)
qed

lemma compose_segment_within:
  assumes "in_range seg" "\<And>line. line \<in> set inner \<Longrightarrow> ascending line" "new \<in> set (compose_segment inner seg)"
  shows "in_range new \<and> seg_start seg \<le> seg_start new \<and> seg_end new \<le> seg_end seg"
proof (cases "seg_origin seg")
  case Qualifier
  then show ?thesis using assms by (simp add: compose_segment_def)
next
  case (Copied l column)
  then obtain through piece where piece: "piece \<in> set through" "through \<in> set inner" "through_piece seg column piece = Some new"
    using assms(3) by (auto simp: compose_segment_def set_filter_map get_def split: option.splits if_splits)
  then have range: "in_range piece" using assms(2) by (auto simp: ascending_def list_all_iff)
  note new = through_piece_unat(2) [OF assms(1) Copied range piece(3)]
  have less: "max (unat (seg_start piece)) (unat column) < min (unat (seg_end piece)) (unat column + (unat (seg_end seg) - unat (seg_start seg)))"
    by (rule iffD2 [OF through_piece_unat(1) [OF assms(1) Copied range]]) (simp add: piece(3))
  have order: "unat (seg_start seg) < unat (seg_end seg)" using assms(1) by (simp add: in_range_def less_unat)
  note inside = window_inside(1) [OF less order]
  have bounds: "seg_start seg \<le> seg_start new" "seg_start new < seg_end new" "seg_end new \<le> seg_end seg"
    unfolding le_unat less_unat conjunct1 [OF new] conjunct1 [OF conjunct2 [OF new]] using inside by blast+
  moreover have "in_range new"
  proof (cases "seg_origin piece")
    case Qualifier
    then show ?thesis using new bounds(2) by (simp add: in_range_def)
  next
    case (Copied l k)
    then obtain k' where k': "seg_origin new = Copied l k'"
      "unat k' = unat k + (max (unat (seg_start piece)) (unat column) - unat (seg_start piece))" using new by auto
    have "unat k + (unat (seg_end piece) - unat (seg_start piece)) < 2 ^ 32" using range Copied by (simp add: in_range_def)
    from window_inside(2) [OF less order this] show ?thesis
      using bounds(2) by (simp add: in_range_def k' conjunct1 [OF new] conjunct1 [OF conjunct2 [OF new]])
  qed
  ultimately show ?thesis by blast
qed

lemma compose_line_means:
  assumes "ascending line" "\<And>line. line \<in> set inner \<Longrightarrow> ascending line"
  shows "meaning (concat (map (compose_segment inner) line)) c
    = (case meaning line c of Author l d \<Rightarrow> if l < length inner then meaning (inner ! l) d else Written | p \<Rightarrow> p)"
  using assms(1)
proof (induction line)
  case (Cons seg line)
  then have seg: "in_range seg" and line: "ascending line" by (simp_all add: ascending_def)
  have inside: "covers c seg" if "list_ex (covers c) (compose_segment inner seg)"
    using that compose_segment_within [OF seg assms(2)] by (fastforce simp: list_ex_iff covers_def le_unat)
  show ?case
  proof (cases "covers c seg")
    case False
    then show ?thesis using inside Cons.IH [OF line] by (auto simp: meaning_append meaning_Cons)
  next
    case True
    have "\<not> covers c s" if "s \<in> set line" for s
      using True Cons.prems that by (auto simp: ascending_def covers_def le_unat)
    moreover have "\<not> covers c new" if "s \<in> set line" "new \<in> set (compose_segment inner s)" for s new
      using compose_segment_within [OF _ assms(2) that(2)] line that(1) True Cons.prems
      by (fastforce simp: ascending_def list_all_iff covers_def le_unat)
    ultimately have "meaning (concat (map (compose_segment inner) line)) c = Written"
      by (intro meaning_uncovered) (auto simp: list_ex_iff)
    then show ?thesis using True compose_segment_means [OF seg assms(2) True]
      by (auto simp: meaning_append meaning_Cons dest: meaning_uncovered)
  qed
qed simp

lemma through_piece_order:
  assumes "in_range seg" "seg_origin seg = Copied line column" "in_range p" "in_range q" "seg_end p \<le> seg_start q"
    "through_piece seg column p = Some p'" "through_piece seg column q = Some q'"
  shows "seg_end p' \<le> seg_start q'"
  unfolding le_unat conjunct1 [OF through_piece_unat(2) [OF assms(1,2,4,7)]]
    conjunct1 [OF conjunct2 [OF through_piece_unat(2) [OF assms(1,2,3,6)]]]
  using assms(5) by (auto simp: le_unat)

lemma compose_segment_ascending:
  assumes "in_range seg" "\<And>line. line \<in> set inner \<Longrightarrow> ascending line"
  shows "sorted_wrt (\<lambda>s t. seg_end s \<le> seg_start t) (compose_segment inner seg)"
proof (cases "seg_origin seg")
  case (Copied l column)
  have "sorted_wrt (\<lambda>s t. seg_end s \<le> seg_start t) (filter_map (through_piece seg column) through)" if "ascending through" for through
    using that
  proof (induction through)
    case (Cons p through)
    then have p: "in_range p" and through: "ascending through" by (simp_all add: ascending_def)
    have "seg_end p' \<le> seg_start q'" if new: "through_piece seg column p = Some p'" "q' \<in> set (filter_map (through_piece seg column) through)" for p' q'
    proof -
      obtain q where q: "q \<in> set through" "through_piece seg column q = Some q'" using new(2) by (auto simp: set_filter_map)
      then have "in_range q" "seg_end p \<le> seg_start q" using Cons.prems through by (auto simp: ascending_def list_all_iff)
      then show ?thesis using through_piece_order [OF assms(1) Copied p _ _ new(1) q(2)] by blast
    qed
    then show ?case using Cons.IH [OF through] by (cases "through_piece seg column p") simp_all
  qed simp
  then show ?thesis using assms(2) by (auto simp: compose_segment_def Copied get_def)
qed (simp add: compose_segment_def)

lemma compose_line_ascending:
  assumes "ascending line" "\<And>line. line \<in> set inner \<Longrightarrow> ascending line"
  shows "ascending (concat (map (compose_segment inner) line))"
  using assms(1)
proof (induction line)
  case (Cons seg line)
  then have seg: "in_range seg" and line: "ascending line" by (simp_all add: ascending_def)
  have within: "in_range new \<and> seg_start s \<le> seg_start new \<and> seg_end new \<le> seg_end s"
    if "in_range s" "new \<in> set (compose_segment inner s)" for s new
    by (rule compose_segment_within [OF that(1) assms(2) that(2)])
  have "seg_end p \<le> seg_start q" if "p \<in> set (compose_segment inner seg)" "s \<in> set line" "q \<in> set (compose_segment inner s)" for p q s
  proof -
    have "in_range s" "seg_end seg \<le> seg_start s" using Cons.prems line that(2) by (auto simp: ascending_def list_all_iff)
    then show ?thesis using within [OF seg that(1)] within [OF _ that(3)] by (meson order_trans)
  qed
  then show ?case using Cons.IH [OF line] compose_segment_ascending [OF seg assms(2)] within [OF seg]
    by (auto simp: ascending_def sorted_wrt_append list_all_iff)
qed (simp add: ascending_def)

definition column_meaning :: "segment list list \<Rightarrow> nat \<Rightarrow> nat \<Rightarrow> provenance" where
  "column_meaning cols l c = (if l < length cols then meaning (cols ! l) c else Written)"

lemma compose_columns_means:
  assumes "\<And>line. line \<in> set outer \<Longrightarrow> ascending line" "\<And>line. line \<in> set inner \<Longrightarrow> ascending line"
  shows "column_meaning (compose_columns outer inner) l c
    = (case column_meaning outer l c of Author l' c' \<Rightarrow> column_meaning inner l' c' | p \<Rightarrow> p)"
  using compose_line_means [OF assms(1) assms(2), of "outer ! l"]
  by (auto simp: column_meaning_def compose_columns_def split: provenance.split)

section \<open>The columns of an edited text\<close>

definition column_before :: "bytes \<Rightarrow> nat \<Rightarrow> nat" where
  "column_before source i = length (takeWhile (\<lambda>b. b \<noteq> newline) (rev (take i source)))"

definition provenance_of :: "bytes \<Rightarrow> origin \<Rightarrow> provenance" where
  "provenance_of source origin =
     (case origin of
        Copied_from at \<Rightarrow> Author (newlines_before source at) (column_before source at)
      | Generated_for anchor \<Rightarrow> Written
      | Qualifier_for anchor \<Rightarrow> Qualifies)"

lemma column_before_Suc:
  "i < length source \<Longrightarrow> column_before source (Suc i) = (if source ! i = newline then 0 else Suc (column_before source i))"
  by (simp add: column_before_def take_Suc_conv_app_nth)

lemma column_before_le: "column_before source i \<le> i"
  unfolding column_before_def by (rule order_trans [OF length_takeWhile_le]) simp

lemma newlines_before_upt: "i \<le> length source \<Longrightarrow> newlines_before source i = length (filter (\<lambda>j. source ! j = newline) [0..<i])"
  by (induction i) (simp_all add: newlines_before_Suc, simp add: newlines_before_def)

lemma line_starts_nth: "i \<le> length source \<Longrightarrow> line_starts source ! newlines_before source i = i - column_before source i"
proof (induction i)
  case 0
  then show ?case by (simp add: newlines_before_def line_starts_def)
next
  case (Suc i)
  then have i: "i < length source" "i \<le> length source" by simp_all
  show ?case
  proof (cases "source ! i = newline")
    case True
    have "[0..<length source] = [0..<i] @ i # [Suc i..<length source]"
      using upt_add_eq_append [of 0 i "length source - i"] i(1) upt_conv_Cons [of i "length source"] by simp
    then have "filter (\<lambda>j. source ! j = newline) [0..<length source] ! newlines_before source i = i"
      by (simp add: newlines_before_upt [OF i(2)] nth_append True)
    moreover have "newlines_before source i < length (filter (\<lambda>j. source ! j = newline) [0..<length source])"
      unfolding newlines_before_upt [OF i(2)] using i(1) True
      by (subst \<open>[0..<length source] = _\<close>) simp
    ultimately show ?thesis by (simp add: newlines_before_Suc [OF i(1)] column_before_Suc [OF i(1)] True line_starts_def)
  next
    case False
    then show ?thesis using Suc.IH [OF i(2)] column_before_le [of source i]
      by (simp add: newlines_before_Suc [OF i(1)] column_before_Suc [OF i(1)])
  qed
qed

lemma position_in_is:
  assumes "i \<le> length source"
  shows "position_in (line_starts source) i = (to_u32 (newlines_before source i), to_u32 (column_before source i))"
proof -
  have "sorted (line_starts source)"
    by (auto simp: line_starts_def sorted_map intro: sorted_wrt_filter sorted_wrt_mono_rel [of _ "(<)"])
  from sorted_takeWhile_le [OF this]
  have "length (takeWhile (\<lambda>start. start \<le> i) (line_starts source)) - 1 = newlines_before source i"
    by (simp add: line_starts_def newlines_before_indices filter_map o_def Suc_le_eq conj_commute)
  then show ?thesis using line_starts_nth [OF assms] column_before_le [of source i] by (simp add: position_in_def Let_def)
qed

text \<open>A line of runs that means what is listed.\<close>

definition line_means :: "segment list \<Rightarrow> provenance list \<Rightarrow> bool" where
  "line_means segs ps \<longleftrightarrow>
     ascending segs \<and> (\<forall>seg \<in> set segs. unat (seg_end seg) \<le> length ps)
     \<and> (\<forall>c. meaning segs c = (if c < length ps then ps ! c else Written))"

definition origin_means :: "column_origin option \<Rightarrow> nat \<Rightarrow> provenance" where
  "origin_means origin i =
     (case origin of
        None \<Rightarrow> Written
      | Some Qualifier \<Rightarrow> Qualifies
      | Some (Copied l k) \<Rightarrow> Author (unat l) (unat k + i))"

lemma ascending_snoc:
  "ascending (segs @ [seg]) \<longleftrightarrow> ascending segs \<and> in_range seg \<and> (\<forall>s \<in> set segs. seg_end s \<le> seg_start seg)"
  by (auto simp: ascending_def sorted_wrt_append)

lemma meaning_snoc:
  assumes "ascending (segs @ [seg])"
  shows "meaning (segs @ [seg]) c = (if covers c seg then means seg c else meaning segs c)"
proof -
  have "\<not> covers c s" if "s \<in> set segs" "covers c seg" for s
    using assms that by (auto simp: ascending_snoc covers_def le_unat)
  then show ?thesis by (auto simp: meaning_append meaning_Cons list_ex_iff dest: meaning_uncovered)
      (metis list_ex_iff meaning_uncovered)
qed

lemma line_means_snoc:
  assumes line: "line_means segs ps" and fits: "length ps + len < 2 ^ 32" "0 < len"
    and origin: "\<And>l k. origin = Copied l k \<Longrightarrow> unat k + len < 2 ^ 32"
    and start: "unat start = length ps"
  shows "line_means (segs @ [\<lparr>seg_start = start, seg_end = start + to_u32 len, seg_origin = origin\<rparr>])
    (ps @ map (origin_means (Some origin)) [0..<len])"
proof -
  let ?seg = "\<lparr>seg_start = start, seg_end = start + to_u32 len, seg_origin = origin\<rparr>"
  have stop: "unat (start + to_u32 len) = length ps + len"
    using fits by (simp add: unat_add_u32 unat_to_u32 start)
  have "in_range ?seg" using origin fits(2) by (auto simp: in_range_def less_unat stop start split: column_origin.split)
  then have asc: "ascending (segs @ [?seg])" using line by (auto simp: ascending_snoc line_means_def le_unat start)
  have "means ?seg c = origin_means (Some origin) (c - length ps)" for c
    by (simp add: means_def origin_means_def start split: column_origin.split)
  then have "meaning (segs @ [?seg]) c
      = (if c < length ps + len then (ps @ map (origin_means (Some origin)) [0..<len]) ! c else Written)" for c
    using line unfolding meaning_snoc [OF asc] by (auto simp: line_means_def covers_def start stop nth_append)
  moreover have "unat (seg_end s) \<le> length ps + len" if "s \<in> set (segs @ [?seg])" for s
    using that line by (auto simp: line_means_def stop trans_le_add1)
  ultimately show ?thesis using asc by (simp add: line_means_def)
qed

end
