(* ===== verification/Tr_Edited.thy ===== *)
theory Tr_Edited
  imports Tr_Columns
begin

text \<open>
  The columns of an edited text mean what its bytes say: each is read at the line and column the author
  wrote it, at a qualifier, or as the transpiler's.
\<close>

section \<open>Pushing runs\<close>

definition describes :: "bytes \<Rightarrow> provenance list list \<Rightarrow> provenance list \<Rightarrow> column_builder \<Rightarrow> bool" where
  "describes source ls acc b \<longleftrightarrow>
     input_starts b = line_starts source \<and> list_all2 line_means (built_columns b) ls
     \<and> line_means (open_segments b) acc \<and> unat (open_column b) = length acc"

fun feed :: "nat \<times> provenance \<Rightarrow> provenance list list \<times> provenance list \<Rightarrow> provenance list list \<times> provenance list" where
  "feed (b, p) (ls, acc) = (if b = newline then (ls @ [acc], []) else (ls, acc @ [p]))"

lemma carried_line_means:
  assumes line: "line_means segs ps" and segs: "segs \<noteq> []" "seg_end (last segs) = start" "carries_on (last segs) origin"
    and fits: "length ps + len < 2 ^ 32" "0 < len"
    and origin: "\<And>l k. origin = Copied l k \<Longrightarrow> unat k + len < 2 ^ 32"
    and start: "unat start = length ps"
  shows "line_means (butlast segs @ [(last segs)\<lparr>seg_end := start + to_u32 len\<rparr>]) (ps @ map (origin_means (Some origin)) [0..<len])"
proof -
  obtain ss s where ss: "segs = ss @ [s]" using segs(1) by (metis append_butlast_last_id)
  let ?s = "s\<lparr>seg_end := start + to_u32 len\<rparr>"
  have stop: "unat (start + to_u32 len) = length ps + len" using fits by (simp add: unat_add_u32 unat_to_u32 start)
  have asc: "ascending ss" "in_range s" "\<forall>t \<in> set ss. seg_end t \<le> seg_start s"
    using line by (simp_all add: line_means_def ss ascending_snoc)
  have e: "unat (seg_end s) = length ps" "carries_on s origin" using segs(2,3) start by (simp_all add: ss)
  have less: "unat (seg_start s) < length ps" using asc(2) by (simp add: in_range_def less_unat e(1))
  have joined: "\<exists>l k k'. seg_origin s = Copied l k \<and> origin = Copied l k' \<and> unat k' = unat k + (length ps - unat (seg_start s))
      \<or> seg_origin s = Qualifier \<and> origin = Qualifier"
  proof (cases "seg_origin s")
    case (Copied l k)
    then obtain k' where k': "origin = Copied l k'" "k' = k + (seg_end s - seg_start s)"
      using e(2) by (auto simp: carries_on_def split: column_origin.splits)
    have "unat (seg_end s - seg_start s) = length ps - unat (seg_start s)"
      using asc(2) by (simp add: unat_sub in_range_def e(1) le_unat less_unat)
    moreover have "unat k + (length ps - unat (seg_start s)) < 2 ^ 32" using asc(2) by (simp add: in_range_def Copied e(1))
    ultimately show ?thesis using Copied k' by (simp add: unat_add_u32)
  qed (use e(2) in \<open>auto simp: carries_on_def split: column_origin.splits\<close>)
  have "in_range ?s"
    using joined origin less fits(2) by (auto simp: in_range_def less_unat stop split: column_origin.split)
  then have asc': "ascending (ss @ [?s])" using asc by (simp add: ascending_snoc)
  have "meaning (ss @ [?s]) c = (if c < length ps + len then (ps @ map (origin_means (Some origin)) [0..<len]) ! c else Written)" for c
  proof (cases "unat (seg_start s) \<le> c \<and> c < length ps + len")
    case False
    then have "\<not> covers c ?s" "\<not> covers c s" using less by (auto simp: covers_def stop e(1))
    moreover have "meaning segs c = (if c < length ps then ps ! c else Written)" using line by (simp add: line_means_def)
    moreover have "ascending (ss @ [s])" using line by (simp add: line_means_def ss)
    ultimately show ?thesis using False less by (auto simp: ss meaning_snoc asc' nth_append)
  next
    case True
    then have "meaning (ss @ [?s]) c = means ?s c" by (simp add: meaning_snoc asc' covers_def stop)
    moreover have "means ?s c = means s c" by (simp add: means_def split: column_origin.split)
    moreover have "means s c = ps ! c" if "c < length ps"
    proof -
      have "meaning segs c = ps ! c" using line that by (simp add: line_means_def)
      moreover have "ascending (ss @ [s])" using line by (simp add: line_means_def ss)
      ultimately show ?thesis using True that by (simp add: ss meaning_snoc covers_def e(1))
    qed
    moreover have "means s c = origin_means (Some origin) (c - length ps)" if "\<not> c < length ps"
      using joined that less by (auto simp: means_def origin_means_def)
    ultimately show ?thesis using True by (auto simp: nth_append)
  qed
  moreover have "unat (seg_end t) \<le> length ps" if "t \<in> set ss" for t using line that by (simp add: line_means_def ss)
  ultimately show ?thesis using asc' by (auto simp: ss line_means_def stop trans_le_add1)
qed

lemma push_segment_describes:
  assumes "describes source ls acc b" "length acc + len < 2 ^ 32"
    and "\<And>l k. origin = Some (Copied l k) \<Longrightarrow> unat k + len < 2 ^ 32"
  shows "describes source ls (acc @ map (origin_means origin) [0..<len]) (push_segment len origin b)"
proof -
  note b = assms(1) [unfolded describes_def]
  have column: "unat (open_column b + to_u32 len) = length acc + len" using assms(2) b by (simp add: unat_add_u32 unat_to_u32)
  show ?thesis
  proof (cases origin)
    case None
    have "line_means (open_segments b) (acc @ map (origin_means None) [0..<len])"
      using b by (auto simp: line_means_def origin_means_def nth_append trans_le_add1)
    then show ?thesis using b column by (simp add: push_segment_def Let_def None describes_def)
  next
    case (Some o')
    show ?thesis
    proof (cases "len = 0")
      case True
      then have "unat (open_column b + to_u32 0) = length acc" using column by simp
      with True b show ?thesis by (simp add: push_segment_def Let_def Some describes_def)
    next
      case False
      have "line_means (open_segments (push_segment len origin b)) (acc @ map (origin_means (Some o')) [0..<len])"
        using b assms(2,3) False carried_line_means [of "open_segments b" acc "open_column b" o' len]
          line_means_snoc [of "open_segments b" acc len o' "open_column b"]
        by (auto simp: push_segment_def Let_def Some)
      then show ?thesis using b column False by (auto simp: push_segment_def Let_def Some describes_def)
    qed
  qed
qed

lemma push_newline_describes:
  "describes source ls acc b \<Longrightarrow> describes source (ls @ [acc]) [] (push_newline b)"
  by (auto simp: describes_def push_newline_def line_means_def ascending_def list_all2_appendI)

lemma fold_feed_piece: "newline \<notin> fst ` set xs \<Longrightarrow> fold feed xs (ls, acc) = (ls, acc @ map snd xs)"
  by (induction xs arbitrary: acc) auto

text \<open>A text as its first line and, each behind a line end, the others.\<close>

lemma split_newline_nonempty [simp]: "split_newline s \<noteq> []"
  by (induction s) auto

lemma split_newline_free: "p \<in> set (split_newline s) \<Longrightarrow> newline \<notin> set p"
proof (induction s arbitrary: p)
  case (Cons b s)
  then show ?case
    by (cases "b = newline"; cases "split_newline s") (auto dest: list.set_sel(2))
qed simp

lemma join_split_newline: "hd (split_newline s) @ concat (map (\<lambda>p. newline # p) (tl (split_newline s))) = s"
proof (induction s)
  case (Cons b s)
  then show ?case by (cases "split_newline s") auto
qed simp

section \<open>Copied and written text\<close>

lemma piece_positions:
  assumes "newline \<notin> set piece" "\<And>i. i < length piece \<Longrightarrow> at + i < length source \<and> source ! (at + i) = piece ! i" "at \<le> length source"
    "i \<le> length piece"
  shows "newlines_before source (at + i) = newlines_before source at \<and> column_before source (at + i) = column_before source at + i"
  using assms(4)
proof (induction i)
  case (Suc i)
  then have "at + i < length source" "source ! (at + i) \<noteq> newline" using assms(1) assms(2) [of i] by (auto simp: in_set_conv_nth)
  then show ?case using Suc by (simp add: newlines_before_Suc column_before_Suc)
qed simp

definition seen :: "bytes \<Rightarrow> (nat \<times> origin) list \<Rightarrow> (nat \<times> provenance) list" where
  "seen source xs = map (\<lambda>(b, origin). (b, provenance_of source origin)) xs"

lemma seen_simps [simp]:
  "seen source [] = []" "seen source ((b, origin) # xs) = (b, provenance_of source origin) # seen source xs"
  "seen source (xs @ ys) = seen source xs @ seen source ys" "length (seen source xs) = length xs" "map fst (seen source xs) = map fst xs"
  by (auto simp: seen_def)

lemma map_snd_seen_said: "map snd (seen source (said (s, origin))) = map (\<lambda>i. provenance_of source (shift origin i)) [0..<length s]"
  by (rule nth_equalityI) (simp_all add: seen_def said.simps)

lemma fold_feed_said: "newline \<notin> set s \<Longrightarrow> fold feed (seen source (said (s, origin))) (ls, acc) = (ls, acc @ map snd (seen source (said (s, origin))))"
  by (rule fold_feed_piece) (metis fst_conv list.set_map map_fst_said seen_simps(5))

lemma length_said [simp]: "length (said p) = length (fst p)"
  by (metis length_map map_fst_said)

text \<open>A builder that has taken in some bytes.\<close>

definition took :: "bytes \<Rightarrow> (nat \<times> provenance) list \<Rightarrow> column_builder \<Rightarrow> bool" where
  "took source xs b \<longleftrightarrow> describes source (fst (fold feed xs ([], []))) (snd (fold feed xs ([], []))) b"

lemma feed_length: "length (snd (fold feed xs s)) \<le> length (snd s) + length xs"
proof (induction xs arbitrary: s)
  case (Cons x xs)
  show ?case using Cons.IH [of "feed x s"] by (cases x; cases s) (auto split: if_splits)
qed simp

lemma took_piece:
  assumes "took source xs b" "newline \<notin> set piece" "length xs + length piece < 2 ^ 32"
    and "\<And>l k. origin = Some (Copied l k) \<Longrightarrow> unat k + length piece < 2 ^ 32"
    and "map snd (seen source (said (piece, origin0))) = map (origin_means origin) [0..<length piece]"
  shows "took source (xs @ seen source (said (piece, origin0))) (push_segment (length piece) origin b)"
proof -
  obtain ls acc where fed: "fold feed xs ([], []) = (ls, acc)" by fastforce
  have "length acc + length piece < 2 ^ 32" using feed_length [of xs "([], [])"] assms(3) by (simp add: fed)
  then have "describes source ls (acc @ map (origin_means origin) [0..<length piece]) (push_segment (length piece) origin b)"
    using assms(1,4) by (intro push_segment_describes) (simp_all add: took_def fed)
  then show ?thesis by (simp add: took_def fed fold_feed_said assms(2,5))
qed

lemma took_newline: "took source xs b \<Longrightarrow> took source (xs @ [(newline, p)]) (push_newline b)"
  by (cases "fold feed xs ([], [])") (simp add: took_def push_newline_describes)

definition true_copy :: "bytes \<Rightarrow> nat \<Rightarrow> bytes \<Rightarrow> bool" where
  "true_copy source at s \<longleftrightarrow> at \<le> length source \<and> (\<forall>i < length s. at + i < length source \<and> source ! (at + i) = s ! i)"

lemma true_copy_append: "true_copy source at (s @ t) \<Longrightarrow> true_copy source at s \<and> true_copy source (at + length s) t"
  unfolding true_copy_def
proof (intro conjI allI impI; (elim conjE)?)
  assume true: "at \<le> length source" "\<forall>i<length (s @ t). at + i < length source \<and> source ! (at + i) = (s @ t) ! i"
  show "at + length s \<le> length source"
    using true(1) true(2) [rule_format, of "length s - 1"] by (cases s) auto
  fix i
  show "i < length s \<Longrightarrow> at + i < length source" "i < length s \<Longrightarrow> source ! (at + i) = s ! i"
    using true(2) [rule_format, of i] by (auto simp: nth_append)
  show "i < length t \<Longrightarrow> at + length s + i < length source" "i < length t \<Longrightarrow> source ! (at + length s + i) = t ! i"
    using true(2) [rule_format, of "length s + i"] by (auto simp: add.assoc)
qed

lemma took_copied_piece:
  assumes "took source xs b" "newline \<notin> set piece" "length xs + length piece < 2 ^ 32" "length source < 2 ^ 32" "true_copy source at piece"
  shows "took source (xs @ seen source (said (piece, Copied_from at))) (copied_piece piece at b)"
proof -
  let ?l = "to_u32 (newlines_before source at)" and ?k = "to_u32 (column_before source at)"
  have at: "at \<le> length source" and true: "\<And>i. i < length piece \<Longrightarrow> at + i < length source \<and> source ! (at + i) = piece ! i"
    using assms(5) by (auto simp: true_copy_def)
  have l: "unat ?l = newlines_before source at" using newlines_before_le [of source at] assms(4) by (simp add: unat_to_u32)
  have k: "unat ?k = column_before source at" using column_before_le [of source at] at assms(4) by (simp add: unat_to_u32)
  have starts: "input_starts b = line_starts source" using assms(1) by (simp add: took_def describes_def)
  have "at + length piece \<le> length source" using true_copy_append [of source at piece "[]"] assms(5)
    by (cases "piece = []") (use at true [of "length piece - 1"] in \<open>auto simp: Suc_le_eq\<close>)
  then have "unat ?k + length piece < 2 ^ 32" using column_before_le [of source at] assms(4) k by simp
  then have "took source (xs @ seen source (said (piece, Copied_from at))) (push_segment (length piece) (Some (Copied ?l ?k)) b)"
    using piece_positions [OF assms(2) true at]
    by (intro took_piece assms) (auto simp: map_snd_seen_said origin_means_def l k provenance_of_def)
  then show ?thesis by (simp add: copied_piece_def starts position_in_is [OF at])
qed

lemma took_copied_pieces:
  assumes "took source xs b" "\<And>p. p \<in> set ps \<Longrightarrow> newline \<notin> set p" "length source < 2 ^ 32"
    and "length xs + length (concat (map (\<lambda>p. newline # p) ps)) < 2 ^ 32" "true_copy source at (concat (map (\<lambda>p. newline # p) ps))"
  shows "took source (xs @ seen source (said (concat (map (\<lambda>p. newline # p) ps), Copied_from at))) (copied_pieces ps at b)"
  using assms(1,2,4,5)
proof (induction ps arbitrary: xs b at)
  case (Cons p ps)
  let ?rest = "concat (map (\<lambda>p. newline # p) ps)"
  have true: "true_copy source (Suc at) p" "true_copy source (Suc at + length p) ?rest"
    using true_copy_append [of source at "[newline]" "p @ ?rest"] true_copy_append [of source "Suc at" p ?rest] Cons.prems(4) by auto
  let ?xs = "xs @ [(newline, provenance_of source (Copied_from at))]"
  have "took source (?xs @ seen source (said (p, Copied_from (Suc at)))) (copied_piece p (Suc at) (push_newline b))"
    using Cons.prems by (intro took_copied_piece took_newline true(1) assms(3)) auto
  from Cons.IH [OF this] Cons.prems(2,3) true(2)
  show ?case by (simp add: said_append)
qed simp

lemma took_copied:
  assumes "took source xs b" "length source < 2 ^ 32" "length xs + length s < 2 ^ 32" "true_copy source at s"
  shows "took source (xs @ seen source (said (s, Copied_from at))) (push_copied_text s at b)"
proof -
  let ?p = "hd (split_newline s)" and ?ps = "tl (split_newline s)"
  let ?rest = "concat (map (\<lambda>p. newline # p) ?ps)"
  have s: "s = ?p @ ?rest" by (rule join_split_newline [symmetric])
  have free: "newline \<notin> set ?p" "\<And>p. p \<in> set ?ps \<Longrightarrow> newline \<notin> set p"
    using split_newline_free [of _ s] by (simp_all add: list.set_sel(2))
  have len: "length s = length ?p + length ?rest" by (subst s) simp
  have true: "true_copy source at ?p" "true_copy source (at + length ?p) ?rest"
    using true_copy_append [of source at ?p ?rest] assms(4) s by simp_all
  have first: "took source (xs @ seen source (said (?p, Copied_from at))) (copied_piece ?p at b)"
    using assms(1,3) len by (intro took_copied_piece assms(2) free(1) true(1)) auto
  have "took source ((xs @ seen source (said (?p, Copied_from at))) @ seen source (said (?rest, Copied_from (at + length ?p)))) (push_copied_text s at b)"
    unfolding push_copied_text_def Let_def
    using assms(3) len by (intro took_copied_pieces first free(2) assms(2) true(2)) (auto simp: said.simps)
  moreover have "said (s, Copied_from at) = said (?p, Copied_from at) @ said (?rest, Copied_from (at + length ?p))"
    by (subst s) (simp add: said_append)
  ultimately show ?thesis by simp
qed

text \<open>Written text: nothing of it is copied.\<close>

definition uniform :: "bytes \<Rightarrow> origin \<Rightarrow> column_origin option \<Rightarrow> bool" where
  "uniform source origin written \<longleftrightarrow>
     (\<forall>i. shift origin i = origin \<and> provenance_of source origin = origin_means written i) \<and> (\<forall>l k. written \<noteq> Some (Copied l k))"

lemma took_written_piece:
  assumes "uniform source origin written" "took source xs b" "newline \<notin> set piece" "length xs + length piece < 2 ^ 32"
  shows "took source (xs @ seen source (said (piece, origin))) (push_segment (length piece) written b)"
  using assms by (intro took_piece) (auto simp: uniform_def map_snd_seen_said)

lemma took_written_pieces:
  assumes "uniform source origin written" "took source xs b" "\<And>p. p \<in> set ps \<Longrightarrow> newline \<notin> set p"
    and "length xs + length (concat (map (\<lambda>p. newline # p) ps)) < 2 ^ 32"
  shows "took source (xs @ seen source (said (concat (map (\<lambda>p. newline # p) ps), origin)))
    (fold (\<lambda>piece b. push_segment (length piece) written (push_newline b)) ps b)"
  using assms(2-4)
proof (induction ps arbitrary: xs b)
  case (Cons p ps)
  have same: "shift origin i = origin" for i using assms(1) by (simp add: uniform_def)
  have "took source ((xs @ [(newline, provenance_of source origin)]) @ seen source (said (p, origin)))
      (push_segment (length p) written (push_newline b))"
    using Cons.prems by (intro took_written_piece assms(1) took_newline) auto
  from Cons.IH [OF this] Cons.prems(2,3) show ?case by (simp add: said_append same)
qed simp

lemma took_written:
  assumes "uniform source origin (if q then Some Qualifier else None)" "took source xs b" "length xs + length s < 2 ^ 32"
  shows "took source (xs @ seen source (said (s, origin))) (push_written_text s q b)"
proof -
  let ?p = "hd (split_newline s)" and ?ps = "tl (split_newline s)"
  let ?rest = "concat (map (\<lambda>p. newline # p) ?ps)"
  have s: "s = ?p @ ?rest" by (rule join_split_newline [symmetric])
  have free: "newline \<notin> set ?p" "\<And>p. p \<in> set ?ps \<Longrightarrow> newline \<notin> set p"
    using split_newline_free [of _ s] by (simp_all add: list.set_sel(2))
  have len: "length s = length ?p + length ?rest" by (subst s) simp
  have first: "took source (xs @ seen source (said (?p, origin))) (push_segment (length ?p) (if q then Some Qualifier else None) b)"
    using assms(3) len by (intro took_written_piece assms(1,2) free(1)) auto
  have "took source ((xs @ seen source (said (?p, origin))) @ seen source (said (?rest, origin))) (push_written_text s q b)"
    unfolding push_written_text_def Let_def
    using assms(3) len by (intro took_written_pieces assms(1) first free(2)) auto
  moreover have "said (s, origin) = said (?p, origin) @ said (?rest, origin)"
    using assms(1) by (subst s) (simp add: said_append uniform_def)
  ultimately show ?thesis by simp
qed

section \<open>Edits\<close>

lemma took_run:
  assumes "took source xs b" "length source < 2 ^ 32" "length xs + length (fst p) < 2 ^ 32" "fst p \<noteq> []" "true_run source p"
  shows "took source (xs @ seen source (said p)) (push_columns_run p b)"
proof -
  obtain s origin where p: "p = (s, origin)" by (cases p)
  show ?thesis
  proof (cases origin)
    case (Copied_from at)
    have "true_copy source at s"
      using assms(4,5) unfolding p Copied_from true_run_def true_copy_def by (fastforce dest: spec [of _ 0])
    then show ?thesis using took_copied [OF assms(1,2)] assms(3) by (simp add: p Copied_from)
  qed (use took_written [of source origin _ xs b s] assms(1,3) in
      \<open>simp_all add: p uniform_def provenance_of_def origin_means_def split: if_splits\<close>)
qed

lemma took_runs:
  assumes "took source xs b" "length source < 2 ^ 32" "length xs + length (concat (map said ps)) < 2 ^ 32"
    "\<And>p. p \<in> set ps \<Longrightarrow> fst p \<noteq> [] \<and> true_run source p"
  shows "took source (xs @ seen source (concat (map said ps))) (fold push_columns_run ps b)"
  using assms(1,3,4)
proof (induction ps arbitrary: xs b)
  case (Cons p ps)
  then have "took source (xs @ seen source (said p)) (push_columns_run p b)" by (intro took_run assms(2)) auto
  from Cons.IH [OF this] Cons.prems(2,3) show ?case by simp
qed simp

lemma faithful_runs_nonempty: "faithful source r \<Longrightarrow> p \<in> set (runs r) \<Longrightarrow> fst p \<noteq> [] \<and> true_run source p"
proof -
  assume r: "faithful source r" and p: "p \<in> set (runs r)"
  then obtain ps where ps: "tidy ps" "r = of_pieces ps" by (auto simp: faithful_def well_made_def)
  with p have "fst p \<noteq> []" by (intro tidy_nonempty [OF ps(1)]) simp
  then show ?thesis using faithful_runs [OF r p] by blast
qed

lemma true_copy_part: "a \<le> b \<Longrightarrow> b \<le> length source \<Longrightarrow> true_copy source a (part a b source)"
  by (auto simp: true_copy_def)

lemma edited_from_took:
  assumes "edits_fit input pos edits" "length input < 2 ^ 32" "took input xs b"
    "length xs + length (edited_bytes input pos edits) < 2 ^ 32"
  shows "\<exists>b'. edited_from input pos edits s b = Some (s @ map fst (edited_bytes input pos edits), b')
    \<and> took input (xs @ seen input (edited_bytes input pos edits)) b'"
  using assms
proof (induction input pos edits arbitrary: xs b s rule: edits_fit.induct)
  case (1 input pos)
  then have "str_slice input pos (length input) = Some (part pos (length input) input)"
    by (simp add: str_slice_def char_boundary_def)
  with 1 took_copied [OF 1(3,2), of "part pos (length input) input" pos] true_copy_part [of pos "length input" input]
  show ?case by simp
next
  case (2 input pos start stop r edits)
  have slice: "str_slice input pos start = Some (part pos start input)" using 2(2) by (simp add: str_slice_def)
  then have bounds: "pos \<le> start" "start \<le> length input" using str_slice_SomeD by blast+
  have r: "well_made r" "faithful input r" using 2(2) by (auto simp: faithful_def)
  let ?xs = "xs @ seen input (said (part pos start input, Copied_from pos))"
  have "took input ?xs (push_copied_text (part pos start input) pos b)"
    using 2(3-5) true_copy_part [OF bounds] by (intro took_copied) auto
  from took_runs [OF this 2(3), of "runs r"] 2(5) faithful_runs_nonempty [OF r(2)]
  have "took input (?xs @ seen input (byte_origins r)) (fold push_columns_run (runs r) (push_copied_text (part pos start input) pos b))"
    by (simp add: byte_origins_def)
  from 2(1) [OF _ 2(3) this, of "s @ part pos start input @ repl_text r"] 2(2,5) slice well_made_text [OF r(1)]
  show ?case by auto
qed

text \<open>The lines of what was taken in.\<close>

definition stripped_lines :: "(nat \<times> 'a) list \<Rightarrow> 'a list list" where
  "stripped_lines xs = map (\<lambda>l. map snd (filter (\<lambda>x. fst x \<noteq> newline) l)) (output_lines xs)"

lemma stripped_open: "newline \<notin> fst ` set xs \<Longrightarrow> stripped_lines xs = (if xs = [] then [] else [map snd xs])"
  unfolding stripped_lines_def by (simp add: output_lines_open) (metis (mono_tags, lifting) filter_True image_eqI)

lemma stripped_closed:
  "newline \<notin> fst ` set xs \<Longrightarrow> fst x = newline \<Longrightarrow> stripped_lines (xs @ x # ys) = map snd xs # stripped_lines ys"
  unfolding stripped_lines_def by (simp add: output_lines_closed) (metis (mono_tags, lifting) filter_True image_eqI)

lemma fed_lines:
  assumes "newline \<notin> fst ` set acc"
  shows "ls @ stripped_lines (acc @ xs)
    = (let (ls', acc') = fold feed xs (ls, map snd acc)
       in if acc @ xs \<noteq> [] \<and> fst (last (acc @ xs)) \<noteq> newline then ls' @ [acc'] else ls')"
  using assms
proof (induction xs arbitrary: ls acc)
  case Nil
  then have "acc \<noteq> [] \<Longrightarrow> fst (last acc) \<noteq> newline" by (metis image_eqI last_in_set)
  with Nil show ?case by (simp add: stripped_open)
next
  case (Cons x xs)
  obtain b p where x: "x = (b, p)" by (cases x)
  show ?case
  proof (cases "b = newline")
    case True
    then have closed: "stripped_lines (acc @ x # xs) = map snd acc # stripped_lines xs"
      by (intro stripped_closed Cons.prems) (simp add: x)
    show ?thesis
    proof (cases "xs = []")
      case True
      then show ?thesis using closed \<open>b = newline\<close> by (simp add: x stripped_lines_def)
    next
      case False
      then show ?thesis using closed \<open>b = newline\<close> Cons.IH [of "[]" "ls @ [map snd acc]"] by (simp add: x)
    qed
  next
    case False
    then show ?thesis using Cons.prems Cons.IH [of "acc @ [x]" ls] by (simp add: x)
  qed
qed

lemma edited_means:
  assumes "edits_fit input 0 edits" "length input < 2 ^ 32" "length (edited_text input edits) < 2 ^ 32"
  shows "\<exists>cols. edited input edits = Some (edited_text input edits, cols)
    \<and> list_all2 line_means cols (stripped_lines (seen input (edited_bytes input 0 edits)))"
proof -
  let ?xs = "seen input (edited_bytes input 0 edits)"
  have "took input [] (new_column_builder input)" by (simp add: took_def describes_def new_column_builder_def line_means_def ascending_def)
  from edited_from_took [OF assms(1,2) this, of "[]"] assms(3) obtain b' where
    b': "edited_from input 0 edits [] (new_column_builder input) = Some (edited_text input edits, b')" "took input ?xs b'"
    by (auto simp: edited_text_def)
  obtain ls acc where fed: "fold feed ?xs ([], []) = (ls, acc)" by fastforce
  have chars: "map fst ?xs = edited_text input edits" by (simp add: edited_text_def)
  have "?xs \<noteq> [] \<and> fst (last ?xs) \<noteq> newline \<longleftrightarrow> edited_text input edits \<noteq> [] \<and> last (edited_text input edits) \<noteq> newline"
    unfolding chars [symmetric] by (cases "?xs = []") (simp_all add: last_map del: seen_simps)
  with fed_lines [of "[]" "[]" ?xs] have lines: "stripped_lines ?xs
      = (if edited_text input edits \<noteq> [] \<and> last (edited_text input edits) \<noteq> newline then ls @ [acc] else ls)"
    by (simp add: fed)
  have "list_all2 line_means (built_columns b') ls" "line_means (open_segments b') acc"
    using b'(2) by (simp_all add: took_def fed describes_def)
  then have "list_all2 line_means (finish_columns (edited_text input edits) b') (stripped_lines ?xs)"
    unfolding lines finish_columns_def by (simp add: list_all2_appendI)
  then show ?thesis using b'(1) by (simp add: edited_def)
qed

lemma length_output_lines: "length (output_lines xs) = line_count (map fst xs)"
proof (induction xs)
  case (Cons x xs)
  have "output_lines xs = [] \<longleftrightarrow> xs = []" by (cases xs) (auto split: list.split)
  with Cons show ?case by (cases "xs = []") (auto simp: line_count_def newline_count_def split: list.split)
qed (simp add: line_count_def newline_count_def)

definition byte_provenance :: "(nat \<times> provenance) list \<Rightarrow> nat \<Rightarrow> nat \<Rightarrow> provenance" where
  "byte_provenance xs l c =
     (if l < length (stripped_lines xs) \<and> c < length (stripped_lines xs ! l) then stripped_lines xs ! l ! c else Written)"

section \<open>Properties\<close>

text \<open>
  C12. For edits that ascend and copy what the source has, the columns of the edited text have one entry
  per line, their runs ascend, and at every line and column they say of the byte there what was written:
  the author's, at the line and column of the source it was copied from, a qualifier, or the
  transpiler's.
\<close>

theorem edited_columns_say_where_bytes_are_from:
  assumes "edits_fit input 0 edits" "length input < 2 ^ 32" "length (edited_text input edits) < 2 ^ 32"
  shows "\<exists>cols. edited input edits = Some (edited_text input edits, cols)
    \<and> length cols = line_count (edited_text input edits) \<and> list_all ascending cols
    \<and> (\<forall>l c. column_meaning cols l c = byte_provenance (seen input (edited_bytes input 0 edits)) l c)"
proof -
  let ?xs = "seen input (edited_bytes input 0 edits)"
  obtain cols where cols: "edited input edits = Some (edited_text input edits, cols)" "list_all2 line_means cols (stripped_lines ?xs)"
    using edited_means [OF assms] by blast
  have "length (stripped_lines ?xs) = line_count (edited_text input edits)"
    by (simp add: stripped_lines_def length_output_lines edited_text_def)
  moreover have "column_meaning cols l c = byte_provenance ?xs l c" for l c
    using cols(2) by (auto simp: column_meaning_def byte_provenance_def line_means_def list_all2_conv_all_nth)
  ultimately show ?thesis using cols by (auto simp: list_all2_conv_all_nth list_all_length line_means_def)
qed

text \<open>A name read through a holder: \<^verbatim>\<open>p = Point(0)\<close> as \<^verbatim>\<open>p = _by_lazy.Point(0)\<close>.\<close>

definition lazy_source :: bytes where
  "lazy_source = lit ''p = Point(0)'' @ [newline]"

abbreviation through_holder :: "writing list" where
  "through_holder \<equiv> [Write_qualifier (lit ''_by_lazy.'') 4, Write_source 4 9]"

definition qualifying :: "edit list" where
  "qualifying = [(4, 9, the (assemble_all lazy_source through_holder empty_replacement))]"

lemma qualifying_fits: "edits_fit lazy_source 0 qualifying"
proof -
  have "assemble_all lazy_source through_holder empty_replacement \<noteq> None" by code_simp
  then obtain r where r: "assemble_all lazy_source through_holder empty_replacement = Some r" by blast
  have "faithful_code lazy_source (the (assemble_all lazy_source through_holder empty_replacement))" by code_simp
  then have "faithful lazy_source r" using assembled_faithful [OF r] unfolding r by simp
  moreover have "char_boundary lazy_source 0" "char_boundary lazy_source 4" "char_boundary lazy_source 9" "9 \<le> length lazy_source"
    by code_simp+
  ultimately show ?thesis unfolding qualifying_def r by simp
qed

theorem edited_columns_say_where_bytes_are_from_witness:
  "\<exists>cols. edited lazy_source qualifying = Some (lit ''p = _by_lazy.Point(0)'' @ [newline], cols)
     \<and> column_meaning cols 0 3 = Author 0 3 \<and> column_meaning cols 0 4 = Qualifies \<and> column_meaning cols 0 13 = Author 0 4
     \<and> column_meaning cols 0 20 = Author 0 11 \<and> column_meaning cols 0 21 = Written"
proof -
  have chars: "edited_text lazy_source qualifying = lit ''p = _by_lazy.Point(0)'' @ [newline]" by code_simp
  have "length lazy_source < 2 ^ 32" "length (edited_text lazy_source qualifying) < 2 ^ 32"
    unfolding chars by (simp_all add: lazy_source_def)
  from edited_columns_say_where_bytes_are_from [OF qualifying_fits this] obtain cols where
    cols: "edited lazy_source qualifying = Some (edited_text lazy_source qualifying, cols)"
    "\<And>l c. column_meaning cols l c = byte_provenance (seen lazy_source (edited_bytes lazy_source 0 qualifying)) l c" by blast
  have "map (byte_provenance (seen lazy_source (edited_bytes lazy_source 0 qualifying)) 0) [3, 4, 13, 20, 21]
      = [Author 0 3, Qualifies, Author 0 4, Author 0 11, Written]" by code_simp
  then show ?thesis using cols unfolding chars by simp
qed

text \<open>
  C13. Composing the columns of a text against an intermediate one with that one's against an input
  composes what they mean: a byte the outer step copied is what the inner step says of the place it was
  copied from, and any other is what the outer step says.
\<close>

theorem composing_columns_composes_meanings:
  assumes "list_all ascending outer" "list_all ascending inner"
  shows "column_meaning (compose_columns outer inner) l c
    = (case column_meaning outer l c of Author l' c' \<Rightarrow> column_meaning inner l' c' | p \<Rightarrow> p)"
  using assms by (intro compose_columns_means) (auto simp: list_all_iff)

theorem composing_columns_composes_meanings_witness:
  "column_meaning (compose_columns [[\<lparr>seg_start = 2, seg_end = 9, seg_origin = Copied 0 1\<rparr>]]
       [[\<lparr>seg_start = 0, seg_end = 3, seg_origin = Copied 5 7\<rparr>, \<lparr>seg_start = 3, seg_end = 4, seg_origin = Qualifier\<rparr>]]) 0 3
     = Author 5 9"
proof -
  let ?outer = "[[\<lparr>seg_start = 2, seg_end = 9, seg_origin = Copied 0 1\<rparr>]]"
  let ?inner = "[[\<lparr>seg_start = 0, seg_end = 3, seg_origin = Copied 5 7\<rparr>, \<lparr>seg_start = 3, seg_end = 4, seg_origin = Qualifier\<rparr>]]"
  have "list_all ascending ?outer" "list_all ascending ?inner" by (simp_all add: ascending_def in_range_def)
  from composing_columns_composes_meanings [OF this, of 0 3] show ?thesis
    by (simp add: column_meaning_def meaning_def covers_def means_def)
qed

text \<open>
  C23. After the final check a column said to be the author's is a byte of the text and the byte the author
  wrote at the line and column it names, whatever the steps before claimed.
\<close>

theorem verified_columns_are_the_authors_bytes:
  assumes "column_meaning (verified_columns cols s source) l c = Author l' c'"
  shows "l < length (py_lines s) \<and> c < length (py_lines s ! l) \<and> l' < length (py_lines source) \<and> c' < length (py_lines source ! l')
    \<and> py_lines s ! l ! c = py_lines source ! l' ! c'"
proof -
  let ?line = "verified_columns cols s source ! l"
  have "meaning ?line c = Author l' c'" "l < length cols"
    using assms by (auto simp: column_meaning_def verified_columns_def split: if_splits)
  then obtain seg where seg: "List.find (covers c) ?line = Some seg" "means seg c = Author l' c'"
    by (auto simp: meaning_def split: option.splits)
  then have "seg \<in> set ?line" "covers c seg" by (auto simp: find_Some_iff)
  moreover from this(1) \<open>l < length cols\<close> have l: "l < length (py_lines s)" "claim_holds (py_lines s ! l) (py_lines source) seg"
    by (auto simp: verified_columns_def nth_enumerate_eq get_def split: if_splits)
  moreover obtain line column where origin: "seg_origin seg = Copied line column" "l' = unat line"
    "c' = unat column + (c - unat (seg_start seg))"
    using seg(2) by (auto simp: means_def split: column_origin.splits)
  moreover have "\<exists>t. str_slice (py_lines s ! l) (unat (seg_start seg)) (unat (seg_end seg)) = Some t
      \<and> l' < length (py_lines source)
      \<and> str_slice (py_lines source ! l') (unat column) (unat column + unat (seg_end seg - seg_start seg)) = Some t"
    using l(2) origin by (auto simp: claim_holds_def Let_def get_def bind_eq_Some_conv split: if_splits) (metis option.exhaust)+
  then obtain t where t: "str_slice (py_lines s ! l) (unat (seg_start seg)) (unat (seg_end seg)) = Some t"
    "l' < length (py_lines source)"
    "str_slice (py_lines source ! l') (unat column) (unat column + unat (seg_end seg - seg_start seg)) = Some t" by blast
  moreover have "unat (seg_end seg - seg_start seg) = unat (seg_end seg) - unat (seg_start seg)"
    using str_slice_SomeD [OF t(1)] by (simp add: unat_sub le_unat)
  ultimately have c: "unat (seg_start seg) \<le> c" "c < unat (seg_end seg)"
    and parts: "unat (seg_end seg) \<le> length (py_lines s ! l)" "t = part (unat (seg_start seg)) (unat (seg_end seg)) (py_lines s ! l)"
    "unat column + (unat (seg_end seg) - unat (seg_start seg)) \<le> length (py_lines source ! l')"
    "t = part (unat column) (unat column + (unat (seg_end seg) - unat (seg_start seg))) (py_lines source ! l')"
    using str_slice_SomeD [OF t(1)] str_slice_SomeD [OF t(3)] by (auto simp: covers_def)
  have "t ! (c - unat (seg_start seg)) = py_lines s ! l ! c" unfolding parts(2) using c parts(1) by simp
  moreover have "t ! (c - unat (seg_start seg)) = py_lines source ! l' ! c'" unfolding parts(4) origin(3) using c parts(3) by simp
  ultimately show ?thesis using l(1) t(2) c parts(1,3) origin(3) by auto
qed

theorem verified_columns_are_the_authors_bytes_witness:
  "column_meaning (verified_columns [[\<lparr>seg_start = 0, seg_end = 2, seg_origin = Copied 0 1\<rparr>]] (lit ''bc'') (lit ''abc'')) 0 1 = Author 0 2
   \<and> py_lines (lit ''bc'') ! 0 ! 1 = py_lines (lit ''abc'') ! 0 ! 2"
proof -
  have "column_meaning (verified_columns [[\<lparr>seg_start = 0, seg_end = 2, seg_origin = Copied 0 1\<rparr>]] (lit ''bc'') (lit ''abc'')) 0 1 = Author 0 2"
    by (simp add: column_meaning_def verified_columns_def py_lines_def get_def claim_holds_def str_slice_def char_boundary_def
        part_def continuation_def Let_def meaning_def covers_def means_def)
  with verified_columns_are_the_authors_bytes [OF this] show ?thesis by blast
qed

end
