(* ===== verification/Spec2Isabelle.thy ===== *)
theory Spec2Isabelle
  imports BIR_Builder BIR_CallGraph BIR_Preserve Opt_Liveness Opt_Refcount Opt_AppendRuns Opt_DeadRegisters Opt_Coalesce Opt_CopyRuns
    Opt_FoldRuns Opt_Infallible Opt_StrItemCompare Opt_DeadAllocations Opt_FieldRuns Opt_StrConcatInt Res_Rendered Stage_Tree
    Tr_Edited
begin

text \<open>
  A verification library for the basedpython compiler: its intermediate representation and optimizer,
  the resource files a program imports, the maps of an edited text, and the tree a build writes.

  \<^bold>\<open>The program.\<close> The compiler lowers typed Python to BIR (\<^verbatim>\<open>src/crates/by_ir\<close>), a register machine
  of basic blocks with an exception edge per block; \<^verbatim>\<open>verify.rs\<close> checks what the lowering built;
  \<^verbatim>\<open>src/crates/by_opt\<close> rewrites it pass by pass, each pass a function over every function of a
  module; \<^verbatim>\<open>src/crates/by_codegen_c\<close> prints C. Beside it \<^verbatim>\<open>src/crates/by_transforms\<close> rewrites
  basedpython source to Python by edits of its text and keeps maps back, \<^verbatim>\<open>src/crates/by_resource\<close> turns a
  data file a program imports into a Python module, and \<^verbatim>\<open>src/crates/by_stage\<close> writes the transpiled
  project into an output tree with a map from generated lines to source lines. The library models BIR, its
  verifier and the passes listed below, the maps of edits, the resources, and the output tree.

  \<^bold>\<open>The representation\<close>
  \<^item> \<open>BIR_Prelude\<close>: character strings as code points, \<open>get\<close> (Rust's checked indexing), \<open>filter_map\<close>
    and the lemmas the components share.
  \<^item> \<open>BIR_Mangle\<close> (\<^verbatim>\<open>mangle.rs\<close>): a Python name as part of a C identifier. A mangled name delimits
    itself, so the splices of \<open>BIR_Function\<close> (\<^verbatim>\<open>function.rs\<close>: native, wrapper and struct symbols) read
    back one way.
  \<^item> \<open>BIR_RType\<close> (\<^verbatim>\<open>rtype.rs\<close>): the representations of a value, their C types, their error sentinels.
  \<^item> \<open>BIR_Ops\<close>, \<open>BIR_Access\<close> (\<^verbatim>\<open>ops.rs\<close>): the operations, grouped into families, with their fields, the
    terminators, and the accessors every pass is written with: destination, operands, loop cursor,
    what is unbound, what is moved. They report every register of an operation and no other, and
    rewriting through them renames it. The operations are parametrized over the type of a register,
    which is \<open>nat\<close> (a Rust \<open>usize\<close> index) throughout.
  \<^item> \<open>BIR_Function\<close> (\<^verbatim>\<open>function.rs\<close>): registers, blocks, functions, classes, modules.
  \<^item> \<open>BIR_Builder\<close> (\<^verbatim>\<open>builder.rs\<close>): the builder the lowering makes a function with. For every sequence of
    calls a sealed block is final, and an operation that can fail is found on the line it was written
    on.
  \<^item> \<open>BIR_CallGraph\<close> over \<open>BIR_Tarjan\<close> (\<^verbatim>\<open>call_graph.rs\<close>): the iterative search for strongly connected
    components, which returns and finds them exactly, and the functions on a cycle of native calls.

  \<^bold>\<open>The verifier\<close>
  \<^item> \<open>BIR_Dataflow\<close>: forward analysis to a fixed point, stated once over a locale for a chaotic
    iteration and interpreted on every loop of the program of that kind; \<open>BIR_Paths\<close>: the paths of a
    function, which say what such a fixed point means.
  \<^item> \<open>BIR_Unbound\<close> (\<^verbatim>\<open>unbound_locals.rs\<close>): which locals may be read before they are assigned.
  \<^item> \<open>BIR_Check\<close>, \<open>BIR_Search\<close>, \<open>BIR_Verify\<close> (\<^verbatim>\<open>verify.rs\<close>): the checks of an operation, of a block, of the
    definite assignment, of the release sets, of the module. What the checks report is a list of
    violations, in the order of the code; a module verifies if it is empty.
  \<^item> \<open>BIR_Checked\<close>, \<open>BIR_Verified\<close>, \<open>BIR_Preserve\<close>: what an accepted function has: no path reads what it has
    not written, no reference leaks at an exit, indices are in range but for three destinations, only
    an owned reference is given away; and what a pass has to keep for a function to stay accepted.

  \<^bold>\<open>The passes\<close>
  \<^item> \<open>Opt_Pass\<close>: the shape they share, a locale with the laws a pass owes (it returns, and it keeps the
    interface and the verifier's verdict of a function) and what a module then keeps.
  \<^item> \<open>BIR_Semantics\<close>: what a function does, over a machine that is a parameter, because what an operation
    computes is the business of the emitted C. Two functions behave alike if they give the same
    answer after every number of blocks.
  \<^item> \<open>Opt_Liveness\<close> (\<^verbatim>\<open>liveness.rs\<close>), \<open>Opt_Refcount\<close> (\<^verbatim>\<open>refcount.rs\<close>): the two analyses, shown to compute
    exactly what the paths of the function say.
  \<^item> \<open>Opt_StrAppend\<close>, \<open>Opt_AppendRuns\<close> (\<^verbatim>\<open>str_append.rs\<close>), \<open>Opt_DeadRegisters\<close> (\<^verbatim>\<open>dead_registers.rs\<close>),
    \<open>Opt_Retarget\<close> with \<open>Opt_Coalesce\<close> (\<^verbatim>\<open>coalesce.rs\<close>) and \<open>Opt_CopyPropagation\<close>, \<open>Opt_CopyRuns\<close>
    (\<^verbatim>\<open>copy_propagation.rs\<close>): the rewrites, shown to change no answer.
  \<^item> \<open>Opt_Fold\<close>, \<open>Opt_FoldRuns\<close> (\<^verbatim>\<open>fold.rs\<close>): folding operations on immediates and what a block has built,
    boxed or read. Integer folds are exact within 64 bits, and folding changes no answer on a machine
    with Python's integers, tuples and frozen fields. The hoisting of reads of immutable fields does
    change one.
  \<^item> \<open>Opt_Segments\<close>: rewriting the operations of a block piece by piece. Over it \<open>Opt_StrItemCompare\<close>
    (\<^verbatim>\<open>str_item_compare.rs\<close>), which fuses the read of a character with its comparison, and
    \<open>Opt_DeadAllocations\<close> (\<^verbatim>\<open>dead_allocations.rs\<close>), which drops in rounds what is computed and never read.
  \<^item> \<open>Opt_Splices\<close>: rewriting windows found by their position, last first, in a locale for windows that do not
    overlap, and the counts of what is written and read. Over it \<open>Opt_StrOfInt\<close> (\<^verbatim>\<open>str_of_int.rs\<close>), which
    formats an integer without boxing it, and \<open>Opt_StrConcatInt\<close> (\<^verbatim>\<open>str_concat_int.rs\<close>), which appends the
    digits without building their string.
  \<^item> \<open>Opt_FieldProofs\<close>, \<open>Opt_FieldRuns\<close> (\<^verbatim>\<open>field_proofs.rs\<close>): dropping the tests of fields that a store or an
    earlier test has answered. Whether an operation can run Python code is a parameter, one flag per
    operation; where the flags are right and a stored field stays, no answer changes. A finalizer that
    deletes the field just stored is a case the pass misses.
  \<^item> \<open>Opt_Infallible\<close> (\<^verbatim>\<open>infallible.rs\<close>): which functions cannot raise, exactly those from which no chain of
    native calls leads to an operation that can; such a function needs no handler.

  \<^bold>\<open>Resources\<close>
  \<^item> \<open>Text_Prelude\<close>: lines, prefixes and joined texts, as Rust's string functions have them.
  \<^item> \<open>Res_Parse\<close>, \<open>Res_Reads\<close> (\<^verbatim>\<open>value.rs\<close>, \<^verbatim>\<open>parse.rs\<close>): a document read from json, toml or yaml within a
    budget of values and levels. What the three parsers hand over is data, the parsers are
    parameters. The yaml reader is an event machine, shown to read what recursion over the document
    would and to hold no more than its budget.
  \<^item> \<open>Res_Render\<close>, \<open>Res_Rendered\<close> (\<^verbatim>\<open>render.rs\<close>, \<^verbatim>\<open>lib.rs\<close>): the Python text a document becomes. The text is
    the printed form of statements, and running them, in a small model of class bodies and names,
    binds the root to the document. A locale says what rendering relies on of a reader.

  \<^bold>\<open>Staging\<close>
  \<^item> \<open>Stage_Sourcemap\<close> (\<^verbatim>\<open>sourcemap.rs\<close>): the map module. Replacing an entry in its text is rendering the
    map with that entry; a key is read back as it was written.
  \<^item> \<open>Stage_Tree\<close> (\<^verbatim>\<open>staging.rs\<close>): where a source lands, the files a build writes and takes back, on a
    file system of relative paths whose operations succeed. A rebuilt tree mirrors the last build.

  \<^bold>\<open>Edits and their maps\<close>
  \<^item> \<open>Tr_Edits\<close>, \<open>Tr_LineTable\<close> (\<^verbatim>\<open>by_transforms/src/source_map.rs\<close>): a text as its bytes, the replacement of an
    edit as the runs it is put together from, and the line table of an edited text. A replacement is
    refined to what it says of each byte, and the table to charging every line to its first visible
    byte of the author.
  \<^item> \<open>Tr_Columns\<close>, \<open>Tr_Edited\<close> (\<^verbatim>\<open>columns.rs\<close>): which bytes of a line the author wrote, and where. What a
    line of runs means is a function of the column; editing builds the runs of what the bytes say,
    composing two steps composes their meanings, and what the last check leaves is the author's.
    Offsets are \<open>nat\<close> (\<open>usize\<close>), lines and columns are \<open>u32\<close> words, and the texts of the theorems are
    shorter than 4 GiB, so that no addition wraps.

  \<^bold>\<open>Loops.\<close> A Rust loop over a list is structural recursion or a fold. A loop that runs until nothing
  changes is \<open>while_option\<close>, \<open>None\<close> if it does not end, and every theorem about one says that it
  returns. A run of a function is bounded by a number of blocks, and the theorems hold for every
  number. A \<open>HashMap\<close> is a map, a \<open>HashSet\<close> of registers a set or an ordered list without repetition.

  \<^bold>\<open>Not modelled.\<close> The lowering (\<^verbatim>\<open>by_irbuild\<close>, which rests on the whole type checker), the C emitter
  and its runtime header, the build driver, the source transforms (they rewrite the tree of the parser under the eye of the type
  checker; their edits and maps are modelled), and the linter and type checker
  the repository is a fork of. Of staging, what asks the project database: which files a build is made
  of, emission, the build record and the interactive session. Of the optimizer, the passes that copy loops and decide ownership,
  and the remaining peephole rewrites, are left for an extension of the library.
\<close>

end
